(* ===== verification/Prelude.thy ===== *)
theory Prelude
  imports Main "HOL-Library.Word" "HOL-Library.Sublist" "HOL-Library.Code_Target_Nat"
begin

text \<open>
  Shared vocabulary of the development: bytes and JavaScript strings as words, the result
  types for code that throws, hint collections, generic list and word lemmas, and the
  interfaces (locales) that the encoding layers of the client share.

  \<^item> \<open>byte\<close> is an element of a \<open>Uint8Array\<close>, \<open>bytes\<close> its contents.
  \<^item> \<open>u16\<close> is a UTF-16 code unit, \<open>jsstr\<close> a JavaScript string (a sequence of code units,
    surrogates included, paired or not).
  \<^item> \<open>exn + 'a\<close> is the result of a pure function that may throw.
  \<^item> \<open>'s outcome\<close> is the result of a procedure that updates the state \<open>'s\<close> and may throw on the
    way: what it wrote before the throw stays written.
\<close>

section \<open>Types\<close>

type_synonym byte = "8 word"
type_synonym bytes = "byte list"
type_synonym u16 = "16 word"
type_synonym jsstr = "u16 list"

text \<open>The exceptions the modelled code can raise, by the kind of failing call.\<close>

datatype exn =
    InvalidCharacterError \<comment> \<open>\<open>atob\<close> on text that is not base64\<close>
  | SyntaxError           \<comment> \<open>\<open>JSON.parse\<close> on malformed text\<close>
  | RangeErr              \<comment> \<open>\<open>new Array(n)\<close>, a scalar out of range\<close>
  | TypeErr               \<comment> \<open>property of \<open>null\<close>\<close>
  | CryptoError           \<comment> \<open>thrown by a cryptographic library call\<close>
  | MessageError string   \<comment> \<open>\<open>new Error(msg)\<close> in the client's own code\<close>

datatype 's outcome = Done 's | Throws exn 's

fun state_of :: "'s outcome \<Rightarrow> 's" where
  "state_of (Done s) = s"
| "state_of (Throws e s) = s"

fun thrown :: "'s outcome \<Rightarrow> exn option" where
  "thrown (Done s) = None"
| "thrown (Throws e s) = Some e"

text \<open>Sequential composition: a throw skips the rest and keeps the state reached.\<close>

fun and_then :: "'s outcome \<Rightarrow> ('s \<Rightarrow> 's outcome) \<Rightarrow> 's outcome" where
  "and_then (Done s) f = f s"
| "and_then (Throws e s) f = Throws e s"

text \<open>A \<open>for (const x of xs)\<close> loop whose body may throw.\<close>

fun for_each :: "('a \<Rightarrow> 's \<Rightarrow> 's outcome) \<Rightarrow> 'a list \<Rightarrow> 's \<Rightarrow> 's outcome" where
  "for_each f [] s = Done s"
| "for_each f (x # xs) s = and_then (f x s) (for_each f xs)"

definition bind_result :: "exn + 'a \<Rightarrow> ('a \<Rightarrow> exn + 'b) \<Rightarrow> exn + 'b" where
  "bind_result r f = (case r of Inl e \<Rightarrow> Inl e | Inr a \<Rightarrow> f a)"

lemma bind_result_simps [simp]:
  "bind_result (Inl e) f = Inl e"
  "bind_result (Inr a) f = f a"
  by (simp_all add: bind_result_def)

lemma bind_result_eq_Inr:
  "bind_result r f = Inr b \<longleftrightarrow> (\<exists>a. r = Inr a \<and> f a = Inr b)"
  by (cases r) auto

lemma state_of_and_then:
  "state_of (and_then r f) = (case r of Done s \<Rightarrow> state_of (f s) | Throws e s \<Rightarrow> s)"
  by (cases r) auto

lemma outcome_invariant_and_then:
  assumes "I (state_of r)" and "\<And>s. I s \<Longrightarrow> I (state_of (f s))"
  shows "I (state_of (and_then r f))"
  using assms by (cases r) auto

lemma outcome_invariant_for_each:
  assumes "\<And>x s. x \<in> set xs \<Longrightarrow> I s \<Longrightarrow> I (state_of (f x s))" and "I s"
  shows "I (state_of (for_each f xs s))"
  using assms
proof (induction xs arbitrary: s)
  case Nil
  then show ?case by simp
next
  case (Cons x xs)
  have "I (state_of (f x s))"
    using Cons.prems by simp
  moreover have "I (state_of (for_each f xs t))" if "I t" for t
    using Cons that by simp
  ultimately show ?case
    by (simp add: outcome_invariant_and_then)
qed

text \<open>A loop keeps what each of its passes keeps.\<close>

lemma foldl_preserves:
  assumes "I s" and "\<And>x t. x \<in> set xs \<Longrightarrow> I t \<Longrightarrow> I (f t x)"
  shows "I (foldl f s xs)"
  using assms by (induction xs arbitrary: s) auto

section \<open>JavaScript string literals\<close>

text \<open>\<open>js ''abc''\<close> is the JavaScript string with these (ASCII) characters.\<close>

definition js_char :: "char \<Rightarrow> u16" where
  "js_char c = of_nat (of_char c)"

definition js :: "string \<Rightarrow> jsstr" where
  "js s = map js_char s"

lemma of_char_less_256: "(of_char c :: nat) < 256"
  by (metis of_char_mod_256 mod_less_divisor zero_less_numeral)

lemma unat_js_char: "unat (js_char c) = of_char c"
proof -
  have "(of_char c :: nat) < 65536"
    by (rule less_trans [OF of_char_less_256]) simp
  then show ?thesis by (simp add: js_char_def unat_of_nat)
qed

lemma js_char_eq_iff [simp]: "js_char c = js_char d \<longleftrightarrow> c = d"
  by (metis of_char_eq_iff unat_js_char)

lemma js_eq_iff [simp]: "js s = js t \<longleftrightarrow> s = t"
  by (simp add: js_def inj_map_eq_map inj_def)

lemma js_simps [simp]:
  "js [] = []"
  "js s = [] \<longleftrightarrow> s = []"
  "[] = js s \<longleftrightarrow> s = []"
  "length (js s) = length s"
  by (auto simp: js_def)

lemma js_append: "js (s @ t) = js s @ js t"
  by (simp add: js_def)

section \<open>Words\<close>

lemma unat_of_nat_byte: "n < 256 \<Longrightarrow> unat (of_nat n :: byte) = n"
  by (simp add: unat_of_nat)

lemma unat_of_nat_u16: "n < 65536 \<Longrightarrow> unat (of_nat n :: u16) = n"
  by (simp add: unat_of_nat)

lemma unat_byte_less: "unat (b :: byte) < 256"
  using unsigned_less [of b] by simp

lemma unat_u16_less: "unat (u :: u16) < 65536"
  using unsigned_less [of u] by simp

lemma byte_eq_iff: "(a :: byte) = b \<longleftrightarrow> unat a = unat b"
  by (simp add: word_unat_eq_iff)

lemma unat_ucast_byte [simp]: "unat (ucast (b :: byte) :: u16) = unat b"
proof -
  have "unat b < 65536"
    by (rule less_trans [OF unat_byte_less]) simp
  then show ?thesis by (simp add: unsigned_ucast_eq take_bit_nat_eq_self)
qed

lemma ucast_unit_of_byte: "ucast (of_nat (unat b) :: u16) = (b :: byte)"
  by (rule word_unat_eq_iff [THEN iffD2])
    (simp add: unsigned_ucast_eq unsigned_of_nat take_bit_nat_eq_self unat_byte_less
      order.strict_trans [OF unat_byte_less] take_bit_word_eq_self)

lemma ucast_unit_byte [simp]: "ucast (ucast (b :: byte) :: u16) = b"
  by (rule word_unat_eq_iff [THEN iffD2])
    (simp add: unsigned_ucast_eq take_bit_nat_eq_self unat_byte_less take_bit_word_eq_self)

section \<open>Interfaces of the encoding layers\<close>

text \<open>
  Every encoding of the client (UTF-8, base64, base64url, JSON, big-endian integers) promises
  the same: a value in its domain is recovered from its encoding. A decoder that may throw
  returns \<open>None\<close>.
\<close>

locale codec =
  fixes enc :: "'a \<Rightarrow> 'b"
    and dec :: "'b \<Rightarrow> 'a option"
    and valid :: "'a \<Rightarrow> bool"
  assumes dec_enc: "valid x \<Longrightarrow> dec (enc x) = Some x"
begin

lemma enc_inject: "valid x \<Longrightarrow> valid y \<Longrightarrow> enc x = enc y \<longleftrightarrow> x = y"
  by (metis dec_enc option.inject)

lemma enc_inj_on: "inj_on enc {x. valid x}"
  by (rule inj_onI) (simp add: enc_inject)

lemma dec_enc_bind: "valid x \<Longrightarrow> Option.bind (dec (enc x)) f = f x"
  by (simp add: dec_enc)

end

text \<open>Two layers stacked on each other: the composition is again such an encoding.\<close>

locale codec_stack = inner: codec enc1 dec1 valid1 + outer: codec enc2 dec2 valid2
  for enc1 :: "'a \<Rightarrow> 'b" and dec1 :: "'b \<Rightarrow> 'a option" and valid1 :: "'a \<Rightarrow> bool"
    and enc2 :: "'b \<Rightarrow> 'c" and dec2 :: "'c \<Rightarrow> 'b option" and valid2 :: "'b \<Rightarrow> bool" +
  assumes layers_fit: "valid1 x \<Longrightarrow> valid2 (enc1 x)"

sublocale codec_stack \<subseteq> stacked: codec
    "\<lambda>x. enc2 (enc1 x)" "\<lambda>y. Option.bind (dec2 y) dec1" valid1
  by unfold_locales (simp add: layers_fit outer.dec_enc inner.dec_enc)

text \<open>
  A self-delimiting encoding: what follows an encoded value cannot be confused with it, so
  concatenations of encoded values are unambiguous.
\<close>

locale prefix_code =
  fixes enc :: "'a \<Rightarrow> 'b list"
    and valid :: "'a \<Rightarrow> bool"
  assumes enc_append_cancel:
    "valid x \<Longrightarrow> valid y \<Longrightarrow> enc x @ r = enc y @ s \<Longrightarrow> x = y \<and> r = s"
begin

lemma concat_map_inject:
  assumes "length xs = length ys" and "\<forall>x \<in> set xs. valid x" and "\<forall>y \<in> set ys. valid y"
    and "concat (map enc xs) @ r = concat (map enc ys) @ s"
  shows "xs = ys \<and> r = s"
  using assms
proof (induction xs ys rule: list_induct2)
  case Nil
  then show ?case by simp
next
  case (Cons x xs y ys)
  then have "enc x @ (concat (map enc xs) @ r) = enc y @ (concat (map enc ys) @ s)"
    by simp
  then have "x = y \<and> concat (map enc xs) @ r = concat (map enc ys) @ s"
    using Cons.prems by (intro enc_append_cancel) auto
  with Cons show ?case by simp
qed

end

text \<open>
  A labelled transition system with a candidate invariant: the invariant is proved once per
  step and lifted here to every state a run can reach.
\<close>

fun run_steps :: "('e \<Rightarrow> 's \<Rightarrow> 's) \<Rightarrow> 'e list \<Rightarrow> 's \<Rightarrow> 's" where
  "run_steps step [] s = s"
| "run_steps step (e # es) s = run_steps step es (step e s)"

lemma run_steps_append:
  "run_steps step (es @ fs) s = run_steps step fs (run_steps step es s)"
  by (induction es arbitrary: s) auto

locale invariant_system =
  fixes step :: "'e \<Rightarrow> 's \<Rightarrow> 's"
    and inv :: "'s \<Rightarrow> bool"
  assumes step_inv: "inv s \<Longrightarrow> inv (step e s)"
begin

lemma run_inv: "inv s \<Longrightarrow> inv (run_steps step es s)"
  by (induction es arbitrary: s) (auto intro: step_inv)

end

end
