(* ===== verification/JsText.thy ===== *)
theory JsText
  imports Prelude
begin

text \<open>
  The two text codecs of the web platform the client relies on, as their standards define
  them: \<open>TextEncoder.encode\<close> (UTF-16 code units to UTF-8, a lone surrogate becoming U+FFFD)
  and \<open>TextDecoder.decode\<close> (the UTF-8 decoder of the Encoding Standard in its replacement
  mode, with the byte-order mark dropped). \<open>encryptMessage\<close>, \<open>decryptMessage\<close>
  (web/src/crypto.ts), \<open>utf8\<close> (web/src/spake2.ts) and \<open>enc.encode\<close>
  (web/src/handshake.ts) are calls of these.
\<close>

section \<open>UTF-16 code units and Unicode scalar values\<close>

definition lead_surrogate :: "nat \<Rightarrow> bool" where
  "lead_surrogate u \<longleftrightarrow> 0xD800 \<le> u \<and> u < 0xDC00"

definition trail_surrogate :: "nat \<Rightarrow> bool" where
  "trail_surrogate u \<longleftrightarrow> 0xDC00 \<le> u \<and> u < 0xE000"

definition is_scalar :: "nat \<Rightarrow> bool" where
  "is_scalar c \<longleftrightarrow> c < 0xD800 \<or> (0xE000 \<le> c \<and> c < 0x110000)"

text \<open>
  \<open>scalars s\<close> reads the code units as the \<open>USVString\<close> conversion does: a surrogate pair is
  one scalar value, any other surrogate becomes U+FFFD.
\<close>

definition lone :: "nat \<Rightarrow> nat" where
  "lone u = (if lead_surrogate u \<or> trail_surrogate u then 0xFFFD else u)"

fun scalars :: "jsstr \<Rightarrow> nat list" where
  "scalars [] = []"
| "scalars [u] = [lone (unat u)]"
| "scalars (u # v # s) =
     (if lead_surrogate (unat u) \<and> trail_surrogate (unat v)
      then (0x10000 + (unat u - 0xD800) * 0x400 + (unat v - 0xDC00)) # scalars s
      else lone (unat u) # scalars (v # s))"

definition units_of :: "nat \<Rightarrow> jsstr" where
  "units_of c =
     (if c < 0x10000 then [of_nat c]
      else [of_nat (0xD800 + (c - 0x10000) div 0x400), of_nat (0xDC00 + (c - 0x10000) mod 0x400)])"

text \<open>No unpaired surrogate: the strings whose text survives an encoding.\<close>

fun well_formed :: "jsstr \<Rightarrow> bool" where
  "well_formed [] = True"
| "well_formed [u] = (\<not> lead_surrogate (unat u) \<and> \<not> trail_surrogate (unat u))"
| "well_formed (u # v # s) =
     (if lead_surrogate (unat u) then trail_surrogate (unat v) \<and> well_formed s
      else \<not> trail_surrogate (unat u) \<and> well_formed (v # s))"

lemma scalars_are_scalar: "c \<in> set (scalars s) \<Longrightarrow> is_scalar c"
proof (induction s rule: scalars.induct)
  case (2 u)
  then show ?case
    using unat_u16_less [of u]
    by (auto simp: lone_def lead_surrogate_def trail_surrogate_def is_scalar_def)
next
  case (3 u v s)
  then show ?case
    using unat_u16_less [of u]
    by (auto simp: lone_def lead_surrogate_def trail_surrogate_def is_scalar_def split: if_splits)
qed simp

lemma units_of_pair:
  assumes "lead_surrogate (unat u)" and "trail_surrogate (unat v)"
  shows "units_of (0x10000 + (unat u - 0xD800) * 0x400 + (unat v - 0xDC00)) = [u, v]"
proof -
  let ?a = "unat u - 0xD800" and ?b = "unat v - 0xDC00"
  have b: "?b < 0x400" and u: "0xD800 + ?a = unat u" and v: "0xDC00 + ?b = unat v"
    using assms by (auto simp: lead_surrogate_def trail_surrogate_def)
  have "(?a * 0x400 + ?b) div 0x400 = ?a" and "(?a * 0x400 + ?b) mod 0x400 = ?b"
    using b by auto
  then show ?thesis
    using u v by (simp add: units_of_def add.assoc)
qed

lemma units_of_scalars:
  "well_formed s \<Longrightarrow> concat (map units_of (scalars s)) = s"
proof (induction s rule: scalars.induct)
  case 1
  then show ?case by simp
next
  case (2 u)
  then show ?case using unat_u16_less [of u] by (simp add: lone_def units_of_def)
next
  case (3 u v s)
  show ?case
  proof (cases "lead_surrogate (unat u)")
    case True
    with 3 show ?thesis by (simp add: units_of_pair)
  next
    case False
    with 3 show ?thesis using unat_u16_less [of u] by (simp add: lone_def units_of_def)
  qed
qed

section \<open>UTF-8\<close>

definition utf8_of :: "nat \<Rightarrow> bytes" where
  "utf8_of c =
     (if c < 0x80 then [of_nat c]
      else if c < 0x800 then [of_nat (0xC0 + c div 0x40), of_nat (0x80 + c mod 0x40)]
      else if c < 0x10000 then
        [of_nat (0xE0 + c div 0x1000), of_nat (0x80 + c div 0x40 mod 0x40),
         of_nat (0x80 + c mod 0x40)]
      else
        [of_nat (0xF0 + c div 0x40000), of_nat (0x80 + c div 0x1000 mod 0x40),
         of_nat (0x80 + c div 0x40 mod 0x40), of_nat (0x80 + c mod 0x40)])"

definition text_encode :: "jsstr \<Rightarrow> bytes" where
  "text_encode s = concat (map utf8_of (scalars s))"

text \<open>
  The decoder's state between bytes: how many continuation bytes it still needs, the code
  point so far and the range the next byte must lie in. A byte outside that range ends the
  sequence with U+FFFD and is read again as a first byte.
\<close>

function (sequential) utf8_first :: "bytes \<Rightarrow> nat list"
  and utf8_next :: "nat \<Rightarrow> nat \<Rightarrow> nat \<Rightarrow> nat \<Rightarrow> bytes \<Rightarrow> nat list" where
  "utf8_first [] = []"
| "utf8_first (b # bs) =
     (let n = unat b in
      if n < 0x80 then n # utf8_first bs
      else if 0xC2 \<le> n \<and> n < 0xE0 then utf8_next 1 (n - 0xC0) 0x80 0xBF bs
      else if 0xE0 \<le> n \<and> n < 0xF0 then
        utf8_next 2 (n - 0xE0) (if n = 0xE0 then 0xA0 else 0x80) (if n = 0xED then 0x9F else 0xBF) bs
      else if 0xF0 \<le> n \<and> n < 0xF5 then
        utf8_next 3 (n - 0xF0) (if n = 0xF0 then 0x90 else 0x80) (if n = 0xF4 then 0x8F else 0xBF) bs
      else 0xFFFD # utf8_first bs)"
| "utf8_next need cp lo hi [] = [0xFFFD]"
| "utf8_next need cp lo hi (b # bs) =
     (let n = unat b in
      if lo \<le> n \<and> n \<le> hi then
        (if need \<le> 1 then (cp * 0x40 + (n - 0x80)) # utf8_first bs
         else utf8_next (need - 1) (cp * 0x40 + (n - 0x80)) 0x80 0xBF bs)
      else 0xFFFD # utf8_first (b # bs))"
  by pat_completeness auto
termination
  by (relation "measure (case_sum (\<lambda>bs. 2 * length bs) (\<lambda>(_, _, _, _, bs). 2 * length bs + 1))") auto

definition text_decode :: "bytes \<Rightarrow> jsstr" where
  "text_decode bs =
     (let cs = utf8_first bs;
          cs' = (case cs of c # r \<Rightarrow> if c = 0xFEFF then r else cs | [] \<Rightarrow> [])
      in concat (map units_of cs'))"

lemma utf8_next_cont:
  assumes "0x80 + d \<le> hi" and "lo \<le> 0x80 + d" and "d < 0x40"
  shows "utf8_next need cp lo hi (of_nat (0x80 + d) # bs) =
    (if need \<le> 1 then (cp * 0x40 + d) # utf8_first bs
     else utf8_next (need - 1) (cp * 0x40 + d) 0x80 0xBF bs)"
proof -
  have "unat (of_nat (0x80 + d) :: byte) = 0x80 + d"
    using assms(3) by (intro unat_of_nat_byte) simp
  with assms show ?thesis by (simp del: of_nat_add)
qed


lemma utf8_first_lead2:
  assumes "0xC2 \<le> 0xC0 + d" and "d < 0x20"
  shows "utf8_first (of_nat (0xC0 + d) # bs) = utf8_next 1 d 0x80 0xBF bs"
proof -
  have "unat (of_nat (0xC0 + d) :: byte) = 0xC0 + d"
    using assms(2) by (intro unat_of_nat_byte) simp
  with assms show ?thesis by (simp del: of_nat_add)
qed

lemma utf8_first_lead3:
  assumes "d < 0x10"
  shows "utf8_first (of_nat (0xE0 + d) # bs) =
    utf8_next 2 d (if d = 0 then 0xA0 else 0x80) (if d = 0xD then 0x9F else 0xBF) bs"
proof -
  have "unat (of_nat (0xE0 + d) :: byte) = 0xE0 + d"
    using assms by (intro unat_of_nat_byte) simp
  with assms show ?thesis by (simp del: of_nat_add)
qed

lemma utf8_first_lead4:
  assumes "d < 5"
  shows "utf8_first (of_nat (0xF0 + d) # bs) =
    utf8_next 3 d (if d = 0 then 0x90 else 0x80) (if d = 4 then 0x8F else 0xBF) bs"
proof -
  have "unat (of_nat (0xF0 + d) :: byte) = 0xF0 + d"
    using assms by (intro unat_of_nat_byte) simp
  with assms show ?thesis by (simp del: of_nat_add)
qed

text \<open>One scalar value: four cases by the length of its encoding.\<close>

lemma utf8_roundtrip_1: "c < 0x80 \<Longrightarrow> utf8_first (utf8_of c @ bs) = c # utf8_first bs"
  by (simp add: utf8_of_def unat_of_nat)

lemma utf8_roundtrip_2:
  assumes "0x80 \<le> c" and "c < 0x800"
  shows "utf8_first (utf8_of c @ bs) = c # utf8_first bs"
proof -
  have "utf8_of c = [of_nat (0xC0 + c div 0x40), of_nat (0x80 + c mod 0x40)]"
    using assms by (simp add: utf8_of_def)
  moreover have "0xC2 \<le> 0xC0 + c div 0x40" and "c div 0x40 < 0x20"
    using assms by auto
  ultimately show ?thesis
    by (simp add: utf8_first_lead2 utf8_next_cont del: of_nat_add utf8_first.simps utf8_next.simps)
qed

lemma utf8_first_three:
  assumes "a < 0x10" and "b < 0x40" and "d < 0x40"
    and "a = 0 \<Longrightarrow> 0x20 \<le> b" and "a = 0xD \<Longrightarrow> b < 0x20"
  shows "utf8_first (of_nat (0xE0 + a) # of_nat (0x80 + b) # of_nat (0x80 + d) # bs) =
    ((a * 0x40 + b) * 0x40 + d) # utf8_first bs"
  unfolding utf8_first_lead3 [OF assms(1)] using assms(2-)
  by (auto simp add: utf8_next_cont simp del: of_nat_add utf8_first.simps utf8_next.simps)

lemma utf8_first_four:
  assumes "a < 5" and "b < 0x40" and "d < 0x40" and "e < 0x40"
    and "a = 0 \<Longrightarrow> 0x10 \<le> b" and "a = 4 \<Longrightarrow> b < 0x10"
  shows "utf8_first (of_nat (0xF0 + a) # of_nat (0x80 + b) # of_nat (0x80 + d) # of_nat (0x80 + e) # bs) =
    (((a * 0x40 + b) * 0x40 + d) * 0x40 + e) # utf8_first bs"
  unfolding utf8_first_lead4 [OF assms(1)] using assms(2-)
  by (auto simp add: utf8_next_cont simp del: of_nat_add utf8_first.simps utf8_next.simps)

lemma sextets:
  "c div 0x1000 = c div 0x40 div 0x40"
  "c div 0x40000 = c div 0x40 div 0x40 div 0x40"
  for c :: nat
  by (simp_all flip: div_mult2_eq)

lemma utf8_roundtrip_3:
  assumes "0x800 \<le> c" and "c < 0x10000" and "is_scalar c"
  shows "utf8_first (utf8_of c @ bs) = c # utf8_first bs"
proof -
  let ?a = "c div 0x1000" and ?b = "c div 0x40 mod 0x40" and ?d = "c mod 0x40"
  have ab: "?a * 0x40 + ?b = c div 0x40"
    by (simp only: sextets div_mult_mod_eq)
  have b: "?b < 0x40" and low: "0x20 \<le> c div 0x40"
    using assms(1) by (simp_all add: less_eq_div_iff_mult_less_eq)
  have gap: "c div 0x40 < 864 \<or> 896 \<le> c div 0x40"
    using assms(3)
    by (auto simp: is_scalar_def less_eq_div_iff_mult_less_eq div_less_iff_less_mult)
  have "utf8_first (of_nat (0xE0 + ?a) # of_nat (0x80 + ?b) # of_nat (0x80 + ?d) # bs) =
      ((?a * 0x40 + ?b) * 0x40 + ?d) # utf8_first bs"
  proof (rule utf8_first_three)
    show "?a < 0x10" using assms(2) by auto
    show "0x20 \<le> ?b" if "?a = 0" using that ab low by linarith
    show "?b < 0x20" if "?a = 0xD" using that ab b gap by linarith
  qed simp_all
  moreover have "(?a * 0x40 + ?b) * 0x40 + ?d = c"
    by (simp only: sextets div_mult_mod_eq)
  ultimately show ?thesis
    using assms(1,2) by (simp add: utf8_of_def del: of_nat_add)
qed

lemma utf8_roundtrip_4:
  assumes "0x10000 \<le> c" and "c < 0x110000"
  shows "utf8_first (utf8_of c @ bs) = c # utf8_first bs"
proof -
  let ?a = "c div 0x40000" and ?b = "c div 0x1000 mod 0x40"
    and ?d = "c div 0x40 mod 0x40" and ?e = "c mod 0x40"
  have ab: "?a * 0x40 + ?b = c div 0x1000"
    by (simp only: sextets div_mult_mod_eq)
  have low: "0x10 \<le> c div 0x1000" and high: "c div 0x1000 < 272"
    using assms by (simp_all add: less_eq_div_iff_mult_less_eq div_less_iff_less_mult)
  have "utf8_first (of_nat (0xF0 + ?a) # of_nat (0x80 + ?b) # of_nat (0x80 + ?d)
      # of_nat (0x80 + ?e) # bs) =
      (((?a * 0x40 + ?b) * 0x40 + ?d) * 0x40 + ?e) # utf8_first bs"
  proof (rule utf8_first_four)
    show "?a < 5" using assms(2) by auto
    show "0x10 \<le> ?b" if "?a = 0" using that ab low by linarith
    show "?b < 0x10" if "?a = 4" using that ab high by linarith
  qed simp_all
  moreover have "((?a * 0x40 + ?b) * 0x40 + ?d) * 0x40 + ?e = c"
    by (simp only: sextets div_mult_mod_eq)
  ultimately show ?thesis
    using assms by (simp add: utf8_of_def del: of_nat_add)
qed

lemma utf8_roundtrip_scalar:
  assumes "is_scalar c"
  shows "utf8_first (utf8_of c @ bs) = c # utf8_first bs"
proof -
  consider "c < 0x80" | "0x80 \<le> c \<and> c < 0x800" | "0x800 \<le> c \<and> c < 0x10000" | "0x10000 \<le> c"
    by linarith
  then show ?thesis
    using assms utf8_roundtrip_1 utf8_roundtrip_2 utf8_roundtrip_3 utf8_roundtrip_4
    by cases (auto simp: is_scalar_def)
qed

lemma utf8_roundtrip_scalars:
  "\<forall>c \<in> set cs. is_scalar c \<Longrightarrow> utf8_first (concat (map utf8_of cs)) = cs"
  by (induction cs) (simp_all add: utf8_roundtrip_scalar)

text \<open>
  The text that survives encryption: no unpaired surrogate, and not led by a byte-order mark,
  which \<open>TextDecoder\<close> drops.
\<close>

definition plain_text :: "jsstr \<Rightarrow> bool" where
  "plain_text s \<longleftrightarrow> well_formed s \<and> (case s of u # _ \<Rightarrow> u \<noteq> 0xFEFF | [] \<Rightarrow> True)"

lemma scalars_no_bom:
  assumes "plain_text s"
  shows "(case scalars s of c # r \<Rightarrow> if c = 0xFEFF then r else scalars s | [] \<Rightarrow> []) = scalars s"
proof (cases s rule: scalars.cases)
  case (2 u)
  with assms have "unat u \<noteq> 0xFEFF"
    by (auto simp: plain_text_def word_unat_eq_iff)
  with 2 show ?thesis by (simp add: lone_def)
next
  case (3 u v t)
  with assms have "unat u \<noteq> 0xFEFF"
    by (auto simp: plain_text_def word_unat_eq_iff)
  with 3 show ?thesis by (simp add: lone_def)
qed simp

lemma text_roundtrip:
  assumes "plain_text s"
  shows "text_decode (text_encode s) = s"
proof -
  have "utf8_first (text_encode s) = scalars s"
    unfolding text_encode_def by (rule utf8_roundtrip_scalars) (auto dest: scalars_are_scalar)
  then have "text_decode (text_encode s) = concat (map units_of (scalars s))"
    using scalars_no_bom [OF assms] by (simp add: text_decode_def)
  then show ?thesis
    using assms by (simp add: plain_text_def units_of_scalars)
qed

interpretation utf8: codec text_encode "\<lambda>b. Some (text_decode b)" plain_text
  by unfold_locales (simp add: text_roundtrip)

section \<open>ASCII text\<close>

definition ascii :: "jsstr \<Rightarrow> bool" where
  "ascii s \<longleftrightarrow> (\<forall>u \<in> set s. unat u < 0x80)"

lemma ascii_simps [simp]:
  "ascii []"
  "ascii (u # s) \<longleftrightarrow> unat u < 0x80 \<and> ascii s"
  "ascii (s @ t) \<longleftrightarrow> ascii s \<and> ascii t"
  by (auto simp: ascii_def)

lemma ascii_well_formed: "ascii s \<Longrightarrow> well_formed s"
  by (induction s rule: well_formed.induct) (auto simp: lead_surrogate_def trail_surrogate_def)

lemma ascii_plain_text: "ascii s \<Longrightarrow> plain_text s"
  by (auto simp: plain_text_def ascii_well_formed split: list.split)

lemma ascii_text_encode: "ascii s \<Longrightarrow> text_encode s = map ucast s"
proof (induction s rule: scalars.induct)
  case (2 u)
  then show ?case
    by (simp add: text_encode_def lone_def lead_surrogate_def trail_surrogate_def utf8_of_def
        unsigned_ucast_eq word_unat_eq_iff unsigned_of_nat)
next
  case (3 u v s)
  then show ?case
    by (simp add: text_encode_def lone_def lead_surrogate_def trail_surrogate_def utf8_of_def
        unsigned_ucast_eq word_unat_eq_iff unsigned_of_nat)
qed (simp add: text_encode_def)

end
