(* ===== verification/Base64.thy ===== *)
theory Base64
  imports JsText
begin

text \<open>
  Base64 as the client uses it: the platform's \<open>btoa\<close> and \<open>atob\<close> (forgiving-base64 of the
  Infra Standard) and the helpers at the end of web/src/crypto.ts built on them
  (\<open>bytesToB64\<close>, \<open>b64ToBytes\<close>, \<open>b64ToB64url\<close>, \<open>b64urlToB64\<close>, \<open>bytesToB64url\<close>,
  \<open>b64urlToBytes\<close>), with their round trips and the alphabet of their output.
\<close>

section \<open>The platform's btoa and atob\<close>

definition b64_char :: "nat \<Rightarrow> u16" where
  "b64_char n =
     (if n < 26 then of_nat (65 + n)
      else if n < 52 then of_nat (71 + n)
      else if n < 62 then of_nat (n - 4)
      else if n = 62 then 43 else 47)"

definition b64_val :: "u16 \<Rightarrow> nat option" where
  "b64_val u =
     (let n = unat u in
      if 65 \<le> n \<and> n \<le> 90 then Some (n - 65)
      else if 97 \<le> n \<and> n \<le> 122 then Some (n - 71)
      else if 48 \<le> n \<and> n \<le> 57 then Some (n + 4)
      else if n = 43 then Some 62
      else if n = 47 then Some 63
      else None)"

text \<open>Three bytes are four characters; a shorter last group is padded with \<open>=\<close> (61).\<close>

fun b64_groups :: "nat list \<Rightarrow> jsstr" where
  "b64_groups [] = []"
| "b64_groups [a] = [b64_char (a div 4), b64_char (a mod 4 * 16), 61, 61]"
| "b64_groups [a, b] =
     [b64_char (a div 4), b64_char (a mod 4 * 16 + b div 16), b64_char (b mod 16 * 4), 61]"
| "b64_groups (a # b # c # r) =
     b64_char (a div 4) # b64_char (a mod 4 * 16 + b div 16)
     # b64_char (b mod 16 * 4 + c div 64) # b64_char (c mod 64) # b64_groups r"

definition btoa :: "jsstr \<Rightarrow> exn + jsstr" where
  "btoa s =
     (if list_all (\<lambda>u. unat u < 256) s then Inr (b64_groups (map unat s))
      else Inl InvalidCharacterError)"

fun b64_ungroup :: "nat list \<Rightarrow> nat list" where
  "b64_ungroup (w # x # y # z # r) =
     (w * 4 + x div 16) # (x mod 16 * 16 + y div 4) # (y mod 4 * 64 + z) # b64_ungroup r"
| "b64_ungroup [w, x, y] = [w * 4 + x div 16, x mod 16 * 16 + y div 4]"
| "b64_ungroup [w, x] = [w * 4 + x div 16]"
| "b64_ungroup _ = []"

definition ascii_whitespace :: "u16 \<Rightarrow> bool" where
  "ascii_whitespace u \<longleftrightarrow> u \<in> {0x09, 0x0A, 0x0C, 0x0D, 0x20}"

definition strip_padding :: "jsstr \<Rightarrow> jsstr" where
  "strip_padding s =
     (if length s mod 4 = 0 then
        (if suffix [61, 61] s then take (length s - 2) s
         else if suffix [61] s then take (length s - 1) s
         else s)
      else s)"

fun all_some :: "'a option list \<Rightarrow> 'a list option" where
  "all_some [] = Some []"
| "all_some (None # r) = None"
| "all_some (Some a # r) = map_option ((#) a) (all_some r)"

definition atob :: "jsstr \<Rightarrow> exn + jsstr" where
  "atob s =
     (let t = strip_padding (filter (\<lambda>u. \<not> ascii_whitespace u) s) in
      if length t mod 4 = 1 then Inl InvalidCharacterError
      else case all_some (map b64_val t) of
        None \<Rightarrow> Inl InvalidCharacterError
      | Some ns \<Rightarrow> Inr (map of_nat (b64_ungroup ns)))"

section \<open>The helpers of crypto.ts\<close>

text \<open>
  \<open>bytesToB64\<close> builds a binary string with \<open>String.fromCharCode\<close> and passes it to \<open>btoa\<close>,
  which cannot refuse it (\<open>btoa_binary\<close> below), so no exception is carried further.
\<close>

definition binary_string :: "bytes \<Rightarrow> jsstr" where
  "binary_string b = map ucast b"

definition bytesToB64 :: "bytes \<Rightarrow> jsstr" where
  "bytesToB64 b = (case btoa (binary_string b) of Inr s \<Rightarrow> s | Inl _ \<Rightarrow> [])"

definition b64ToBytes :: "jsstr \<Rightarrow> exn + bytes" where
  "b64ToBytes s = (case atob s of Inl e \<Rightarrow> Inl e | Inr bin \<Rightarrow> Inr (map ucast bin))"

definition replace_all :: "u16 \<Rightarrow> u16 \<Rightarrow> jsstr \<Rightarrow> jsstr" where
  "replace_all a b s = map (\<lambda>u. if u = a then b else u) s"

text \<open>\<open>/=+$/\<close> removes the whole run of trailing \<open>=\<close>.\<close>

definition b64ToB64url :: "jsstr \<Rightarrow> jsstr" where
  "b64ToB64url s =
     rev (dropWhile (\<lambda>u. u = 61) (rev (replace_all 47 95 (replace_all 43 45 s))))"

definition b64urlToB64 :: "jsstr \<Rightarrow> jsstr" where
  "b64urlToB64 s =
     (let t = replace_all 95 47 (replace_all 45 43 s);
          pad = (if length t mod 4 = 0 then [] else replicate (4 - length t mod 4) 61)
      in t @ pad)"

definition bytesToB64url :: "bytes \<Rightarrow> jsstr" where
  "bytesToB64url b = b64ToB64url (bytesToB64 b)"

definition b64urlToBytes :: "jsstr \<Rightarrow> exn + bytes" where
  "b64urlToBytes s = b64ToBytes (b64urlToB64 s)"

section \<open>The alphabet\<close>

lemma unat_b64_char:
  assumes "n < 64"
  shows "unat (b64_char n) =
    (if n < 26 then 65 + n else if n < 52 then 71 + n else if n < 62 then n - 4
     else if n = 62 then 43 else 47)"
  using assms by (auto simp: b64_char_def unat_of_nat_u16 simp del: of_nat_add of_nat_diff)

lemma b64_val_char: "n < 64 \<Longrightarrow> b64_val (b64_char n) = Some n"
  by (auto simp: b64_val_def unat_b64_char Let_def)

definition b64_alphabet :: "u16 \<Rightarrow> bool" where
  "b64_alphabet u \<longleftrightarrow> b64_val u \<noteq> None"

lemma b64_alphabet_char: "n < 64 \<Longrightarrow> b64_alphabet (b64_char n)"
  by (simp add: b64_alphabet_def b64_val_char)

lemma b64_alphabet_facts:
  assumes "b64_alphabet u"
  shows "u \<noteq> 61" and "\<not> ascii_whitespace u" and "unat u < 128" and "u \<noteq> 45" and "u \<noteq> 95"
  using assms by (auto simp: b64_alphabet_def b64_val_def ascii_whitespace_def Let_def split: if_splits)

section \<open>Round trips\<close>

text \<open>The six-bit groups without the padding, and how many padding characters follow.\<close>

fun sextets_of :: "nat list \<Rightarrow> nat list" where
  "sextets_of [] = []"
| "sextets_of [a] = [a div 4, a mod 4 * 16]"
| "sextets_of [a, b] = [a div 4, a mod 4 * 16 + b div 16, b mod 16 * 4]"
| "sextets_of (a # b # c # r) =
     (a div 4) # (a mod 4 * 16 + b div 16) # (b mod 16 * 4 + c div 64) # (c mod 64) # sextets_of r"

definition b64_padding :: "nat \<Rightarrow> nat" where
  "b64_padding n = (if n mod 3 = 0 then 0 else 3 - n mod 3)"

lemma b64_groups_sextets:
  "b64_groups ns = map b64_char (sextets_of ns) @ replicate (b64_padding (length ns)) 61"
  by (induction ns rule: b64_groups.induct) (simp_all add: b64_padding_def numeral_2_eq_2)

lemma length_sextets_of:
  "length (sextets_of ns) =
    4 * (length ns div 3) + (if length ns mod 3 = 0 then 0 else length ns mod 3 + 1)"
proof (induction ns rule: sextets_of.induct)
  case (4 a b c r)
  have "length (a # b # c # r) div 3 = Suc (length r div 3)"
    and "length (a # b # c # r) mod 3 = length r mod 3"
    by (simp_all add: div_nat_eqI)
  with 4 show ?case by simp
qed simp_all

lemma sextets_of_less: "\<forall>n \<in> set ns. n < 256 \<Longrightarrow> \<forall>n \<in> set (sextets_of ns). n < 64"
  by (induction ns rule: sextets_of.induct) auto

lemma ungroup_sextets: "\<forall>n \<in> set ns. n < 256 \<Longrightarrow> b64_ungroup (sextets_of ns) = ns"
  by (induction ns rule: sextets_of.induct) (auto simp: div_mult_mod_eq)

lemma all_some_sextets:
  "\<forall>n \<in> set xs. n < 64 \<Longrightarrow> all_some (map b64_val (map b64_char xs)) = Some xs"
  by (induction xs) (simp_all add: b64_val_char)

lemma sextets_alphabet:
  assumes "\<forall>n \<in> set ns. n < 256" and "u \<in> set (map b64_char (sextets_of ns))"
  shows "b64_alphabet u"
  using assms sextets_of_less [of ns] by (auto intro: b64_alphabet_char)

lemma btoa_binary: "btoa (binary_string b) = Inr (b64_groups (map unat b))"
proof -
  have "list_all (\<lambda>u. unat u < 256) (binary_string b)"
    by (auto simp: binary_string_def list_all_iff unat_byte_less)
  moreover have "map unat (binary_string b) = map unat b"
    by (simp add: binary_string_def)
  ultimately show ?thesis by (simp add: btoa_def)
qed

lemma bytesToB64_eq: "bytesToB64 b = b64_groups (map unat b)"
  by (simp add: bytesToB64_def btoa_binary)

lemma map_unat_less: "\<forall>n \<in> set (map unat (b :: bytes)). n < 256"
  by (auto simp: unat_byte_less)

text \<open>Padding is recognised and removed; text without padding is left alone.\<close>

lemma strip_padding_padded:
  assumes "\<forall>u \<in> set s. u \<noteq> 61" and "k \<le> 2" and "(length s + k) mod 4 = 0"
  shows "strip_padding (s @ replicate k 61) = s"
proof -
  consider "k = 0" | "k = 1" | "k = 2"
    using assms(2) by linarith
  then show ?thesis
  proof cases
    case 1
    have "\<not> suffix [61] s" and "\<not> suffix [61, 61] s"
      using assms(1) by (auto simp: suffix_def)
    with 1 show ?thesis by (simp add: strip_padding_def)
  next
    case 2
    have "\<not> suffix [61, 61] (s @ [61])"
    proof
      assume "suffix [61, 61] (s @ [61])"
      then obtain t where "s @ [61] = t @ [61, 61]" by (auto simp: suffix_def)
      then have "s = t @ [61]" by simp
      with assms(1) show False by simp
    qed
    with 2 assms(3) show ?thesis by (simp add: strip_padding_def)
  next
    case 3
    have "suffix [61, 61] (s @ [61, 61])" by (rule suffixI) (rule refl)
    with 3 assms(3) show ?thesis by (simp add: strip_padding_def numeral_2_eq_2)
  qed
qed

lemma atob_core:
  assumes "\<forall>n \<in> set ns. n < 256" and "k \<le> 2" and "(length (sextets_of ns) + k) mod 4 = 0"
  shows "atob (map b64_char (sextets_of ns) @ replicate k 61) = Inr (map of_nat ns)"
proof -
  let ?s = "map b64_char (sextets_of ns)"
  have al: "\<forall>u \<in> set ?s. b64_alphabet u"
    using sextets_alphabet [OF assms(1)] by blast
  then have "filter (\<lambda>u. \<not> ascii_whitespace u) ?s = ?s"
    by (auto simp: filter_id_conv dest: b64_alphabet_facts)
  moreover have "filter (\<lambda>u. \<not> ascii_whitespace u) (replicate k 61) = replicate k (61 :: u16)"
    by (simp add: ascii_whitespace_def)
  ultimately have "strip_padding (filter (\<lambda>u. \<not> ascii_whitespace u) (?s @ replicate k 61)) = ?s"
    using al assms(2,3) by (simp add: strip_padding_padded b64_alphabet_facts(1) del: map_map)
  moreover have "length ?s mod 4 \<noteq> 1"
    using assms(2,3) by (simp, presburger)
  moreover have "all_some (map b64_val ?s) = Some (sextets_of ns)"
    by (rule all_some_sextets) (rule sextets_of_less [OF assms(1)])
  ultimately show ?thesis
    by (simp add: atob_def Let_def ungroup_sextets [OF assms(1)] del: map_map)
qed

lemma b64_padding_fits: "(length (sextets_of ns) + b64_padding (length ns)) mod 4 = 0"
proof -
  have "length ns mod 3 = 0 \<or> length ns mod 3 = 1 \<or> length ns mod 3 = 2" by linarith
  then show ?thesis by (auto simp: length_sextets_of b64_padding_def mod_simps)
qed

lemma b64_roundtrip: "b64ToBytes (bytesToB64 b) = Inr b"
proof -
  have "b64_padding (length (map unat b)) \<le> 2"
    by (auto simp: b64_padding_def)
  then have "atob (b64_groups (map unat b)) = Inr (map of_nat (map unat b))"
    unfolding b64_groups_sextets by (intro atob_core map_unat_less b64_padding_fits)
  then show ?thesis
    by (simp add: b64ToBytes_def bytesToB64_eq comp_def ucast_unit_of_byte)
qed

interpretation base64: codec bytesToB64 "\<lambda>s. case b64ToBytes s of Inr b \<Rightarrow> Some b | Inl _ \<Rightarrow> None" "\<lambda>_. True"
  by unfold_locales (simp add: b64_roundtrip)

section \<open>The URL-safe alphabet\<close>

lemma replace_all_simps [simp]:
  "replace_all a b [] = []"
  "replace_all a b (u # s) = (if u = a then b else u) # replace_all a b s"
  "replace_all a b (s @ t) = replace_all a b s @ replace_all a b t"
  "length (replace_all a b s) = length s"
  by (simp_all add: replace_all_def)

lemma replace_all_absent: "a \<notin> set s \<Longrightarrow> replace_all a b s = s"
  by (induction s) auto

lemma replace_all_back:
  "b \<notin> set s \<Longrightarrow> replace_all b a (replace_all a b s) = s"
  by (induction s) auto

lemma set_replace_all: "set (replace_all a b s) \<subseteq> insert b (set s - {a})"
  by (induction s) auto

text \<open>\<open>url_text s\<close>: only letters, digits, \<open>-\<close> and \<open>_\<close>.\<close>

definition url_unit :: "u16 \<Rightarrow> bool" where
  "url_unit u \<longleftrightarrow> u = 45 \<or> u = 95 \<or> (b64_alphabet u \<and> u \<noteq> 43 \<and> u \<noteq> 47)"

definition url_text :: "jsstr \<Rightarrow> bool" where
  "url_text s \<longleftrightarrow> list_all url_unit s"

lemma url_text_core:
  assumes "\<forall>u \<in> set s. b64_alphabet u"
  shows "url_text (replace_all 47 95 (replace_all 43 45 s))"
  using assms by (induction s) (auto simp: url_text_def url_unit_def)

lemma url_unit_facts: "url_unit u \<Longrightarrow> u \<noteq> 61 \<and> u \<noteq> 43 \<and> u \<noteq> 47 \<and> unat u < 128"
  by (auto simp: url_unit_def dest: b64_alphabet_facts)

lemma b64ToB64url_padded:
  assumes "\<forall>u \<in> set s. b64_alphabet u"
  shows "b64ToB64url (s @ replicate k 61) = replace_all 47 95 (replace_all 43 45 s)"
proof -
  let ?t = "replace_all 47 95 (replace_all 43 45 s)"
  have "\<forall>u \<in> set ?t. u \<noteq> 61"
    using url_text_core [OF assms] url_unit_facts by (auto simp: url_text_def list_all_iff)
  then have "dropWhile (\<lambda>u. u = 61) (rev ?t) = rev ?t"
    by (subst dropWhile_eq_self_iff) (auto simp: hd_rev)
  moreover have "replace_all 47 95 (replace_all 43 45 (replicate k 61)) = replicate k 61"
    by (simp add: replace_all_absent)
  moreover have "dropWhile (\<lambda>u. u = 61) (replicate k 61 @ rev ?t) = dropWhile (\<lambda>u. u = 61) (rev ?t)"
    by (rule dropWhile_append2) simp
  ultimately show ?thesis
    by (simp add: b64ToB64url_def)
qed

lemma b64urlToB64_core:
  assumes "\<forall>u \<in> set s. b64_alphabet u"
  shows "b64urlToB64 (replace_all 47 95 (replace_all 43 45 s)) =
    s @ (if length s mod 4 = 0 then [] else replicate (4 - length s mod 4) 61)"
proof -
  let ?u = "replace_all 43 45 s" and ?t = "replace_all 47 95 (replace_all 43 45 s)"
  have no: "45 \<notin> set s" "95 \<notin> set s"
    using assms b64_alphabet_facts by blast+
  have "95 \<notin> set ?u"
    using no set_replace_all [of 43 45 s] by auto
  have "replace_all 95 47 (replace_all 45 43 ?t) = s"
    using no by (induction s) auto
  then show ?thesis
    by (simp add: b64urlToB64_def Let_def)
qed

definition b64_sextet_text :: "bytes \<Rightarrow> jsstr" where
  "b64_sextet_text b = map b64_char (sextets_of (map unat b))"

lemma b64_sextet_text_alphabet: "\<forall>u \<in> set (b64_sextet_text b). b64_alphabet u"
  unfolding b64_sextet_text_def using sextets_alphabet [OF map_unat_less] by blast

lemma bytesToB64url_eq:
  "bytesToB64url b = replace_all 47 95 (replace_all 43 45 (b64_sextet_text b))"
  unfolding bytesToB64url_def bytesToB64_eq b64_groups_sextets
  by (simp add: b64ToB64url_padded b64_sextet_text_alphabet flip: b64_sextet_text_def)

lemma sextet_text_padding:
  "(if length (b64_sextet_text b) mod 4 = 0 then [] else replicate (4 - length (b64_sextet_text b) mod 4) 61)
    = replicate (b64_padding (length b)) (61 :: u16)"
proof -
  let ?n = "length b"
  have len: "length (b64_sextet_text b) =
      4 * (?n div 3) + (if ?n mod 3 = 0 then 0 else ?n mod 3 + 1)"
    by (simp add: b64_sextet_text_def length_sextets_of)
  have "?n mod 3 = 0 \<or> ?n mod 3 = 1 \<or> ?n mod 3 = 2" by linarith
  then show ?thesis
    by (elim disjE) (simp_all add: len b64_padding_def mod_Suc)
qed

lemma b64url_roundtrip: "b64urlToBytes (bytesToB64url b) = Inr b"
proof -
  have "b64urlToB64 (bytesToB64url b) = bytesToB64 b"
    unfolding bytesToB64url_eq b64urlToB64_core [OF b64_sextet_text_alphabet] sextet_text_padding
    by (simp add: bytesToB64_eq b64_groups_sextets b64_sextet_text_def)
  then show ?thesis
    by (simp add: b64urlToBytes_def b64_roundtrip)
qed

interpretation base64url: codec bytesToB64url
    "\<lambda>s. case b64urlToBytes s of Inr b \<Rightarrow> Some b | Inl _ \<Rightarrow> None" "\<lambda>_. True"
  by unfold_locales (simp add: b64url_roundtrip)

lemma bytesToB64url_url_text: "url_text (bytesToB64url b)"
  unfolding bytesToB64url_eq by (rule url_text_core) (rule b64_sextet_text_alphabet)

lemma bytesToB64url_ascii: "ascii (bytesToB64url b)"
  using bytesToB64url_url_text [of b] url_unit_facts
  by (auto simp: url_text_def list_all_iff ascii_def)

lemma bytesToB64_ascii: "ascii (bytesToB64 b)"
proof -
  have "\<forall>u \<in> set (b64_sextet_text b). unat u < 128"
    using b64_sextet_text_alphabet b64_alphabet_facts(3) by blast
  then show ?thesis
    by (auto simp: bytesToB64_eq b64_groups_sextets ascii_def b64_sextet_text_def)
qed

text \<open>The two layers below \<open>sealUnderKe\<close> and \<open>sealRoomKey\<close>: base64url text as UTF-8.\<close>

interpretation b64url_utf8: codec_stack bytesToB64url
    "\<lambda>s. case b64urlToBytes s of Inr b \<Rightarrow> Some b | Inl _ \<Rightarrow> None" "\<lambda>_. True"
    text_encode "\<lambda>b. Some (text_decode b)" plain_text
  by unfold_locales (simp add: ascii_plain_text bytesToB64url_ascii)

end
