(* ===== verification/Primitives.thy ===== *)
theory Primitives
  imports Prelude
begin

text \<open>
  The third-party code the client calls (the packages \<open>@noble/ciphers\<close>, \<open>@noble/hashes\<close> and
  \<open>@noble/curves\<close>, the Unicode tables behind \<open>normalize\<close>) and the platform's random source are
  parameters of the model: one record, passed to every definition that uses them. A call that may
  throw returns \<open>None\<close>. Laws the client relies on are the predicates below; a property that
  needs one has it as a hypothesis, and \<open>toy\<close> at the end shows that they can hold together.
\<close>

record 'p prims =
  aead_encrypt :: "bytes \<Rightarrow> bytes \<Rightarrow> bytes \<Rightarrow> bytes"
    \<comment> \<open>\<open>xchacha20poly1305(key, nonce).encrypt(pt)\<close>\<close>
  aead_decrypt :: "bytes \<Rightarrow> bytes \<Rightarrow> bytes \<Rightarrow> bytes option"
    \<comment> \<open>\<open>xchacha20poly1305(key, nonce).decrypt(ct)\<close>, throws on a bad tag\<close>
  hkdf_sha256 :: "bytes \<Rightarrow> bytes \<Rightarrow> bytes \<Rightarrow> nat \<Rightarrow> bytes"
    \<comment> \<open>\<open>hkdf(sha256, ikm, salt, info, length)\<close>\<close>
  sha256 :: "bytes \<Rightarrow> bytes"
  hmac_sha256 :: "bytes \<Rightarrow> bytes \<Rightarrow> bytes"
    \<comment> \<open>\<open>hmac(sha256, key, message)\<close>\<close>
  scrypt :: "bytes \<Rightarrow> bytes \<Rightarrow> nat \<Rightarrow> nat \<Rightarrow> nat \<Rightarrow> nat \<Rightarrow> bytes"
    \<comment> \<open>\<open>scrypt(pw, salt, {N, r, p, dkLen})\<close>\<close>
  x25519_public :: "bytes \<Rightarrow> bytes"
  x25519_shared :: "bytes \<Rightarrow> bytes \<Rightarrow> bytes option"
    \<comment> \<open>\<open>getSharedSecret(priv, pub)\<close>, throws on an invalid public key\<close>
  nfkc :: "jsstr \<Rightarrow> jsstr"
  point_base :: 'p
  point_zero :: 'p
  point_add :: "'p \<Rightarrow> 'p \<Rightarrow> 'p"
  point_subtract :: "'p \<Rightarrow> 'p \<Rightarrow> 'p"
  point_multiply :: "'p \<Rightarrow> nat \<Rightarrow> 'p option"
    \<comment> \<open>throws on a scalar outside \<open>[1, order)\<close>\<close>
  point_to_bytes :: "'p \<Rightarrow> bytes option"
    \<comment> \<open>\<open>toBytes(false)\<close>, throws on the point at infinity\<close>
  point_from_bytes :: "bytes \<Rightarrow> 'p option"
    \<comment> \<open>\<open>fromBytes\<close> and \<open>assertValidity\<close>, throw on a point off the curve\<close>
  point_from_hex :: "jsstr \<Rightarrow> 'p"
  curve_order :: nat
  random_byte :: "nat \<Rightarrow> byte"
    \<comment> \<open>the bytes \<open>crypto.getRandomValues\<close> hands out, in order\<close>

text \<open>\<open>getRandomValues(new Uint8Array(n))\<close>: the next \<open>n\<close> random bytes and the new position.\<close>

definition random_bytes :: "'p prims \<Rightarrow> nat \<Rightarrow> nat \<Rightarrow> bytes \<times> nat" where
  "random_bytes P n pos = (map (random_byte P) [pos..<pos + n], pos + n)"

lemma random_bytes_simps [simp]:
  "length (fst (random_bytes P n pos)) = n"
  "snd (random_bytes P n pos) = pos + n"
  by (simp_all add: random_bytes_def)

section \<open>Laws\<close>

text \<open>The AEAD recovers what it sealed; its output is the plaintext's length plus the tag.\<close>

definition aead_ok :: "'p prims \<Rightarrow> bool" where
  "aead_ok P \<longleftrightarrow>
     (\<forall>k n pt. length k = 32 \<longrightarrow> length n = 24 \<longrightarrow>
        aead_decrypt P k n (aead_encrypt P k n pt) = Some pt
        \<and> length (aead_encrypt P k n pt) = length pt + 16)"

definition hkdf_ok :: "'p prims \<Rightarrow> bool" where
  "hkdf_ok P \<longleftrightarrow> (\<forall>ikm salt info n. length (hkdf_sha256 P ikm salt info n) = n)"

text \<open>Diffie-Hellman: honest key pairs agree, and the call does not throw on them.\<close>

definition x25519_ok :: "'p prims \<Rightarrow> bool" where
  "x25519_ok P \<longleftrightarrow>
     (\<forall>a b. length a = 32 \<longrightarrow> length b = 32 \<longrightarrow>
        (\<exists>s. x25519_shared P a (x25519_public P b) = Some s
           \<and> x25519_shared P b (x25519_public P a) = Some s))"

text \<open>
  The curve as an additive group: subtraction undoes addition, adding the point at infinity
  changes nothing, multiplication by a scalar in range is defined and does not depend on the
  order of two scalars, and a written point is read back.
\<close>

definition curve_ok :: "'p prims \<Rightarrow> bool" where
  "curve_ok P \<longleftrightarrow>
     1 < curve_order P
     \<and> (\<forall>p q. point_subtract P (point_add P q p) q = p)
     \<and> (\<forall>p. point_add P (point_zero P) p = p)
     \<and> (\<forall>p k. (0 < k \<and> k < curve_order P) = (\<exists>q. point_multiply P p k = Some q))
     \<and> (\<forall>p j k q r s t. point_multiply P p j = Some q \<longrightarrow> point_multiply P q k = Some r \<longrightarrow>
          point_multiply P p k = Some s \<longrightarrow> point_multiply P s j = Some t \<longrightarrow> r = t)
     \<and> (\<forall>p b. point_to_bytes P p = Some b \<longrightarrow> point_from_bytes P b = Some p)"

lemma curve_okD:
  assumes "curve_ok P"
  shows "1 < curve_order P"
    and "point_subtract P (point_add P q p) q = p"
    and "point_add P (point_zero P) p = p"
    and "0 < k \<Longrightarrow> k < curve_order P \<Longrightarrow> \<exists>q. point_multiply P p k = Some q"
    and "point_to_bytes P p = Some b \<Longrightarrow> point_from_bytes P b = Some p"
  using assms by (auto simp: curve_ok_def)

lemma curve_ok_commutes:
  assumes "curve_ok P" and "point_multiply P p j = Some q" and "point_multiply P q k = Some r"
    and "point_multiply P p k = Some s" and "point_multiply P s j = Some t"
  shows "r = t"
  using assms unfolding curve_ok_def by blast

lemma aead_okD:
  assumes "aead_ok P" and "length k = 32" and "length n = 24"
  shows "aead_decrypt P k n (aead_encrypt P k n pt) = Some pt"
    and "length (aead_encrypt P k n pt) = length pt + 16"
  using assms by (auto simp: aead_ok_def)

lemma hkdf_okD: "hkdf_ok P \<Longrightarrow> length (hkdf_sha256 P ikm salt info n) = n"
  by (simp add: hkdf_ok_def)

lemma x25519_okD:
  assumes "x25519_ok P" and "length a = 32" and "length b = 32"
  obtains s where "x25519_shared P a (x25519_public P b) = Some s"
    and "x25519_shared P b (x25519_public P a) = Some s"
  using assms unfolding x25519_ok_def by blast

section \<open>A concrete instance\<close>

text \<open>
  Functions simple enough to evaluate in the kernel, over which every law holds: a tag that is a
  part of the key, hashes that keep the tail of their input, a Diffie-Hellman exchange that adds
  the first bytes, and the integers modulo 8 as the group. It makes the hypotheses of the
  properties concrete; it is not a model of the real primitives.
\<close>

definition toy_pad :: "nat \<Rightarrow> bytes \<Rightarrow> bytes" where
  "toy_pad n b = take n b @ replicate (n - length b) 0"

lemma length_toy_pad [simp]: "length (toy_pad n b) = n"
  by (simp add: toy_pad_def)

definition toy :: "3 word prims" where
  "toy = \<lparr>
     aead_encrypt = (\<lambda>k n pt. pt @ take 16 k),
     aead_decrypt = (\<lambda>k n ct.
        if drop (length ct - 16) ct = take 16 k then Some (take (length ct - 16) ct) else None),
     hkdf_sha256 = (\<lambda>ikm salt info n. toy_pad n ikm),
     sha256 = (\<lambda>m. toy_pad 32 (rev m)),
     hmac_sha256 = (\<lambda>k m. toy_pad 32 (k @ rev m)),
     scrypt = (\<lambda>pw salt n r p len. rev (toy_pad len pw)),
     x25519_public = (\<lambda>priv. priv),
     x25519_shared = (\<lambda>priv pub. if length pub = 32 then Some (toy_pad 32 [hd priv + hd pub]) else None),
     nfkc = (\<lambda>s. s),
     point_base = 1,
     point_zero = 0,
     point_add = (\<lambda>p q. p + q),
     point_subtract = (\<lambda>p q. p - q),
     point_multiply = (\<lambda>p k. if 0 < k \<and> k < 8 then Some (p * of_nat k) else None),
     point_to_bytes = (\<lambda>p. if p = 0 then None else Some [4, of_nat (unat p)]),
     point_from_bytes = (\<lambda>b. case b of
          [c, d] \<Rightarrow> if c = 4 \<and> 0 < unat d \<and> unat d < 8 then Some (of_nat (unat d)) else None
        | _ \<Rightarrow> None),
     point_from_hex = (\<lambda>h. of_nat (unat (h ! 1))),
     curve_order = 8,
     random_byte = (\<lambda>i. of_nat (i + 1))\<rparr>"

lemma toy_aead_ok: "aead_ok toy"
  by (simp add: aead_ok_def toy_def)

lemma toy_hkdf_ok: "hkdf_ok toy"
  by (simp add: hkdf_ok_def toy_def)

lemma toy_x25519_ok: "x25519_ok toy"
  by (simp add: x25519_ok_def toy_def add.commute)

lemma toy_curve_ok: "curve_ok toy"
proof -
  have small: "unat (p :: 3 word) < 8" for p
    using unsigned_less [of p] by simp
  have id: "unat (of_nat (unat p) :: byte) = unat p" for p :: "3 word"
    using small [of p] by (intro unat_of_nat_byte) simp
  then have "(of_nat (unat p) :: byte) = 0 \<longleftrightarrow> p = 0" for p :: "3 word"
    by (metis unat_eq_zero unsigned_0)
  with small id show ?thesis
    by (auto simp: curve_ok_def toy_def ac_simps unat_gt_0 split: if_splits)
qed

end
