(* ===== verification/Crypto.thy ===== *)
theory Crypto
  imports Base64 Primitives
begin

text \<open>
  web/src/crypto.ts: the message envelope, the key-epoch tag, the key pairs and the sealing of
  public keys (under the handshake secret) and of room keys (under a pairwise secret). Each
  function that draws random bytes takes the position in the random source and returns the new
  one; each that may throw returns a sum.
\<close>

section \<open>Definitions\<close>

definition VERSION :: byte where "VERSION = 1"
definition KEY_LEN :: nat where "KEY_LEN = 32"
definition NONCE_LEN :: nat where "NONCE_LEN = 24"
definition TAG_LEN :: nat where "TAG_LEN = 16"

definition generateRoomKey :: "'p prims \<Rightarrow> nat \<Rightarrow> bytes \<times> nat" where
  "generateRoomKey P pos = random_bytes P KEY_LEN pos"

text \<open>\<open>key.fill(0)\<close>; the client's store applies it to the array a reference names.\<close>

definition wiped :: "bytes \<Rightarrow> bytes" where
  "wiped key = replicate (length key) 0"

definition sealBytes :: "'p prims \<Rightarrow> bytes \<Rightarrow> bytes \<Rightarrow> nat \<Rightarrow> jsstr \<times> nat" where
  "sealBytes P key pt pos =
     (let (nonce, pos') = random_bytes P NONCE_LEN pos;
          ct = aead_encrypt P key nonce pt
      in (bytesToB64 ([VERSION] @ nonce @ ct), pos'))"

definition openBytes :: "'p prims \<Rightarrow> bytes \<Rightarrow> jsstr \<Rightarrow> exn + bytes" where
  "openBytes P key envelope =
     bind_result (b64ToBytes envelope) (\<lambda>buf.
       if length buf < 1 + NONCE_LEN + TAG_LEN then Inl (MessageError ''ciphertext too short'')
       else if buf ! 0 \<noteq> VERSION then Inl (MessageError ''unsupported envelope version'')
       else
         (let nonce = take NONCE_LEN (drop 1 buf); ct = drop (1 + NONCE_LEN) buf in
          case aead_decrypt P key nonce ct of None \<Rightarrow> Inl CryptoError | Some pt \<Rightarrow> Inr pt))"

definition encryptMessage :: "'p prims \<Rightarrow> bytes \<Rightarrow> jsstr \<Rightarrow> nat \<Rightarrow> jsstr \<times> nat" where
  "encryptMessage P key plaintext pos = sealBytes P key (text_encode plaintext) pos"

definition decryptMessage :: "'p prims \<Rightarrow> bytes \<Rightarrow> jsstr \<Rightarrow> exn + jsstr" where
  "decryptMessage P key envelope =
     bind_result (openBytes P key envelope) (\<lambda>pt. Inr (text_decode pt))"

definition KEYX_INFO :: bytes where "KEYX_INFO = text_encode (js ''anonchat-keyx-v1'')"
definition REKEY_INFO :: bytes where "REKEY_INFO = text_encode (js ''anonchat-rekey-v1'')"
definition KEYID_INFO :: bytes where "KEYID_INFO = text_encode (js ''anonchat-keyid-v1'')"

definition keyId :: "'p prims \<Rightarrow> bytes \<Rightarrow> jsstr" where
  "keyId P key = bytesToB64url (hkdf_sha256 P key [] KEYID_INFO 8)"

record key_pair =
  kp_pub :: bytes
  kp_priv :: bytes

definition generateKeyPair :: "'p prims \<Rightarrow> nat \<Rightarrow> key_pair \<times> nat" where
  "generateKeyPair P pos =
     (let (priv, pos') = random_bytes P 32 pos in
      (\<lparr>kp_pub = x25519_public P priv, kp_priv = priv\<rparr>, pos'))"

definition sealUnderKe :: "'p prims \<Rightarrow> bytes \<Rightarrow> bytes \<Rightarrow> nat \<Rightarrow> jsstr \<times> nat" where
  "sealUnderKe P ke b pos =
     encryptMessage P (hkdf_sha256 P ke [] KEYX_INFO KEY_LEN) (bytesToB64url b) pos"

definition openUnderKe :: "'p prims \<Rightarrow> bytes \<Rightarrow> jsstr \<Rightarrow> exn + bytes" where
  "openUnderKe P ke env =
     bind_result (decryptMessage P (hkdf_sha256 P ke [] KEYX_INFO KEY_LEN) env) b64urlToBytes"

definition pairKey :: "'p prims \<Rightarrow> bytes \<Rightarrow> bytes \<Rightarrow> exn + bytes" where
  "pairKey P myPriv theirPub =
     (case x25519_shared P myPriv theirPub of
        None \<Rightarrow> Inl CryptoError
      | Some shared \<Rightarrow> Inr (hkdf_sha256 P shared [] REKEY_INFO KEY_LEN))"

definition keyToString :: "bytes \<Rightarrow> jsstr" where
  "keyToString key = b64ToB64url (bytesToB64 key)"

definition keyFromString :: "jsstr \<Rightarrow> exn + bytes" where
  "keyFromString s =
     bind_result (b64ToBytes (b64urlToB64 s)) (\<lambda>k.
       if length k \<noteq> KEY_LEN then Inl (MessageError ''invalid room key length'') else Inr k)"

definition sealRoomKey ::
    "'p prims \<Rightarrow> bytes \<Rightarrow> bytes \<Rightarrow> bytes \<Rightarrow> nat \<Rightarrow> exn + (jsstr \<times> nat)" where
  "sealRoomKey P myPriv theirPub roomKey pos =
     bind_result (pairKey P myPriv theirPub) (\<lambda>k.
       Inr (encryptMessage P k (keyToString roomKey) pos))"

definition openRoomKey :: "'p prims \<Rightarrow> bytes \<Rightarrow> bytes \<Rightarrow> jsstr \<Rightarrow> exn + bytes" where
  "openRoomKey P myPriv theirPub env =
     bind_result (pairKey P myPriv theirPub) (\<lambda>k.
       bind_result (decryptMessage P k env) keyFromString)"

section \<open>The interface of a sealed channel\<close>

text \<open>
  What the rest of the client relies on: sealing under a key and opening under the same key
  gives the value back, and opening never looks at the random source.
\<close>

locale sealed_channel =
  fixes seal :: "'k \<Rightarrow> 'a \<Rightarrow> nat \<Rightarrow> jsstr \<times> nat"
    and unseal :: "'k \<Rightarrow> jsstr \<Rightarrow> exn + 'a"
    and key_ok :: "'k \<Rightarrow> bool"
    and msg_ok :: "'a \<Rightarrow> bool"
  assumes unseal_seal: "key_ok k \<Longrightarrow> msg_ok m \<Longrightarrow> unseal k (fst (seal k m pos)) = Inr m"
begin

lemma seal_inject:
  assumes "key_ok k" "msg_ok m" "msg_ok m'" "fst (seal k m pos) = fst (seal k m' pos')"
  shows "m = m'"
proof -
  have "Inr m = unseal k (fst (seal k m pos))"
    using assms(1,2) by (simp add: unseal_seal)
  also have "\<dots> = Inr m'"
    using assms(1,3,4) by (simp add: unseal_seal)
  finally show ?thesis by simp
qed

lemma seal_read_by:
  "key_ok k \<Longrightarrow> msg_ok m \<Longrightarrow> seal k m pos = (env, pos') \<Longrightarrow> unseal k env = Inr m"
  using unseal_seal [of k m pos] by simp

end

section \<open>The envelope\<close>

lemma seal_layout:
  "fst (sealBytes P key pt pos) =
    bytesToB64 (VERSION # fst (random_bytes P NONCE_LEN pos)
      @ aead_encrypt P key (fst (random_bytes P NONCE_LEN pos)) pt)"
  by (simp add: sealBytes_def split_beta)

lemma seal_position [simp]:
  "snd (sealBytes P key pt pos) = pos + NONCE_LEN"
  "snd (encryptMessage P key s pos) = pos + NONCE_LEN"
  "snd (sealUnderKe P ke b pos) = pos + NONCE_LEN"
  by (simp_all add: encryptMessage_def sealUnderKe_def sealBytes_def split_beta)

lemma openBytes_layout:
  assumes "length nonce = NONCE_LEN" and "TAG_LEN \<le> length ct"
  shows "openBytes P key (bytesToB64 (v # nonce @ ct)) =
    (if v \<noteq> VERSION then Inl (MessageError ''unsupported envelope version'')
     else case aead_decrypt P key nonce ct of None \<Rightarrow> Inl CryptoError | Some pt \<Rightarrow> Inr pt)"
  using assms by (simp add: openBytes_def b64_roundtrip Let_def)

lemma openBytes_too_short:
  "length buf < 1 + NONCE_LEN + TAG_LEN \<Longrightarrow>
    openBytes P key (bytesToB64 buf) = Inl (MessageError ''ciphertext too short'')"
  by (simp add: openBytes_def b64_roundtrip)

lemma open_seal_bytes:
  assumes "aead_ok P" and "length key = KEY_LEN"
  shows "openBytes P key (fst (sealBytes P key pt pos)) = Inr pt"
proof -
  let ?n = "fst (random_bytes P NONCE_LEN pos)"
  have "length ?n = NONCE_LEN" by simp
  then have "TAG_LEN \<le> length (aead_encrypt P key ?n pt)"
    and "aead_decrypt P key ?n (aead_encrypt P key ?n pt) = Some pt"
    using aead_okD [OF assms(1), of key ?n pt] assms(2)
    by (simp_all add: TAG_LEN_def KEY_LEN_def NONCE_LEN_def)
  then show ?thesis
    by (simp add: seal_layout openBytes_layout del: append_Cons)
qed

interpretation byte_channel: sealed_channel
    "\<lambda>(P, key). sealBytes P key" "\<lambda>(P, key). openBytes P key"
    "\<lambda>(P, key). aead_ok P \<and> length key = KEY_LEN" "\<lambda>_. True"
  by unfold_locales (auto simp: open_seal_bytes)

interpretation message_channel: sealed_channel
    "\<lambda>(P, key). encryptMessage P key" "\<lambda>(P, key). decryptMessage P key"
    "\<lambda>(P, key). aead_ok P \<and> length key = KEY_LEN" plain_text
  by unfold_locales
    (auto simp: encryptMessage_def decryptMessage_def open_seal_bytes text_roundtrip)

lemmas decrypt_encrypt = message_channel.unseal_seal [of "(P, key)" for P key, simplified]

lemma b64url_plain_text: "plain_text (bytesToB64url b)"
  by (rule ascii_plain_text) (rule bytesToB64url_ascii)

lemma open_seal_under_ke:
  assumes "aead_ok P" and "hkdf_ok P"
  shows "openUnderKe P ke (fst (sealUnderKe P ke b pos)) = Inr b"
proof -
  have "length (hkdf_sha256 P ke [] KEYX_INFO KEY_LEN) = KEY_LEN"
    by (rule hkdf_okD [OF assms(2)])
  then have "decryptMessage P (hkdf_sha256 P ke [] KEYX_INFO KEY_LEN)
      (fst (sealUnderKe P ke b pos)) = Inr (bytesToB64url b)"
    unfolding sealUnderKe_def using assms(1) b64url_plain_text by (intro decrypt_encrypt) simp_all
  then show ?thesis
    by (simp add: openUnderKe_def b64url_roundtrip)
qed

interpretation ke_channel: sealed_channel
    "\<lambda>(P, ke). sealUnderKe P ke" "\<lambda>(P, ke). openUnderKe P ke"
    "\<lambda>(P, ke). aead_ok P \<and> hkdf_ok P" "\<lambda>_. True"
  by unfold_locales (auto simp: open_seal_under_ke)

section \<open>Room keys\<close>

lemma keyToString_url: "keyToString key = bytesToB64url key"
  by (simp add: keyToString_def bytesToB64url_def)

lemma key_string_roundtrip:
  assumes "length key = KEY_LEN"
  shows "keyFromString (keyToString key) = Inr key"
proof -
  have "b64ToBytes (b64urlToB64 (keyToString key)) = Inr key"
    unfolding keyToString_url by (fold b64urlToBytes_def) (rule b64url_roundtrip)
  with assms show ?thesis by (simp add: keyFromString_def)
qed

lemma keyFromString_length: "keyFromString s = Inr k \<Longrightarrow> length k = KEY_LEN"
  by (auto simp: keyFromString_def bind_result_eq_Inr split: if_splits)

lemma pairKey_agrees:
  assumes "x25519_ok P" and "length a = 32" and "length b = 32"
  obtains k where "pairKey P a (x25519_public P b) = Inr k" and "pairKey P b (x25519_public P a) = Inr k"
proof -
  obtain s where "x25519_shared P a (x25519_public P b) = Some s"
    and "x25519_shared P b (x25519_public P a) = Some s"
    using x25519_okD [OF assms] .
  then show thesis by (intro that) (simp_all add: pairKey_def)
qed

lemma pairKey_length: "hkdf_ok P \<Longrightarrow> pairKey P a b = Inr k \<Longrightarrow> length k = KEY_LEN"
  by (auto simp: pairKey_def hkdf_okD split: option.splits)

lemma open_seal_room_key:
  assumes "aead_ok P" "hkdf_ok P" "x25519_ok P"
    and "length a = 32" "length b = 32" "length key = KEY_LEN"
  shows "\<exists>env. sealRoomKey P a (x25519_public P b) key pos = Inr (env, pos + NONCE_LEN)
    \<and> openRoomKey P b (x25519_public P a) env = Inr key"
proof -
  obtain k where k: "pairKey P a (x25519_public P b) = Inr k" "pairKey P b (x25519_public P a) = Inr k"
    using pairKey_agrees [OF assms(3-5)] .
  then have "length k = KEY_LEN"
    using pairKey_length assms(2) by blast
  then have "decryptMessage P k (fst (encryptMessage P k (keyToString key) pos)) = Inr (keyToString key)"
    using assms(1) by (simp add: decrypt_encrypt keyToString_url b64url_plain_text)
  moreover have "encryptMessage P k (keyToString key) pos =
      (fst (encryptMessage P k (keyToString key) pos), pos + NONCE_LEN)"
    by (simp add: prod_eq_iff)
  ultimately show ?thesis
    using k assms(6)
    by (auto simp: sealRoomKey_def openRoomKey_def key_string_roundtrip intro!: exI)
qed

lemma openRoomKey_length: "openRoomKey P a b env = Inr k \<Longrightarrow> length k = KEY_LEN"
  by (auto simp: openRoomKey_def bind_result_eq_Inr dest: keyFromString_length)

lemma sealRoomKey_position:
  "sealRoomKey P a b key pos = Inr (env, pos') \<Longrightarrow> pos' = pos + NONCE_LEN"
  by (auto simp: sealRoomKey_def bind_result_eq_Inr) (metis seal_position(2) snd_conv)

end
