(* ===== verification/Spake2.thy ===== *)
theory Spake2
  imports Crypto
begin

unbundle bit_operations_syntax

text \<open>
  web/src/spake2.ts: the SPAKE2 exchange (RFC 9382) over the curve, hash, HKDF and HMAC
  parameters. \<open>start\<close> and \<open>finish\<close> are the two flows; the helpers below them are the byte
  encodings of the transcript. A \<open>bigint\<close> here is a natural number, since every value is
  non-negative.
\<close>

section \<open>Byte helpers\<close>

text \<open>\<open>concat\<close> copies each part into a zeroed array at a running offset.\<close>

definition array_set :: "bytes \<Rightarrow> bytes \<Rightarrow> nat \<Rightarrow> bytes" where
  "array_set out p off = take off out @ p @ drop (off + length p) out"

fun concat_loop :: "bytes list \<Rightarrow> bytes \<Rightarrow> nat \<Rightarrow> bytes" where
  "concat_loop [] out off = out"
| "concat_loop (p # ps) out off = concat_loop ps (array_set out p off) (off + length p)"

definition concat_bytes :: "bytes list \<Rightarrow> bytes" where
  "concat_bytes parts =
     (let total = foldl (\<lambda>n p. n + length p) 0 parts in
      concat_loop parts (replicate total 0) 0)"

text \<open>The length loop of \<open>lv\<close>: the low byte first, then the rest shifted by a byte.\<close>

fun le_loop :: "nat \<Rightarrow> nat \<Rightarrow> bytes" where
  "le_loop 0 n = []"
| "le_loop (Suc i) n = of_nat (n mod 256) # le_loop i (n div 256)"

definition lv :: "bytes \<Rightarrow> bytes" where
  "lv b = concat_bytes [le_loop 8 (length b), b]"

definition bytesToBigBE :: "bytes \<Rightarrow> nat" where
  "bytesToBigBE b = foldl (\<lambda>n byte. n * 256 + unat byte) 0 b"

text \<open>The loop fills the array from its last index down; what is written so far is the tail.\<close>

fun be_loop :: "nat \<Rightarrow> nat \<Rightarrow> bytes \<Rightarrow> bytes" where
  "be_loop 0 n out = out"
| "be_loop (Suc i) n out = be_loop i (n div 256) (of_nat (n mod 256) # out)"

definition bigToBytesBE :: "nat \<Rightarrow> nat \<Rightarrow> bytes" where
  "bigToBytesBE n len = be_loop len n []"

definition timingSafeEqual :: "bytes \<Rightarrow> bytes \<Rightarrow> bool" where
  "timingSafeEqual a b =
     (if length a \<noteq> length b then False
      else foldl (\<lambda>diff (x, y). diff OR (x XOR y)) 0 (zip a b) = 0)"

section \<open>The exchange\<close>

definition SCALAR_BYTES :: nat where "SCALAR_BYTES = 32"

definition M_seed :: "'p prims \<Rightarrow> 'p" where
  "M_seed P = point_from_hex P
     (js ''02886e2f97ace46e55ba9dd7242579f2993b64e16ef3dcab95afd497333d8fa12f'')"

definition N_seed :: "'p prims \<Rightarrow> 'p" where
  "N_seed P = point_from_hex P
     (js ''03d8bbd6c639c62937b04d997f38c3770719c629d7014d49a24b4f98baa1292b49'')"

datatype role = RoleA | RoleB

record spake2_state =
  st_role :: role
  st_scalar :: nat
  st_w :: nat
  st_own :: bytes
  st_idA :: bytes
  st_idB :: bytes
  st_aad :: bytes

record spake2_result =
  res_ke :: bytes
  res_confirm :: bytes
  res_expected :: bytes \<comment> \<open>what the closure \<open>verifyPeer\<close> compares with\<close>
  res_transcript :: bytes
  res_ka :: bytes
  res_kcA :: bytes
  res_kcB :: bytes
  res_cA :: bytes
  res_cB :: bytes

definition verifyPeer :: "spake2_result \<Rightarrow> bytes \<Rightarrow> bool" where
  "verifyPeer r peerConfirm = timingSafeEqual peerConfirm (res_expected r)"

definition mul :: "'p prims \<Rightarrow> 'p \<Rightarrow> nat \<Rightarrow> 'p option" where
  "mul P point k = (if k = 0 then Some (point_zero P) else point_multiply P point k)"

definition randomScalar :: "'p prims \<Rightarrow> nat \<Rightarrow> nat \<times> nat" where
  "randomScalar P pos =
     (let (b, pos') = random_bytes P (SCALAR_BYTES + 16) pos;
          s = bytesToBigBE b mod curve_order P
      in (if s = 0 then 1 else s, pos'))"

definition lift_call :: "exn \<Rightarrow> 'a option \<Rightarrow> exn + 'a" where
  "lift_call e r = (case r of None \<Rightarrow> Inl e | Some a \<Rightarrow> Inr a)"

definition start ::
    "'p prims \<Rightarrow> role \<Rightarrow> nat \<Rightarrow> bytes \<Rightarrow> bytes \<Rightarrow> bytes \<Rightarrow> nat option \<Rightarrow> nat
      \<Rightarrow> exn + ((spake2_state \<times> bytes) \<times> nat)" where
  "start P r w idA idB aad scalarOverride pos =
     (let (scalar, pos') =
            (case scalarOverride of Some k \<Rightarrow> (k, pos) | None \<Rightarrow> randomScalar P pos);
          seed = (if r = RoleA then M_seed P else N_seed P)
      in bind_result (lift_call RangeErr (point_multiply P (point_base P) scalar)) (\<lambda>X.
         bind_result (lift_call RangeErr (mul P seed w)) (\<lambda>ws.
         bind_result (lift_call CryptoError (point_to_bytes P (point_add P ws X))) (\<lambda>message.
           Inr ((\<lparr>st_role = r, st_scalar = scalar, st_w = w, st_own = message,
                  st_idA = idA, st_idB = idB, st_aad = aad\<rparr>, message), pos')))))"

definition transcript_of ::
    "bytes \<Rightarrow> bytes \<Rightarrow> bytes \<Rightarrow> bytes \<Rightarrow> bytes \<Rightarrow> bytes \<Rightarrow> bytes" where
  "transcript_of idA idB pA pB kBytes wBytes =
     concat_bytes [lv idA, lv idB, lv pA, lv pB, lv kBytes, lv wBytes]"

text \<open>The key schedule and the confirmation MACs, from the transcript on.\<close>

definition key_schedule :: "'p prims \<Rightarrow> role \<Rightarrow> bytes \<Rightarrow> bytes \<Rightarrow> spake2_result" where
  "key_schedule P r aad TT =
     (let h = sha256 P TT;
          ke = take 16 h;
          ka = take 16 (drop 16 h);
          kc = hkdf_sha256 P ka [] (concat_bytes [text_encode (js ''ConfirmationKeys''), aad]) 32;
          kcA = take 16 kc;
          kcB = take 16 (drop 16 kc);
          cA = hmac_sha256 P kcA TT;
          cB = hmac_sha256 P kcB TT
      in \<lparr>res_ke = ke,
          res_confirm = (if r = RoleA then cA else cB),
          res_expected = (if r = RoleA then cB else cA),
          res_transcript = TT, res_ka = ka, res_kcA = kcA, res_kcB = kcB, res_cA = cA, res_cB = cB\<rparr>)"

definition finish :: "'p prims \<Rightarrow> spake2_state \<Rightarrow> bytes \<Rightarrow> exn + spake2_result" where
  "finish P s peerMessage =
     bind_result (lift_call CryptoError (point_from_bytes P peerMessage)) (\<lambda>peer.
       let peerSeed = (if st_role s = RoleA then N_seed P else M_seed P) in
       bind_result (lift_call RangeErr (mul P peerSeed (st_w s))) (\<lambda>ws.
       bind_result (lift_call RangeErr (point_multiply P (point_subtract P peer ws) (st_scalar s))) (\<lambda>K.
         let pA = (if st_role s = RoleA then st_own s else peerMessage);
             pB = (if st_role s = RoleA then peerMessage else st_own s);
             wBytes = bigToBytesBE (st_w s) SCALAR_BYTES
         in bind_result (lift_call CryptoError (point_to_bytes P K)) (\<lambda>kBytes.
              Inr (key_schedule P (st_role s) (st_aad s)
                     (transcript_of (st_idA s) (st_idB s) pA pB kBytes wBytes))))))"

definition deriveW :: "'p prims \<Rightarrow> jsstr \<Rightarrow> bytes \<Rightarrow> nat" where
  "deriveW P code salt =
     (let pw = text_encode (nfkc P code);
          out = scrypt P pw salt (2 ^ 14) 8 1 (SCALAR_BYTES + 16)
      in bytesToBigBE out mod curve_order P)"

section \<open>The helpers compute what their comments say\<close>

lemma foldl_length_sum: "foldl (\<lambda>n p. n + length p) a ps = a + length (concat ps)"
  by (induction ps arbitrary: a) auto

lemma concat_loop_eq:
  "length done + length (concat ps) = length (done @ rest) \<Longrightarrow>
    concat_loop ps (done @ rest) (length done) = done @ concat ps"
proof (induction ps arbitrary: "done" rest)
  case Nil
  then show ?case by simp
next
  case (Cons p ps)
  have "array_set (done @ rest) p (length done) = (done @ p) @ drop (length p) rest"
    by (simp add: array_set_def)
  moreover have "concat_loop ps ((done @ p) @ drop (length p) rest) (length (done @ p)) =
      (done @ p) @ concat ps"
    using Cons.prems by (intro Cons.IH) simp
  ultimately show ?case by simp
qed

lemma concat_bytes_eq: "concat_bytes ps = concat ps"
  using concat_loop_eq [of "[]" ps "replicate (length (concat ps)) 0"]
  by (simp add: concat_bytes_def foldl_length_sum)

lemma length_le_loop [simp]: "length (le_loop k n) = k"
  by (induction k arbitrary: n) auto

lemma le_loop_inject:
  "m < 256 ^ k \<Longrightarrow> n < 256 ^ k \<Longrightarrow> le_loop k m = le_loop k n \<Longrightarrow> m = n"
proof (induction k arbitrary: m n)
  case 0
  then show ?case by simp
next
  case (Suc k)
  have "unat (of_nat (m mod 256) :: byte) = unat (of_nat (n mod 256) :: byte)"
    using Suc.prems(3) by simp
  then have low: "m mod 256 = n mod 256"
    by (simp add: unat_of_nat_byte)
  have "m div 256 < 256 ^ k" and "n div 256 < 256 ^ k"
    using Suc.prems(1,2) by (simp_all add: div_less_iff_less_mult mult.commute)
  then have "m div 256 = n div 256"
    using Suc.prems(3) by (intro Suc.IH) simp_all
  with low show ?case
    by (metis div_mult_mod_eq)
qed

lemma lv_eq: "lv b = le_loop 8 (length b) @ b"
  by (simp add: lv_def concat_bytes_eq)

text \<open>Byte strings whose length fits the eight length bytes.\<close>

definition lv_fits :: "bytes \<Rightarrow> bool" where
  "lv_fits b \<longleftrightarrow> length b < 2 ^ 64"

interpretation lv: prefix_code lv lv_fits
proof unfold_locales
  fix x y r s :: bytes
  assume fits: "lv_fits x" "lv_fits y" and eq: "lv x @ r = lv y @ s"
  from eq have "le_loop 8 (length x) = le_loop 8 (length y)" and rest: "x @ r = y @ s"
    by (simp_all add: lv_eq)
  moreover have "(2::nat) ^ 64 = 256 ^ 8" by simp
  ultimately have "length x = length y"
    using fits unfolding lv_fits_def by (metis le_loop_inject)
  with rest show "x = y \<and> r = s" by simp
qed

lemma transcript_parts:
  "transcript_of idA idB pA pB k w = concat (map lv [idA, idB, pA, pB, k, w])"
  by (simp add: transcript_of_def concat_bytes_eq)

lemma transcript_inject:
  assumes "\<forall>x \<in> {idA, idB, pA, pB, k, w, idA', idB', pA', pB', k', w'}. lv_fits x"
    and "transcript_of idA idB pA pB k w = transcript_of idA' idB' pA' pB' k' w'"
  shows "idA = idA' \<and> idB = idB' \<and> pA = pA' \<and> pB = pB' \<and> k = k' \<and> w = w'"
proof -
  let ?xs = "[idA, idB, pA, pB, k, w]" and ?ys = "[idA', idB', pA', pB', k', w']"
  have "?xs = ?ys \<and> [] = ([] :: bytes)"
    using assms unfolding transcript_parts by (intro lv.concat_map_inject) auto
  then show ?thesis by simp
qed

lemma be_loop_append: "be_loop k n (xs @ ys) = be_loop k n xs @ ys"
  by (induction k arbitrary: n xs) (auto simp flip: append_Cons)

lemma bytesToBigBE_snoc: "bytesToBigBE (b @ [x]) = bytesToBigBE b * 256 + unat x"
  by (simp add: bytesToBigBE_def)

lemma bigToBytesBE_Suc:
  "bigToBytesBE n (Suc len) = bigToBytesBE (n div 256) len @ [of_nat (n mod 256)]"
  using be_loop_append [of len "n div 256" "[]" "[of_nat (n mod 256)]"]
  by (simp add: bigToBytesBE_def)

lemma length_bigToBytesBE [simp]: "length (bigToBytesBE n len) = len"
proof (induction len arbitrary: n)
  case 0
  then show ?case by (simp add: bigToBytesBE_def)
next
  case (Suc len)
  then show ?case by (simp only: bigToBytesBE_Suc length_append) simp
qed

lemma bytesToBigBE_bigToBytesBE: "bytesToBigBE (bigToBytesBE n len) = n mod 256 ^ len"
proof (induction len arbitrary: n)
  case 0
  then show ?case by (simp add: bigToBytesBE_def bytesToBigBE_def)
next
  case (Suc len)
  have "bytesToBigBE (bigToBytesBE n (Suc len)) = n div 256 mod 256 ^ len * 256 + n mod 256"
    using Suc by (simp add: bigToBytesBE_Suc bytesToBigBE_snoc unat_of_nat_byte)
  also have "\<dots> = n mod (256 * 256 ^ len)"
    by (simp add: mod_mult2_eq mult.commute)
  finally show ?case by simp
qed

interpretation big_endian: codec "\<lambda>n. bigToBytesBE n SCALAR_BYTES" "\<lambda>b. Some (bytesToBigBE b)"
    "\<lambda>n. n < 256 ^ SCALAR_BYTES"
  by unfold_locales (simp add: bytesToBigBE_bigToBytesBE)

lemma or_zero_iff: "(x :: byte) OR y = 0 \<longleftrightarrow> x = 0 \<and> y = 0"
  by (metis or.left_idem or.left_neutral or.right_neutral)

lemma xor_zero_iff: "(x :: byte) XOR y = 0 \<longleftrightarrow> x = y"
  by (metis xor.assoc xor.right_neutral xor_self_eq)

lemma diff_fold:
  "length (a :: bytes) = length b \<Longrightarrow>
    foldl (\<lambda>diff (x, y). diff OR (x XOR y)) d (zip a b) = 0 \<longleftrightarrow> d = 0 \<and> a = b"
proof (induction a b arbitrary: d rule: list_induct2)
  case Nil
  then show ?case by simp
next
  case (Cons x xs y ys)
  have "foldl (\<lambda>diff (x, y). diff OR (x XOR y)) d (zip (x # xs) (y # ys)) = 0
      \<longleftrightarrow> d OR (x XOR y) = 0 \<and> xs = ys"
    using Cons.IH [of "d OR (x XOR y)"] by (simp only: zip_Cons_Cons foldl_Cons prod.case)
  moreover have "d OR (x XOR y) = 0 \<longleftrightarrow> d = 0 \<and> x = y"
    unfolding or_zero_iff xor_zero_iff ..
  ultimately show ?case by blast
qed

lemma timingSafeEqual_eq: "timingSafeEqual a b \<longleftrightarrow> a = b"
  by (auto simp: timingSafeEqual_def diff_fold)

end
