(* ===== verification/Spake2Agreement.thy ===== *)
theory Spake2Agreement
  imports Spake2
begin

text \<open>
  What a SPAKE2 run achieves: the two roles with the same password scalar compute the same
  transcript, hence the same secret and each other's confirmation; with different scalars the
  transcripts differ, so accepting a confirmation exhibits an HMAC collision. The scalars drawn
  and derived are in the range the curve accepts.
\<close>

lemma lift_call_eq_Inr [simp]: "lift_call e r = Inr a \<longleftrightarrow> r = Some a"
  by (cases r) (simp_all add: lift_call_def)

lemma lift_call_Some [simp]: "lift_call e (Some a) = Inr a"
  by (simp add: lift_call_def)

lemma lift_call_None [simp]: "lift_call e None = Inl e"
  by (simp add: lift_call_def)

section \<open>Scalars\<close>

lemma randomScalar_range:
  assumes "curve_ok P"
  shows "0 < fst (randomScalar P pos) \<and> fst (randomScalar P pos) < curve_order P"
  using curve_okD(1) [OF assms] by (auto simp: randomScalar_def split_beta Let_def)

lemma deriveW_range: "0 < curve_order P \<Longrightarrow> deriveW P code salt < curve_order P"
  by (simp add: deriveW_def Let_def)

lemma mul_defined:
  assumes "curve_ok P" and "k < curve_order P"
  shows "\<exists>q. mul P p k = Some q"
  using curve_okD(4) [OF assms(1), of k p] assms(2) by (simp add: mul_def)

section \<open>The first flow\<close>

definition seed_of :: "'p prims \<Rightarrow> role \<Rightarrow> 'p" where
  "seed_of P r = (if r = RoleA then M_seed P else N_seed P)"

lemma start_eq_Inr:
  "start P r w idA idB aad ov pos = Inr ((s, m), pos') \<longleftrightarrow>
    (\<exists>k X ws. (k, pos') = (case ov of Some k \<Rightarrow> (k, pos) | None \<Rightarrow> randomScalar P pos)
      \<and> point_multiply P (point_base P) k = Some X \<and> mul P (seed_of P r) w = Some ws
      \<and> point_to_bytes P (point_add P ws X) = Some m
      \<and> s = \<lparr>st_role = r, st_scalar = k, st_w = w, st_own = m,
             st_idA = idA, st_idB = idB, st_aad = aad\<rparr>)"
proof (cases "case ov of Some k \<Rightarrow> (k, pos) | None \<Rightarrow> randomScalar P pos")
  case (Pair k0 p0)
  then show ?thesis
    by (auto simp: start_def seed_of_def bind_result_eq_Inr Let_def)
qed

lemma start_message:
  assumes "start P r w idA idB aad ov pos = Inr ((s, m), pos')"
  shows "st_own s = m" "st_role s = r" "st_w s = w" "st_idA s = idA" "st_idB s = idB" "st_aad s = aad"
  using assms by (auto simp: start_eq_Inr)

text \<open>With a scalar in range, \<open>start\<close> can only fail on the point at infinity.\<close>

lemma start_outcome:
  assumes "curve_ok P" and "w < curve_order P"
  shows "(\<exists>s m. start P r w idA idB aad None pos = Inr ((s, m), pos + SCALAR_BYTES + 16))
    \<or> start P r w idA idB aad None pos = Inl CryptoError"
proof -
  obtain k pos' where k: "randomScalar P pos = (k, pos')" by (cases "randomScalar P pos")
  then have pos': "pos' = pos + SCALAR_BYTES + 16"
    by (auto simp: randomScalar_def split_beta Let_def)
  have "0 < k \<and> k < curve_order P"
    using randomScalar_range [OF assms(1), of pos] k by simp
  then obtain X where X: "point_multiply P (point_base P) k = Some X"
    using curve_okD(4) [OF assms(1)] by blast
  obtain ws where ws: "mul P (seed_of P r) w = Some ws"
    using mul_defined [OF assms] by blast
  then show ?thesis
    using k X pos'
    by (cases "point_to_bytes P (point_add P ws X)")
      (simp_all add: start_def seed_of_def)
qed

section \<open>Agreement\<close>

lemma finish_on_peer:
  assumes ok: "curve_ok P" and st: "st_role s = r" "st_w s = w" "st_scalar s = x"
    and peer: "mul P (seed_of P (if r = RoleA then RoleB else RoleA)) w = Some ws"
      "point_to_bytes P (point_add P ws Y) = Some m"
    and K: "point_multiply P Y x = Some K"
  shows "finish P s m =
    bind_result (lift_call CryptoError (point_to_bytes P K)) (\<lambda>kBytes.
      Inr (key_schedule P r (st_aad s)
        (transcript_of (st_idA s) (st_idB s)
          (if r = RoleA then st_own s else m) (if r = RoleA then m else st_own s)
          kBytes (bigToBytesBE w SCALAR_BYTES))))"
proof -
  have "point_from_bytes P m = Some (point_add P ws Y)"
    using curve_okD(5) [OF ok peer(2)] .
  moreover have "mul P (if r = RoleA then N_seed P else M_seed P) w = Some ws"
    using peer(1) by (cases r) (simp_all add: seed_of_def)
  moreover have "point_subtract P (point_add P ws Y) ws = Y"
    by (rule curve_okD(2) [OF ok])
  ultimately show ?thesis
    using st K by (simp add: finish_def Let_def)
qed

text \<open>Both sides meet at the same group element and build the same transcript.\<close>

lemma finish_agrees:
  assumes ok: "curve_ok P"
    and A: "start P RoleA w idA idB aad ovA posA = Inr ((sA, mA), posA')"
    and B: "start P RoleB w idA idB aad ovB posB = Inr ((sB, mB), posB')"
  shows "(finish P sA mB = Inl CryptoError \<and> finish P sB mA = Inl CryptoError)
    \<or> (\<exists>TT. finish P sA mB = Inr (key_schedule P RoleA aad TT)
        \<and> finish P sB mA = Inr (key_schedule P RoleB aad TT))"
proof -
  from A obtain x X wsA where x: "point_multiply P (point_base P) x = Some X"
    "mul P (seed_of P RoleA) w = Some wsA" "point_to_bytes P (point_add P wsA X) = Some mA"
    and sA: "sA = \<lparr>st_role = RoleA, st_scalar = x, st_w = w, st_own = mA,
             st_idA = idA, st_idB = idB, st_aad = aad\<rparr>"
    by (auto simp: start_eq_Inr)
  from B obtain y Y wsB where y: "point_multiply P (point_base P) y = Some Y"
    "mul P (seed_of P RoleB) w = Some wsB" "point_to_bytes P (point_add P wsB Y) = Some mB"
    and sB: "sB = \<lparr>st_role = RoleB, st_scalar = y, st_w = w, st_own = mB,
             st_idA = idA, st_idB = idB, st_aad = aad\<rparr>"
    by (auto simp: start_eq_Inr)
  have range: "0 < x \<and> x < curve_order P" "0 < y \<and> y < curve_order P"
    using ok x(1) y(1) unfolding curve_ok_def by blast+
  obtain K K' where K: "point_multiply P Y x = Some K" and K': "point_multiply P X y = Some K'"
    using curve_okD(4) [OF ok] range by blast
  have "K = K'"
    using curve_ok_commutes [OF ok y(1) K x(1) K'] .
  have "finish P sA mB = bind_result (lift_call CryptoError (point_to_bytes P K)) (\<lambda>kBytes.
      Inr (key_schedule P RoleA aad (transcript_of idA idB mA mB kBytes (bigToBytesBE w SCALAR_BYTES))))"
    using finish_on_peer [OF ok, of sA RoleA w x wsB Y mB K] sA y K by simp
  moreover have "finish P sB mA = bind_result (lift_call CryptoError (point_to_bytes P K)) (\<lambda>kBytes.
      Inr (key_schedule P RoleB aad (transcript_of idA idB mA mB kBytes (bigToBytesBE w SCALAR_BYTES))))"
    using finish_on_peer [OF ok, of sB RoleB w y wsA X mA K'] sB x K' \<open>K = K'\<close> by simp
  ultimately show ?thesis
    by (cases "point_to_bytes P K") auto
qed

lemma key_schedule_agrees:
  "res_ke (key_schedule P RoleA aad TT) = res_ke (key_schedule P RoleB aad TT)"
  "verifyPeer (key_schedule P RoleA aad TT) (res_confirm (key_schedule P RoleB aad TT))"
  "verifyPeer (key_schedule P RoleB aad TT) (res_confirm (key_schedule P RoleA aad TT))"
  by (simp_all add: key_schedule_def Let_def verifyPeer_def timingSafeEqual_eq)

section \<open>Different codes\<close>

lemma transcript_w:
  assumes "transcript_of idA idB pA pB k w = transcript_of idA' idB' pA' pB' k' w'"
    and "length w = length w'"
  shows "w = w'"
proof -
  have "transcript_of idA idB pA pB k w = (concat (map lv [idA, idB, pA, pB, k]) @ le_loop 8 (length w)) @ w"
    and "transcript_of idA' idB' pA' pB' k' w' =
      (concat (map lv [idA', idB', pA', pB', k']) @ le_loop 8 (length w')) @ w'"
    by (simp_all add: transcript_parts lv_eq)
  with assms show ?thesis by (metis append_eq_append_conv)
qed

lemma finish_eq_Inr:
  assumes "finish P s m = Inr r"
  obtains kBytes where "r = key_schedule P (st_role s) (st_aad s)
      (transcript_of (st_idA s) (st_idB s)
        (if st_role s = RoleA then st_own s else m) (if st_role s = RoleA then m else st_own s)
        kBytes (bigToBytesBE (st_w s) SCALAR_BYTES))"
  using assms by (auto simp: finish_def bind_result_eq_Inr Let_def split: if_splits)

lemma res_transcript_key_schedule [simp]: "res_transcript (key_schedule P r aad TT) = TT"
  by (simp add: key_schedule_def Let_def)

lemma different_scalar_different_transcript:
  assumes "finish P s m = Inr r" and "finish P s' m' = Inr r'"
    and "st_w s < 256 ^ SCALAR_BYTES" and "st_w s' < 256 ^ SCALAR_BYTES" and "st_w s \<noteq> st_w s'"
  shows "res_transcript r \<noteq> res_transcript r'"
proof
  assume eq: "res_transcript r = res_transcript r'"
  obtain k where r: "r = key_schedule P (st_role s) (st_aad s)
      (transcript_of (st_idA s) (st_idB s)
        (if st_role s = RoleA then st_own s else m) (if st_role s = RoleA then m else st_own s)
        k (bigToBytesBE (st_w s) SCALAR_BYTES))"
    using finish_eq_Inr [OF assms(1)] by blast
  obtain k' where r': "r' = key_schedule P (st_role s') (st_aad s')
      (transcript_of (st_idA s') (st_idB s')
        (if st_role s' = RoleA then st_own s' else m') (if st_role s' = RoleA then m' else st_own s')
        k' (bigToBytesBE (st_w s') SCALAR_BYTES))"
    using finish_eq_Inr [OF assms(2)] by blast
  have "bigToBytesBE (st_w s) SCALAR_BYTES = bigToBytesBE (st_w s') SCALAR_BYTES"
    using eq unfolding r r' res_transcript_key_schedule by (rule transcript_w) simp
  with assms(3-5) show False
    by (simp add: big_endian.enc_inject)
qed

text \<open>The two keys \<open>KcA\<close>, \<open>KcB\<close> and the MACs of a result, by role.\<close>

lemma key_schedule_macs:
  "res_cA (key_schedule P r aad TT) = hmac_sha256 P (res_kcA (key_schedule P r aad TT)) TT"
  "res_cB (key_schedule P r aad TT) = hmac_sha256 P (res_kcB (key_schedule P r aad TT)) TT"
  "res_confirm (key_schedule P r aad TT) =
    (if r = RoleA then res_cA (key_schedule P r aad TT) else res_cB (key_schedule P r aad TT))"
  "res_expected (key_schedule P r aad TT) =
    (if r = RoleA then res_cB (key_schedule P r aad TT) else res_cA (key_schedule P r aad TT))"
  by (simp_all add: key_schedule_def Let_def)

end
