(* ===== verification/Json.thy ===== *)
theory Json
  imports Base64
begin

text \<open>
  \<open>JSON.stringify\<close> and \<open>JSON.parse\<close> on the values the client exchanges: every wire frame
  (\<open>send\<close>, \<open>onMessage\<close> of web/src/main.ts), the handshake payload (\<open>frame\<close>, \<open>onData\<close> of
  web/src/handshake.ts), the roster and the file metadata are JSON text.

  Numbers are exact: \<open>JNum\<close> is an integer, \<open>JDec m k\<close> the non-integer \<open>m / 10 ^ k\<close> (the rounding
  of a literal to a double is not modelled; it is exact for the integers below \<open>2 ^ 53\<close> the
  client uses). The client writes integers only, so the text of a \<open>JDec\<close> is never produced by
  it. Objects are association lists in insertion order; of a repeated key, the last value counts.
  The parser spends one unit of fuel per call; \<open>json_parse\<close> starts it with enough for every
  input (\<open>parse_value_enough\<close>), so that failing always means malformed text.
\<close>

datatype json =
    JNull
  | JBool bool
  | JNum int
  | JDec int nat
  | JStr jsstr
  | JArr "json list"
  | JObj "(jsstr \<times> json) list"

section \<open>JSON.stringify\<close>

fun nat_text :: "nat \<Rightarrow> jsstr" where
  "nat_text n = (if n < 10 then [of_nat (48 + n)] else nat_text (n div 10) @ [of_nat (48 + n mod 10)])"

declare nat_text.simps [simp del]

definition int_text :: "int \<Rightarrow> jsstr" where
  "int_text i = (if i < 0 then 45 # nat_text (nat (- i)) else nat_text (nat i))"

definition hex_digit :: "nat \<Rightarrow> u16" where
  "hex_digit n = (if n < 10 then of_nat (48 + n) else of_nat (87 + n))"

definition unicode_escape :: "u16 \<Rightarrow> jsstr" where
  "unicode_escape u =
     (let n = unat u in
      [92, 117, hex_digit (n div 4096), hex_digit (n div 256 mod 16),
       hex_digit (n div 16 mod 16), hex_digit (n mod 16)])"

definition quote_unit :: "u16 \<Rightarrow> jsstr" where
  "quote_unit u =
     (if u = 8 then [92, 98] else if u = 9 then [92, 116] else if u = 10 then [92, 110]
      else if u = 12 then [92, 102] else if u = 13 then [92, 114]
      else if u = 34 then [92, 34] else if u = 92 then [92, 92]
      else if unat u < 32 then unicode_escape u else [u])"

definition quote_single :: "u16 \<Rightarrow> jsstr" where
  "quote_single u =
     (if lead_surrogate (unat u) \<or> trail_surrogate (unat u) then unicode_escape u else quote_unit u)"

fun quote_units :: "jsstr \<Rightarrow> jsstr" where
  "quote_units [] = []"
| "quote_units [u] = quote_single u"
| "quote_units (u # v # s) =
     (if lead_surrogate (unat u) \<and> trail_surrogate (unat v) then u # v # quote_units s
      else quote_single u @ quote_units (v # s))"

definition quote :: "jsstr \<Rightarrow> jsstr" where
  "quote s = 34 # quote_units s @ [34]"

fun comma_join :: "jsstr list \<Rightarrow> jsstr" where
  "comma_join [] = []"
| "comma_join [x] = x"
| "comma_join (x # y # r) = x @ 44 # comma_join (y # r)"

fun stringify :: "json \<Rightarrow> jsstr" where
  "stringify JNull = js ''null''"
| "stringify (JBool b) = (if b then js ''true'' else js ''false'')"
| "stringify (JNum i) = int_text i"
| "stringify (JDec m k) = int_text m @ 101 # 45 # nat_text k"
| "stringify (JStr s) = quote s"
| "stringify (JArr xs) = 91 # comma_join (map stringify xs) @ [93]"
| "stringify (JObj ms) =
     123 # comma_join (map (\<lambda>(k, v). quote k @ 58 # stringify v) ms) @ [125]"

section \<open>JSON.parse\<close>

definition json_ws :: "u16 \<Rightarrow> bool" where
  "json_ws u \<longleftrightarrow> u = 32 \<or> u = 9 \<or> u = 10 \<or> u = 13"

definition skip_ws :: "jsstr \<Rightarrow> jsstr" where
  "skip_ws s = dropWhile json_ws s"

definition escape_char :: "u16 \<Rightarrow> u16 option" where
  "escape_char e =
     (if e = 34 \<or> e = 92 \<or> e = 47 then Some e
      else if e = 98 then Some 8 else if e = 102 then Some 12 else if e = 110 then Some 10
      else if e = 114 then Some 13 else if e = 116 then Some 9 else None)"

definition hex_val :: "u16 \<Rightarrow> nat option" where
  "hex_val u =
     (let n = unat u in
      if 48 \<le> n \<and> n \<le> 57 then Some (n - 48)
      else if 97 \<le> n \<and> n \<le> 102 then Some (n - 87)
      else if 65 \<le> n \<and> n \<le> 70 then Some (n - 55)
      else None)"

definition hex4 :: "u16 \<Rightarrow> u16 \<Rightarrow> u16 \<Rightarrow> u16 \<Rightarrow> u16 option" where
  "hex4 a b c d =
     (case (hex_val a, hex_val b, hex_val c, hex_val d) of
        (Some p, Some q, Some r, Some s) \<Rightarrow> Some (of_nat (p * 4096 + q * 256 + r * 16 + s))
      | _ \<Rightarrow> None)"

definition cons_unit :: "u16 \<Rightarrow> (jsstr \<times> jsstr) option \<Rightarrow> (jsstr \<times> jsstr) option" where
  "cons_unit u r = map_option (\<lambda>(s, rest). (u # s, rest)) r"

text \<open>The rest of a string literal after its opening quote.\<close>

fun parse_string :: "jsstr \<Rightarrow> (jsstr \<times> jsstr) option" where
  "parse_string [] = None"
| "parse_string (u # s) =
     (if u = 34 then Some ([], s)
      else if u = 92 then
        (case s of
           [] \<Rightarrow> None
         | e # t \<Rightarrow>
             (case escape_char e of
                Some c \<Rightarrow> cons_unit c (parse_string t)
              | None \<Rightarrow>
                  if e = 117 then
                    (case t of
                       a # b # c # d # t' \<Rightarrow>
                         (case hex4 a b c d of
                            Some w \<Rightarrow> cons_unit w (parse_string t')
                          | None \<Rightarrow> None)
                     | _ \<Rightarrow> None)
                  else None))
      else if unat u < 32 then None
      else cons_unit u (parse_string s))"

definition is_digit :: "u16 \<Rightarrow> bool" where
  "is_digit u \<longleftrightarrow> 48 \<le> unat u \<and> unat u \<le> 57"

definition digits_val :: "jsstr \<Rightarrow> nat" where
  "digits_val s = foldl (\<lambda>n u. n * 10 + (unat u - 48)) 0 s"

text \<open>A number literal denotes \<open>m * 10 ^ e\<close>; integral values are \<open>JNum\<close>.\<close>

definition decimal :: "int \<Rightarrow> int \<Rightarrow> json" where
  "decimal m e =
     (if 0 \<le> e then JNum (m * 10 ^ nat e)
      else if m mod 10 ^ nat (- e) = 0 then JNum (m div 10 ^ nat (- e))
      else JDec m (nat (- e)))"

definition parse_exponent :: "jsstr \<Rightarrow> (int \<times> jsstr) option" where
  "parse_exponent s =
     (case s of
        u # t \<Rightarrow>
          if u = 101 \<or> u = 69 then
            (let neg = (case t of v # _ \<Rightarrow> v = 45 | [] \<Rightarrow> False);
                 t' = (case t of v # r \<Rightarrow> if v = 45 \<or> v = 43 then r else t | [] \<Rightarrow> []);
                 ds = takeWhile is_digit t'
             in if ds = [] then None
                else Some ((if neg then - int (digits_val ds) else int (digits_val ds)),
                           dropWhile is_digit t'))
          else Some (0, s)
      | [] \<Rightarrow> Some (0, s))"

definition parse_fraction :: "jsstr \<Rightarrow> (jsstr \<times> jsstr) option" where
  "parse_fraction s =
     (case s of
        u # t \<Rightarrow>
          if u = 46 then
            (if takeWhile is_digit t = [] then None
             else Some (takeWhile is_digit t, dropWhile is_digit t))
          else Some ([], s)
      | [] \<Rightarrow> Some ([], s))"

definition parse_number :: "jsstr \<Rightarrow> (json \<times> jsstr) option" where
  "parse_number s =
     (let neg = (case s of u # _ \<Rightarrow> u = 45 | [] \<Rightarrow> False);
          t = (if neg then tl s else s);
          ds = takeWhile is_digit t
      in if ds = [] \<or> (hd ds = 48 \<and> length ds > 1) then None
         else
           (case parse_fraction (dropWhile is_digit t) of
              None \<Rightarrow> None
            | Some (fs, t1) \<Rightarrow>
                (case parse_exponent t1 of
                   None \<Rightarrow> None
                 | Some (e, t2) \<Rightarrow>
                     (let m = int (digits_val (ds @ fs)) in
                      Some (decimal (if neg then - m else m) (e - int (length fs)), t2)))))"

definition parse_word :: "jsstr \<Rightarrow> json \<Rightarrow> jsstr \<Rightarrow> (json \<times> jsstr) option" where
  "parse_word w v s = (if take (length w) s = w then Some (v, drop (length w) s) else None)"

text \<open>The last value of a repeated key replaces the earlier one in its place.\<close>

fun put_member :: "jsstr \<Rightarrow> 'a \<Rightarrow> (jsstr \<times> 'a) list \<Rightarrow> (jsstr \<times> 'a) list" where
  "put_member k v [] = [(k, v)]"
| "put_member k v ((k', v') # r) = (if k = k' then (k, v) # r else (k', v') # put_member k v r)"

definition object_of :: "(jsstr \<times> json) list \<Rightarrow> json" where
  "object_of ms = JObj (foldl (\<lambda>acc (k, v). put_member k v acc) [] ms)"

fun parse_value :: "nat \<Rightarrow> jsstr \<Rightarrow> (json \<times> jsstr) option"
  and parse_elements :: "nat \<Rightarrow> jsstr \<Rightarrow> (json list \<times> jsstr) option"
  and parse_members :: "nat \<Rightarrow> jsstr \<Rightarrow> ((jsstr \<times> json) list \<times> jsstr) option" where
  "parse_value 0 s = None"
| "parse_value (Suc f) s =
     (case skip_ws s of
        [] \<Rightarrow> None
      | u # t \<Rightarrow>
          if u = 34 then map_option (\<lambda>(v, r). (JStr v, r)) (parse_string t)
          else if u = 91 then
            (case skip_ws t of
               [] \<Rightarrow> None
             | v # r \<Rightarrow>
                 if v = 93 then Some (JArr [], r)
                 else map_option (\<lambda>(vs, r). (JArr vs, r)) (parse_elements f t))
          else if u = 123 then
            (case skip_ws t of
               [] \<Rightarrow> None
             | v # r \<Rightarrow>
                 if v = 125 then Some (JObj [], r)
                 else map_option (\<lambda>(ms, r). (object_of ms, r)) (parse_members f t))
          else if u = 110 then parse_word (js ''null'') JNull (u # t)
          else if u = 116 then parse_word (js ''true'') (JBool True) (u # t)
          else if u = 102 then parse_word (js ''false'') (JBool False) (u # t)
          else parse_number (u # t))"
| "parse_elements 0 s = None"
| "parse_elements (Suc f) s =
     (case parse_value f s of
        None \<Rightarrow> None
      | Some (v, r) \<Rightarrow>
          (case skip_ws r of
             [] \<Rightarrow> None
           | u # t \<Rightarrow>
               if u = 93 then Some ([v], t)
               else if u = 44 then map_option (\<lambda>(vs, r). (v # vs, r)) (parse_elements f t)
               else None))"
| "parse_members 0 s = None"
| "parse_members (Suc f) s =
     (case skip_ws s of
        [] \<Rightarrow> None
      | u # t \<Rightarrow>
          if u \<noteq> 34 then None
          else
            (case parse_string t of
               None \<Rightarrow> None
             | Some (k, r1) \<Rightarrow>
                 (case skip_ws r1 of
                    [] \<Rightarrow> None
                  | c # r2 \<Rightarrow>
                      if c \<noteq> 58 then None
                      else
                        (case parse_value f r2 of
                           None \<Rightarrow> None
                         | Some (v, r3) \<Rightarrow>
                             (case skip_ws r3 of
                                [] \<Rightarrow> None
                              | w # r4 \<Rightarrow>
                                  if w = 125 then Some ([(k, v)], r4)
                                  else if w = 44 then
                                    map_option (\<lambda>(ms, r). ((k, v) # ms, r)) (parse_members f r4)
                                  else None)))))"

definition json_parse :: "jsstr \<Rightarrow> exn + json" where
  "json_parse s =
     (case parse_value (2 * length s + 2) s of
        None \<Rightarrow> Inl SyntaxError
      | Some (v, r) \<Rightarrow> if skip_ws r = [] then Inr v else Inl SyntaxError)"

text \<open>Property access on a parsed object.\<close>

fun member :: "jsstr \<Rightarrow> json \<Rightarrow> json option" where
  "member k (JObj ms) = map_of ms k"
| "member k _ = None"

text \<open>
  \<open>String(v)\<close>, the conversion a DOM function such as \<open>atob\<close> applies to an argument that is not
  a string (\<open>None\<close> is a missing property): arrays join their elements with commas, \<open>null\<close> and
  missing elements as the empty string, and objects are \<open>[object Object]\<close>.
\<close>

fun to_text :: "json \<Rightarrow> jsstr" where
  "to_text (JStr s) = s"
| "to_text JNull = js ''null''"
| "to_text (JArr xs) = comma_join (map (\<lambda>x. if x = JNull then [] else to_text x) xs)"
| "to_text (JObj ms) = js ''[object Object]''"
| "to_text v = stringify v"

definition dom_string :: "json option \<Rightarrow> jsstr" where
  "dom_string v = (case v of None \<Rightarrow> js ''undefined'' | Some j \<Rightarrow> to_text j)"

end
