(* ===== verification/JsonRoundtrip.thy ===== *)
theory JsonRoundtrip
  imports Json
begin

text \<open>
  \<open>JSON.parse\<close> inverts \<open>JSON.stringify\<close>, for every value the client builds: strings with any
  code units, integers, arrays and objects with distinct keys. Also: the fuel of \<open>json_parse\<close>
  is enough for every text, malformed or not.
\<close>

section \<open>Strings\<close>

lemma unat_hex_digit: "n < 16 \<Longrightarrow> unat (hex_digit n) = (if n < 10 then 48 + n else 87 + n)"
  by (auto simp: hex_digit_def unat_of_nat_u16 simp del: of_nat_add)

lemma hex_val_digit: "n < 16 \<Longrightarrow> hex_val (hex_digit n) = Some n"
  by (simp add: hex_val_def unat_hex_digit Let_def)

lemma horner_16: "A * 4096 + B * 256 + C * 16 + D = ((A * 16 + B) * 16 + C) * 16 + (D :: nat)"
  by simp

lemma nibbles: "n div 4096 * 4096 + n div 256 mod 16 * 256 + n div 16 mod 16 * 16 + n mod 16 = (n :: nat)"
proof -
  have "n div 4096 = n div 16 div 16 div 16" and "n div 256 = n div 16 div 16"
    by (simp_all flip: div_mult2_eq)
  then show ?thesis
    by (simp only: horner_16 div_mult_mod_eq)
qed

lemma hex4_unicode_escape:
  "hex4 (hex_digit (unat u div 4096)) (hex_digit (unat u div 256 mod 16))
     (hex_digit (unat u div 16 mod 16)) (hex_digit (unat u mod 16)) = Some u"
proof -
  have "unat u div 4096 < 16"
    using unat_u16_less [of u] by (simp add: div_less_iff_less_mult)
  then show ?thesis
    by (simp add: hex4_def hex_val_digit nibbles flip: of_nat_add of_nat_mult)
qed

lemma parse_string_unicode_escape:
  "parse_string (unicode_escape u @ t) = cons_unit u (parse_string t)"
  by (simp add: unicode_escape_def Let_def escape_char_def hex4_unicode_escape)

lemma parse_string_plain:
  "u \<noteq> 34 \<Longrightarrow> u \<noteq> 92 \<Longrightarrow> \<not> unat u < 32 \<Longrightarrow> parse_string (u # t) = cons_unit u (parse_string t)"
  by simp

lemma parse_string_quote_single:
  "parse_string (quote_single u @ t) = cons_unit u (parse_string t)"
proof -
  have "parse_string (quote_unit u @ t) = cons_unit u (parse_string t)"
    by (auto simp: quote_unit_def parse_string_unicode_escape escape_char_def)
  then show ?thesis
    by (simp add: quote_single_def parse_string_unicode_escape)
qed

lemma surrogate_plain:
  assumes "lead_surrogate (unat (u :: u16)) \<or> trail_surrogate (unat u)"
  shows "u \<noteq> 34 \<and> u \<noteq> 92 \<and> \<not> unat u < 32"
  using assms by (auto simp: lead_surrogate_def trail_surrogate_def)

lemma parse_string_quote:
  "parse_string (quote_units s @ 34 # r) = Some (s, r)"
proof (induction s rule: quote_units.induct)
  case 1
  then show ?case by simp
next
  case (2 u)
  then show ?case
    by (simp add: parse_string_quote_single cons_unit_def del: parse_string.simps(2))
      (simp add: cons_unit_def)
next
  case (3 u v s)
  show ?case
  proof (cases "lead_surrogate (unat u) \<and> trail_surrogate (unat v)")
    case True
    then have "u \<noteq> 34 \<and> u \<noteq> 92 \<and> \<not> unat u < 32" "v \<noteq> 34 \<and> v \<noteq> 92 \<and> \<not> unat v < 32"
      using surrogate_plain by blast+
    with True 3 show ?thesis
      by (simp add: parse_string_plain cons_unit_def del: parse_string.simps(2))
  next
    case False
    with 3 show ?thesis
      by (simp only: quote_units.simps if_False append_assoc parse_string_quote_single)
        (simp add: cons_unit_def)
  qed
qed

section \<open>Numbers\<close>

lemma unat_digit: "d < 10 \<Longrightarrow> unat (of_nat (48 + d) :: u16) = 48 + d"
  by (simp add: unat_of_nat_u16 del: of_nat_add)

lemma is_digit_digit: "d < 10 \<Longrightarrow> is_digit (of_nat (48 + d))"
  by (simp add: is_digit_def unat_digit del: of_nat_add)

lemma nat_text_digits: "u \<in> set (nat_text n) \<Longrightarrow> is_digit u"
proof (induction n rule: nat_text.induct)
  case (1 n)
  then show ?case
    by (subst (asm) nat_text.simps [of n])
      (auto simp: is_digit_digit simp del: of_nat_add split: if_splits)
qed

lemma nat_text_nonempty: "nat_text n \<noteq> []"
  by (subst nat_text.simps) simp

lemma digits_val_snoc: "digits_val (s @ [u]) = digits_val s * 10 + (unat u - 48)"
  by (simp add: digits_val_def)

lemma digits_val_nat_text: "digits_val (nat_text n) = n"
proof (induction n rule: nat_text.induct)
  case (1 n)
  show ?case
  proof (cases "n < 10")
    case True
    then show ?thesis
      by (simp add: nat_text.simps [of n] digits_val_def unat_digit del: of_nat_add)
  next
    case False
    with 1 show ?thesis
      by (simp add: nat_text.simps [of n] digits_val_snoc unat_digit del: of_nat_add)
  qed
qed

lemma nat_text_head: "hd (nat_text n) = 48 \<Longrightarrow> n = 0"
proof (induction n rule: nat_text.induct)
  case (1 n)
  show ?case
  proof (cases "n < 10")
    case True
    with 1 have "unat (of_nat (48 + n) :: u16) = 48"
      by (simp add: nat_text.simps [of n])
    with True show ?thesis by (simp add: unat_digit del: of_nat_add)
  next
    case False
    with 1 show ?thesis
      by (simp add: nat_text.simps [of n] nat_text_nonempty hd_append)
  qed
qed

lemma nat_text_zero: "nat_text 0 = [48]"
  by (simp add: nat_text.simps)

lemma nat_text_canonical: "hd (nat_text n) = 48 \<Longrightarrow> length (nat_text n) = 1"
  using nat_text_head [of n] by (simp add: nat_text_zero)

text \<open>What may follow a number: no digit, point or exponent mark.\<close>

definition number_end :: "jsstr \<Rightarrow> bool" where
  "number_end r \<longleftrightarrow> (case r of [] \<Rightarrow> True | u # _ \<Rightarrow> \<not> is_digit u \<and> u \<noteq> 46 \<and> u \<noteq> 101 \<and> u \<noteq> 69)"

lemma takeWhile_digits:
  "number_end r \<Longrightarrow> takeWhile is_digit (nat_text n @ r) = nat_text n"
  using nat_text_digits [of _ n]
  by (subst takeWhile_append2) (auto simp: number_end_def split: list.splits)

lemma dropWhile_digits:
  "number_end r \<Longrightarrow> dropWhile is_digit (nat_text n @ r) = r"
  using nat_text_digits [of _ n]
  by (subst dropWhile_append2) (auto simp: number_end_def split: list.splits)

lemma number_end_rest:
  assumes "number_end r"
  shows "parse_fraction r = Some ([], r)" and "parse_exponent r = Some (0, r)"
  using assms by (auto simp: number_end_def parse_fraction_def parse_exponent_def split: list.splits)

lemma parse_number_int:
  assumes "number_end r"
  shows "parse_number (int_text i @ r) = Some (JNum i, r)"
proof -
  obtain u t where ut: "nat_text (nat \<bar>i\<bar>) = u # t"
    using nat_text_nonempty by (cases "nat_text (nat \<bar>i\<bar>)") auto
  then have "is_digit u"
    using nat_text_digits [of u "nat \<bar>i\<bar>"] by simp
  then have "u \<noteq> 45" by (auto simp: is_digit_def)
  have canon: "\<not> (nat_text (nat \<bar>i\<bar>) = [] \<or> (hd (nat_text (nat \<bar>i\<bar>)) = 48 \<and> length (nat_text (nat \<bar>i\<bar>)) > 1))"
    using nat_text_nonempty nat_text_canonical by auto
  have val: "int (digits_val (nat_text (nat \<bar>i\<bar>))) = \<bar>i\<bar>"
    by (simp add: digits_val_nat_text)
  show ?thesis
  proof (cases "i < 0")
    case True
    then have "int_text i @ r = 45 # nat_text (nat \<bar>i\<bar>) @ r"
      by (simp add: int_text_def)
    with True canon val assms show ?thesis
      by (simp add: parse_number_def takeWhile_digits dropWhile_digits number_end_rest decimal_def Let_def)
  next
    case False
    then have "int_text i @ r = nat_text (nat \<bar>i\<bar>) @ r"
      by (simp add: int_text_def)
    moreover have "(case nat_text (nat \<bar>i\<bar>) @ r of [] \<Rightarrow> False | u # x \<Rightarrow> u = 45) = False"
      using ut \<open>u \<noteq> 45\<close> by simp
    ultimately show ?thesis
      using False canon val assms
      by (simp add: parse_number_def takeWhile_digits dropWhile_digits number_end_rest decimal_def Let_def)
  qed
qed

lemma int_text_head: "\<exists>u t. int_text i = u # t \<and> (is_digit u \<or> u = 45)"
proof (cases "nat_text (nat \<bar>i\<bar>)")
  case Nil
  then show ?thesis using nat_text_nonempty by blast
next
  case (Cons u t)
  then have "is_digit u" using nat_text_digits [of u "nat \<bar>i\<bar>"] by simp
  with Cons show ?thesis
    by (cases "i < 0") (simp_all add: int_text_def)
qed

section \<open>Enough fuel\<close>

lemma skip_ws_length: "length (skip_ws s) \<le> length s"
  by (simp add: skip_ws_def length_dropWhile_le)

lemma skip_ws_Cons_length: "skip_ws s = u # t \<Longrightarrow> length t < length s"
  using skip_ws_length [of s] by simp

lemma parse_string_length: "parse_string t = Some (k, r) \<Longrightarrow> length r < length t"
proof (induction "length t" arbitrary: t k r rule: less_induct)
  case less
  have IH: "length r' < length t" if "parse_string t' = Some (k', r')" "length t' < length t" for t' k' r'
    using less.hyps [OF that(2) that(1)] that(2) by simp
  show ?case
  proof (cases t)
    case Nil
    with less.prems show ?thesis by simp
  next
    case (Cons u s)
    with less.prems show ?thesis
      by (subst (asm) Cons, subst (asm) parse_string.simps(2))
        (auto simp: cons_unit_def simp del: parse_string.simps dest: IH
          split: if_splits list.splits option.splits)
  qed
qed

lemma digits_length: "length (dropWhile is_digit s) \<le> length s"
  by (rule length_dropWhile_le)

lemma parse_fraction_length: "parse_fraction s = Some (fs, r) \<Longrightarrow> length r \<le> length s"
  by (auto simp: parse_fraction_def le_SucI digits_length split: list.splits if_splits)

lemma parse_exponent_length:
  assumes "parse_exponent s = Some (e, r)"
  shows "length r \<le> length s"
proof (cases s)
  case Nil
  with assms show ?thesis by (simp add: parse_exponent_def)
next
  case (Cons u t)
  define t' where "t' = (case t of v # r \<Rightarrow> if v = 45 \<or> v = 43 then r else t | [] \<Rightarrow> [])"
  have "length t' \<le> length t" by (simp add: t'_def split: list.split)
  moreover have "r = s \<or> r = dropWhile is_digit t'"
    using assms Cons by (auto simp: parse_exponent_def Let_def simp flip: t'_def split: if_splits)
  ultimately show ?thesis
    using digits_length [of t'] Cons by auto
qed

lemma parse_number_length:
  assumes "parse_number s = Some (v, r)"
  shows "length r < length s"
proof -
  define neg where "neg = (case s of u # _ \<Rightarrow> u = 45 | [] \<Rightarrow> False)"
  define t where "t = (if neg then tl s else s)"
  have "length t \<le> length s" by (simp add: t_def)
  from assms obtain fs t1 e where d: "takeWhile is_digit t \<noteq> []"
    and f: "parse_fraction (dropWhile is_digit t) = Some (fs, t1)"
    and e: "parse_exponent t1 = Some (e, r)"
    by (auto simp: parse_number_def Let_def simp flip: neg_def t_def split: if_splits option.splits)
  have "length t = length (takeWhile is_digit t) + length (dropWhile is_digit t)"
    by (metis length_append takeWhile_dropWhile_id)
  with d have "length (dropWhile is_digit t) < length t"
    by (cases "takeWhile is_digit t") auto
  with parse_fraction_length [OF f] parse_exponent_length [OF e] \<open>length t \<le> length s\<close>
  show ?thesis by linarith
qed

lemma parse_word_length:
  assumes "parse_word w v s = Some (x, r)" and "w \<noteq> []"
  shows "length r < length s"
proof -
  have "take (length w) s = w" and "r = drop (length w) s"
    using assms(1) by (auto simp: parse_word_def split: if_splits)
  with assms(2) show ?thesis by (cases s) auto
qed

lemma parse_lengths:
  "parse_value f s = Some (v, r) \<Longrightarrow> length r < length s"
  "parse_elements f s = Some (vs, r) \<Longrightarrow> length r < length s"
  "parse_members f s = Some (ms, r) \<Longrightarrow> length r < length s"
proof (induction f s and f s and f s arbitrary: v r and vs r and ms r
    rule: parse_value_parse_elements_parse_members.induct)
  case (2 f s)
  from "2.prems" obtain u t where ut: "skip_ws s = u # t"
    by (auto split: list.splits)
  have t: "length t < length s" and ut_le: "length (u # t) \<le> length s"
    using skip_ws_Cons_length [OF ut] by simp_all
  show ?case
    using "2.prems" ut t ut_le
    by (auto dest: parse_string_length parse_word_length parse_number_length skip_ws_Cons_length "2.IH" intro: less_trans [OF _ t]
        split: list.splits if_splits)
next
  case (4 f s)
  from "4.prems" obtain v0 r0 u t where v0: "parse_value f s = Some (v0, r0)" and ut: "skip_ws r0 = u # t"
    by (auto split: option.splits list.splits)
  have t: "length t < length s"
    using "4.IH"(1) [OF v0] skip_ws_Cons_length [OF ut] by simp
  have "(if u = 93 then Some ([v0], t)
      else if u = 44 then map_option (\<lambda>(vs, r). (v0 # vs, r)) (parse_elements f t)
      else None) = Some (vs, r)"
    using "4.prems" v0 ut by simp
  then consider "r = t" | vs' where "u = 44" "parse_elements f t = Some (vs', r)"
    by (auto split: if_splits)
  then show ?case
  proof cases
    case 1
    with t show ?thesis by simp
  next
    case 2
    then have "length r < length t"
      using "4.IH"(2) [OF v0 refl ut] by simp
    with t show ?thesis by simp
  qed
next
  case (6 f s)
  from "6.prems" obtain t k r1 r2 v0 r3 u r4 where t: "skip_ws s = 34 # t"
    and k: "parse_string t = Some (k, r1)" and r2: "skip_ws r1 = 58 # r2"
    and v0: "parse_value f r2 = Some (v0, r3)" and r4: "skip_ws r3 = u # r4"
    by (auto split: option.splits list.splits if_splits)
  have "length r3 < length r2"
    using "6.IH"(1) [OF t _ k _ r2 _ v0] by simp
  then have len: "length r4 < length s"
    using skip_ws_Cons_length [OF t] parse_string_length [OF k] skip_ws_Cons_length [OF r2]
      skip_ws_Cons_length [OF r4] by simp
  have "(if u = 125 then Some ([(k, v0)], r4)
      else if u = 44 then map_option (\<lambda>(ms, r). ((k, v0) # ms, r)) (parse_members f r4)
      else None) = Some (ms, r)"
    using "6.prems" t k r2 v0 r4 by simp
  then consider "r = r4" | ms' where "u = 44" "parse_members f r4 = Some (ms', r)"
    by (auto split: if_splits)
  then show ?case
  proof cases
    case 1
    with len show ?thesis by simp
  next
    case 2
    then have "length r < length r4"
      using "6.IH"(2) [OF t _ k refl r2 _ v0 refl r4] by simp
    with len show ?thesis by simp
  qed
qed simp_all

text \<open>One step of each parser depends on the fuel only through the calls on shorter text.\<close>

lemma parse_value_cong:
  assumes "\<And>t. length t < length s \<Longrightarrow> parse_elements f t = parse_elements g t"
    and "\<And>t. length t < length s \<Longrightarrow> parse_members f t = parse_members g t"
  shows "parse_value (Suc f) s = parse_value (Suc g) s"
proof (cases "skip_ws s")
  case Nil
  then show ?thesis by simp
next
  case (Cons u t)
  then have "parse_elements g t = parse_elements f t" and "parse_members g t = parse_members f t"
    using assms skip_ws_Cons_length by metis+
  with Cons show ?thesis by (simp split: list.split)
qed

lemma parse_elements_cong:
  assumes "parse_value f s = parse_value g s"
    and "\<And>t. length t < length s \<Longrightarrow> parse_elements f t = parse_elements g t"
  shows "parse_elements (Suc f) s = parse_elements (Suc g) s"
proof (cases "parse_value g s")
  case None
  with assms(1) show ?thesis by simp
next
  case (Some p)
  then obtain v r where p: "parse_value g s = Some (v, r)" by (cases p) simp
  have "parse_elements f t = parse_elements g t" if "skip_ws r = u # t" for u t
    using assms(2) [of t] parse_lengths(1) [OF p] skip_ws_Cons_length [OF that] by simp
  with p assms(1) show ?thesis by (simp split: list.split)
qed

lemma parse_members_cong:
  assumes "\<And>t. length t < length s \<Longrightarrow> parse_value f t = parse_value g t"
    and "\<And>t. length t < length s \<Longrightarrow> parse_members f t = parse_members g t"
  shows "parse_members (Suc f) s = parse_members (Suc g) s"
proof -
  have v: "parse_value f r2 = parse_value g r2"
    if "skip_ws s = u # t" "parse_string t = Some (k, r1)" "skip_ws r1 = c # r2" for u t k r1 c r2
    using assms(1) [of r2] skip_ws_Cons_length [OF that(1)] parse_string_length [OF that(2)]
      skip_ws_Cons_length [OF that(3)] by simp
  have m: "parse_members f r4 = parse_members g r4"
    if "skip_ws s = u # t" "parse_string t = Some (k, r1)" "skip_ws r1 = c # r2"
      "parse_value g r2 = Some (v0, r3)" "skip_ws r3 = w # r4" for u t k r1 c r2 v0 r3 w r4
    using assms(2) [of r4] skip_ws_Cons_length [OF that(1)] parse_string_length [OF that(2)]
      skip_ws_Cons_length [OF that(3)] parse_lengths(1) [OF that(4)] skip_ws_Cons_length [OF that(5)]
    by simp
  show ?thesis
    by (auto simp: v m split: list.split option.split)
qed

lemma parse_enough:
  "length s \<le> n \<Longrightarrow> 2 * n < f \<Longrightarrow> 2 * n < g \<Longrightarrow> parse_value f s = parse_value g s"
  "length s \<le> n \<Longrightarrow> 2 * n + 1 < f \<Longrightarrow> 2 * n + 1 < g \<Longrightarrow> parse_elements f s = parse_elements g s"
  "length s \<le> n \<Longrightarrow> 2 * n < f \<Longrightarrow> 2 * n < g \<Longrightarrow> parse_members f s = parse_members g s"
proof (induction n arbitrary: s f g)
  case 0
  have val: "parse_value (Suc f) s = parse_value (Suc g) s" if "s = []" for f g s
    using that by (intro parse_value_cong) simp_all
  {
    case 1
    then show ?case using val by (cases f; cases g) blast+
  next
    case 2
    then obtain f' g' where fg: "f = Suc (Suc f')" "g = Suc (Suc g')"
      by (metis One_nat_def add.left_neutral less_natE mult_0_right not_less_eq zero_less_Suc)
    show ?case unfolding fg using 2 by (intro parse_elements_cong val) auto
  next
    case 3
    then obtain f' g' where fg: "f = Suc f'" "g = Suc g'" by (cases f; cases g) auto
    show ?case unfolding fg using 3 by (intro parse_members_cong) auto
  }
next
  case (Suc n)
  have val: "parse_value f s = parse_value g s"
    if "length s \<le> Suc n" "2 * Suc n < f" "2 * Suc n < g" for s f g
  proof -
    obtain f' g' where fg: "f = Suc f'" "g = Suc g'"
      using \<open>2 * Suc n < f\<close> \<open>2 * Suc n < g\<close> by (cases f; cases g) auto
    show ?thesis
      unfolding fg
    proof (rule parse_value_cong)
      fix t :: jsstr assume "length t < length s"
      with that fg have "length t \<le> n" "2 * n + 1 < f'" "2 * n + 1 < g'" by auto
      then show "parse_elements f' t = parse_elements g' t" and "parse_members f' t = parse_members g' t"
        by (blast intro: Suc.IH(2), intro Suc.IH(3)) simp_all
    qed
  qed
  {
    case 1
    then show ?case by (rule val)
  next
    case 2
    then obtain f' g' where fg: "f = Suc f'" "g = Suc g'" by (cases f; cases g) auto
    show ?case
      unfolding fg
    proof (rule parse_elements_cong)
      show "parse_value f' s = parse_value g' s" using 2 fg by (intro val) auto
      fix t :: jsstr assume "length t < length s"
      with 2 fg show "parse_elements f' t = parse_elements g' t" by (intro Suc.IH(2)) auto
    qed
  next
    case 3
    then obtain f' g' where fg: "f = Suc f'" "g = Suc g'" by (cases f; cases g) auto
    show ?case
      unfolding fg
    proof (rule parse_members_cong)
      fix t :: jsstr assume "length t < length s"
      with 3 fg have "length t \<le> n" "2 * n < f'" "2 * n < g'" by auto
      then show "parse_value f' t = parse_value g' t" and "parse_members f' t = parse_members g' t"
        by (blast intro: Suc.IH(1,3))+
    qed
  }
qed

lemma parse_value_enough:
  "2 * length s + 2 \<le> f \<Longrightarrow> parse_value f s = parse_value (2 * length s + 2) s"
  by (rule parse_enough(1) [where n = "length s"]) simp_all

lemma json_parse_eq:
  assumes "\<And>f. f0 \<le> f \<Longrightarrow> parse_value f s = Some (v, r)" and "skip_ws r = []"
  shows "json_parse s = Inr v"
proof -
  let ?f = "max f0 (2 * length s + 2)"
  have "parse_value (2 * length s + 2) s = parse_value ?f s"
    by (rule parse_value_enough [symmetric]) simp
  also have "\<dots> = Some (v, r)"
    by (rule assms(1)) simp
  finally show ?thesis
    using assms(2) by (simp add: json_parse_def)
qed

section \<open>Values\<close>

text \<open>The values \<open>stringify\<close> writes exactly: integers only, distinct keys.\<close>

fun wf_json :: "json \<Rightarrow> bool" where
  "wf_json (JDec m k) = False"
| "wf_json (JArr xs) = list_all wf_json xs"
| "wf_json (JObj ms) = (distinct (map fst ms) \<and> list_all (\<lambda>(k, v). wf_json v) ms)"
| "wf_json _ = True"

lemma put_member_new: "k \<notin> fst ` set ms \<Longrightarrow> put_member k v ms = ms @ [(k, v)]"
  by (induction ms) auto

lemma put_members_distinct:
  "distinct (map fst (acc @ ms)) \<Longrightarrow> foldl (\<lambda>acc (k, v). put_member k v acc) acc ms = acc @ ms"
proof (induction ms arbitrary: acc)
  case Nil
  then show ?case by simp
next
  case (Cons p ms)
  obtain k v where p: "p = (k, v)" by (cases p)
  with Cons.prems have "k \<notin> fst ` set acc" by auto
  then have "foldl (\<lambda>acc (k, v). put_member k v acc) acc (p # ms) =
      foldl (\<lambda>acc (k, v). put_member k v acc) (acc @ [p]) ms"
    by (simp add: p put_member_new)
  also have "\<dots> = (acc @ [p]) @ ms"
    using Cons.prems by (intro Cons.IH) simp
  finally show ?case by simp
qed

lemma object_of_distinct: "distinct (map fst ms) \<Longrightarrow> object_of ms = JObj ms"
  by (simp add: object_of_def put_members_distinct)

definition reads :: "json \<Rightarrow> bool" where
  "reads j \<longleftrightarrow>
     (\<forall>r. number_end r \<longrightarrow> (\<exists>f0. \<forall>f \<ge> f0. parse_value f (stringify j @ r) = Some (j, r)))"

lemma readsI:
  assumes "\<And>r f. number_end r \<Longrightarrow> parse_value (Suc f) (stringify j @ r) = Some (j, r)"
  shows "reads j"
  unfolding reads_def
proof (intro allI impI exI)
  fix r f assume "number_end r" and "Suc 0 \<le> f"
  then show "parse_value f (stringify j @ r) = Some (j, r)"
    using assms by (cases f) simp_all
qed

lemma number_end_delims [simp]:
  "number_end (44 # r)" "number_end (93 # r)" "number_end (125 # r)" "number_end []"
  by (simp_all add: number_end_def is_digit_def)

lemma skip_ws_stay: "\<not> json_ws u \<Longrightarrow> skip_ws (u # t) = u # t"
  by (simp add: skip_ws_def)

lemma stringify_head:
  "wf_json j \<Longrightarrow> \<exists>u t. stringify j = u # t \<and> \<not> json_ws u \<and> u \<noteq> 93"
proof (cases j)
  case (JNum i)
  then show ?thesis
    using int_text_head [of i] by (auto simp: json_ws_def is_digit_def)
qed (auto simp: json_ws_def js_def js_char_def quote_def)

lemma skip_ws_stringify: "wf_json j \<Longrightarrow> skip_ws (stringify j @ r) = stringify j @ r"
  using stringify_head [of j] by (auto simp: skip_ws_stay)

lemma parse_elements_reads:
  assumes "xs \<noteq> []" and "\<forall>x \<in> set xs. reads x"
  shows "\<exists>f0. \<forall>f \<ge> f0. parse_elements f (comma_join (map stringify xs) @ 93 # r) = Some (xs, r)"
  using assms
proof (induction xs rule: list_nonempty_induct)
  case (single x)
  then have "reads x" by simp
  then obtain f0 where f0: "\<And>f. f0 \<le> f \<Longrightarrow> parse_value f (stringify x @ 93 # r) = Some (x, 93 # r)"
    unfolding reads_def by (meson number_end_delims(2))
  have "parse_elements f (comma_join (map stringify [x]) @ 93 # r) = Some ([x], r)" if "Suc f0 \<le> f" for f
    using that f0 [of "f - 1"] by (cases f) (simp_all add: skip_ws_stay json_ws_def)
  then show ?case by blast
next
  case (cons x xs)
  let ?rest = "comma_join (map stringify xs) @ 93 # r"
  have "reads x" using cons.prems by simp
  then obtain f0 where f0: "\<And>f. f0 \<le> f \<Longrightarrow> parse_value f (stringify x @ 44 # ?rest) = Some (x, 44 # ?rest)"
    unfolding reads_def by (meson number_end_delims(1))
  obtain f1 where f1: "\<And>f. f1 \<le> f \<Longrightarrow> parse_elements f ?rest = Some (xs, r)"
    using cons by auto
  obtain y ys where xs: "xs = y # ys" using cons.hyps by (cases xs) auto
  have "parse_elements f (comma_join (map stringify (x # xs)) @ 93 # r) = Some (x # xs, r)"
    if "Suc (max f0 f1) \<le> f" for f
    using that f0 [of "f - 1"] f1 [of "f - 1"]
    by (cases f) (simp_all add: xs skip_ws_stay json_ws_def)
  then show ?case by blast
qed

definition member_text :: "jsstr \<times> json \<Rightarrow> jsstr" where
  "member_text m = quote (fst m) @ 58 # stringify (snd m)"

lemma stringify_object: "stringify (JObj ms) = 123 # comma_join (map member_text ms) @ [125]"
  by (simp add: member_text_def [abs_def] case_prod_beta')

lemma parse_members_first:
  assumes "parse_value f (stringify v @ t) = Some (v, t)"
  shows "parse_members (Suc f) (member_text (k, v) @ t) =
    (case skip_ws t of [] \<Rightarrow> None
     | w # r4 \<Rightarrow> if w = 125 then Some ([(k, v)], r4)
         else if w = 44 then map_option (\<lambda>(ms, r). ((k, v) # ms, r)) (parse_members f r4)
         else None)"
  using assms by (simp add: member_text_def quote_def skip_ws_stay json_ws_def parse_string_quote)

lemma parse_members_reads:
  assumes "ms \<noteq> []" and "\<forall>(k, v) \<in> set ms. reads v"
  shows "\<exists>f0. \<forall>f \<ge> f0. parse_members f (comma_join (map member_text ms) @ 125 # r) = Some (ms, r)"
  using assms
proof (induction ms rule: list_nonempty_induct)
  case (single m)
  obtain k v where m: "m = (k, v)" by (cases m)
  with single have "reads v" by simp
  then obtain f0 where f0: "\<And>f. f0 \<le> f \<Longrightarrow> parse_value f (stringify v @ 125 # r) = Some (v, 125 # r)"
    unfolding reads_def by (meson number_end_delims(3))
  have "parse_members f (comma_join (map member_text [m]) @ 125 # r) = Some ([m], r)" if le: "Suc f0 \<le> f" for f
  proof -
    obtain f' where f': "f = Suc f'" and "f0 \<le> f'" using le by (cases f) auto
    then show ?thesis
      using parse_members_first [OF f0, of f' k] by (simp add: m skip_ws_stay json_ws_def)
  qed
  then show ?case by blast
next
  case (cons m ms)
  let ?rest = "comma_join (map member_text ms) @ 125 # r"
  obtain k v where m: "m = (k, v)" by (cases m)
  with cons have "reads v" by simp
  then obtain f0 where f0: "\<And>f. f0 \<le> f \<Longrightarrow> parse_value f (stringify v @ 44 # ?rest) = Some (v, 44 # ?rest)"
    unfolding reads_def by (meson number_end_delims(1))
  obtain f1 where f1: "\<And>f. f1 \<le> f \<Longrightarrow> parse_members f ?rest = Some (ms, r)"
    using cons by auto
  obtain y ys where ms: "ms = y # ys" using cons.hyps by (cases ms) auto
  have "parse_members f (comma_join (map member_text (m # ms)) @ 125 # r) = Some (m # ms, r)"
    if le: "Suc (max f0 f1) \<le> f" for f
  proof -
    obtain f' where f': "f = Suc f'" and "f0 \<le> f'" and "f1 \<le> f'" using le by (cases f) auto
    then show ?thesis
      using parse_members_first [OF f0, of f' k] f1 [of f']
      by (simp add: m ms skip_ws_stay json_ws_def)
  qed
  then show ?case by blast
qed

lemma reads_array:
  assumes "list_all wf_json xs" and "\<forall>x \<in> set xs. reads x"
  shows "reads (JArr xs)"
proof (cases xs)
  case Nil
  then show ?thesis by (auto intro!: readsI simp: skip_ws_stay json_ws_def)
next
  case (Cons x ys)
  then obtain u t where ut: "stringify x = u # t" "\<not> json_ws u" "u \<noteq> 93"
    using stringify_head [of x] assms(1) by auto
  then have head: "skip_ws (comma_join (map stringify xs) @ t') = comma_join (map stringify xs) @ t'
      \<and> (\<exists>t''. comma_join (map stringify xs) @ t' = u # t'')" for t'
    using Cons by (cases ys) (simp_all add: skip_ws_stay)
  show ?thesis
    unfolding reads_def
  proof (intro allI impI)
    fix r :: jsstr
    obtain f0 where f0: "\<And>f. f0 \<le> f \<Longrightarrow>
        parse_elements f (comma_join (map stringify xs) @ 93 # r) = Some (xs, r)"
      using parse_elements_reads [of xs r] assms(2) Cons by auto
    have "parse_value f (stringify (JArr xs) @ r) = Some (JArr xs, r)" if "Suc f0 \<le> f" for f
      using that f0 [of "f - 1"] head [of "93 # r"] ut(3)
      by (cases f) (auto simp: skip_ws_stay json_ws_def)
    then show "\<exists>f0. \<forall>f \<ge> f0. parse_value f (stringify (JArr xs) @ r) = Some (JArr xs, r)"
      by blast
  qed
qed

lemma reads_object:
  assumes "distinct (map fst ms)" and "\<forall>(k, v) \<in> set ms. reads v"
  shows "reads (JObj ms)"
proof (cases ms)
  case Nil
  then show ?thesis by (auto intro!: readsI simp: skip_ws_stay json_ws_def)
next
  case (Cons m ys)
  have head: "\<exists>t''. comma_join (map member_text ms) @ t' = 34 # t''" for t'
    using Cons by (cases ys) (simp_all add: member_text_def quote_def)
  show ?thesis
    unfolding reads_def
  proof (intro allI impI)
    fix r :: jsstr
    obtain f0 where f0: "\<And>f. f0 \<le> f \<Longrightarrow>
        parse_members f (comma_join (map member_text ms) @ 125 # r) = Some (ms, r)"
      using parse_members_reads [of ms r] assms(2) Cons by auto
    obtain t'' where t'': "comma_join (map member_text ms) @ 125 # r = 34 # t''"
      using head by blast
    have "parse_value f (stringify (JObj ms) @ r) = Some (JObj ms, r)" if "Suc f0 \<le> f" for f
      using that f0 [of "f - 1"]
      by (cases f) (auto simp: t'' stringify_object skip_ws_stay json_ws_def object_of_distinct [OF assms(1)]
          simp del: stringify.simps)
    then show "\<exists>f0. \<forall>f \<ge> f0. parse_value f (stringify (JObj ms) @ r) = Some (JObj ms, r)"
      by blast
  qed
qed

lemma reads_number: "reads (JNum i)"
proof (rule readsI)
  fix r f assume "number_end r"
  then have "parse_number (int_text i @ r) = Some (JNum i, r)" by (rule parse_number_int)
  moreover obtain u t where ut: "int_text i = u # t" "is_digit u \<or> u = 45"
    using int_text_head by blast
  moreover have "\<not> json_ws u \<and> u \<noteq> 34 \<and> u \<noteq> 91 \<and> u \<noteq> 123 \<and> u \<noteq> 110 \<and> u \<noteq> 116 \<and> u \<noteq> 102"
    using ut(2) by (auto simp: json_ws_def is_digit_def)
  ultimately show "parse_value (Suc f) (stringify (JNum i) @ r) = Some (JNum i, r)"
    by (simp add: skip_ws_stay)
qed

lemma reads_literals: "reads JNull" "reads (JBool b)" "reads (JStr s)"
proof -
  show "reads JNull"
    by (rule readsI) (simp add: js_def js_char_def skip_ws_stay json_ws_def parse_word_def)
  show "reads (JBool b)"
    by (rule readsI) (simp add: js_def js_char_def skip_ws_stay json_ws_def parse_word_def)
  show "reads (JStr s)"
    by (rule readsI) (simp add: quote_def parse_string_quote skip_ws_stay json_ws_def)
qed

lemma wf_json_reads: "wf_json j \<Longrightarrow> reads j"
proof (induction j)
  case (JArr xs)
  then show ?case by (intro reads_array) (auto simp: list_all_iff)
next
  case (JObj ms)
  have "reads v" if "(k, v) \<in> set ms" for k v
    using JObj that by (auto simp: list_all_iff)
  then show ?case
    using JObj.prems by (intro reads_object) auto
qed (simp_all add: reads_number reads_literals)

lemma json_roundtrip:
  assumes "wf_json j"
  shows "json_parse (stringify j) = Inr j"
proof -
  obtain f0 where "\<And>f. f0 \<le> f \<Longrightarrow> parse_value f (stringify j @ []) = Some (j, [])"
    using wf_json_reads [OF assms] number_end_delims(4) unfolding reads_def by blast
  then show ?thesis
    by (intro json_parse_eq [where r = "[]"]) (simp_all add: skip_ws_def)
qed

interpretation json: codec stringify
    "\<lambda>s. case json_parse s of Inr j \<Rightarrow> Some j | Inl _ \<Rightarrow> None" wf_json
  by unfold_locales (simp add: json_roundtrip)

end
