(* ===== verification/Handshake.thy ===== *)
theory Handshake
  imports Spake2Agreement JsonRoundtrip
begin

text \<open>
  web/src/handshake.ts: the class \<open>HandshakeSession\<close>, one SPAKE2 exchange with mutual key
  confirmation over the relay. The three callbacks given to the constructor (\<open>sendPake\<close>,
  \<open>onConfirmed\<close>, \<open>onFail\<close>) are the outputs a call produces, in the order it makes them. A
  result \<open>Inl e\<close> is an exception that leaves the session as it was.
\<close>

section \<open>Frames\<close>

definition b64 :: "bytes \<Rightarrow> jsstr" where
  "b64 b = (case btoa (binary_string b) of Inr s \<Rightarrow> s | Inl _ \<Rightarrow> [])"

definition unb64 :: "jsstr \<Rightarrow> exn + bytes" where
  "unb64 s = bind_result (atob s) (\<lambda>bin. Inr (map ucast bin))"

definition frame :: "string \<Rightarrow> bytes \<Rightarrow> jsstr" where
  "frame t b = stringify (JObj [(js ''t'', JStr (js t)), (js ''d'', JStr (b64 b))])"

section \<open>The session\<close>

datatype hs_output = SendPake jsstr | OnConfirmed bytes | OnFail string

record handshake =
  hs_state :: spake2_state
  hs_result :: "spake2_result option"
  hs_pending :: "bytes option" \<comment> \<open>\<open>pendingPeerConfirm\<close>\<close>
  hs_done :: bool

definition new_handshake ::
    "'p prims \<Rightarrow> role \<Rightarrow> jsstr \<Rightarrow> jsstr \<Rightarrow> nat \<Rightarrow> exn + ((handshake \<times> hs_output list) \<times> nat)" where
  "new_handshake P r code handshakeId pos =
     (let w = deriveW P code (text_encode handshakeId);
          idA = text_encode (js ''anonchat-owner:'' @ handshakeId);
          idB = text_encode (js ''anonchat-joiner:'' @ handshakeId)
      in bind_result (start P r w idA idB [] None pos) (\<lambda>((st, message), pos').
           Inr ((\<lparr>hs_state = st, hs_result = None, hs_pending = None, hs_done = False\<rparr>,
                 [SendPake (frame ''m'' message)]), pos')))"

definition hs_fail :: "handshake \<Rightarrow> string \<Rightarrow> handshake \<times> hs_output list" where
  "hs_fail h reason = (if hs_done h then (h, []) else (h\<lparr>hs_done := True\<rparr>, [OnFail reason]))"

definition hs_verify :: "handshake \<Rightarrow> bytes \<Rightarrow> handshake \<times> hs_output list" where
  "hs_verify h peerConfirm =
     (case hs_result h of
        None \<Rightarrow> (h, [])
      | Some r \<Rightarrow>
          if \<not> verifyPeer r peerConfirm then hs_fail h ''handshake_failed''
          else (h\<lparr>hs_done := True\<rparr>, [OnConfirmed (res_ke r)]))"

definition handlePoint :: "'p prims \<Rightarrow> handshake \<Rightarrow> bytes \<Rightarrow> handshake \<times> hs_output list" where
  "handlePoint P h peerPoint =
     (if hs_result h \<noteq> None then (h, [])
      else case finish P (hs_state h) peerPoint of
        Inl _ \<Rightarrow> hs_fail h ''handshake_failed''
      | Inr r \<Rightarrow>
          (let h1 = h\<lparr>hs_result := Some r\<rparr>;
               sent = [SendPake (frame ''c'' (res_confirm r))]
           in case hs_pending h1 of
                None \<Rightarrow> (h1, sent)
              | Some pc \<Rightarrow>
                  (let (h2, outs) = hs_verify (h1\<lparr>hs_pending := None\<rparr>) pc
                   in (h2, sent @ outs))))"

definition handleConfirm :: "handshake \<Rightarrow> bytes \<Rightarrow> handshake \<times> hs_output list" where
  "handleConfirm h peerConfirm =
     (if hs_result h = None then (h\<lparr>hs_pending := Some peerConfirm\<rparr>, [])
      else hs_verify h peerConfirm)"

definition onData :: "'p prims \<Rightarrow> handshake \<Rightarrow> jsstr \<Rightarrow> exn + (handshake \<times> hs_output list)" where
  "onData P h dataStr =
     (if hs_done h then Inr (h, [])
      else case json_parse dataStr of
        Inl _ \<Rightarrow> Inr (h, [])
      | Inr f \<Rightarrow>
          if f = JNull then Inl TypeErr
          else if member (js ''t'') f = Some (JStr (js ''m'')) then
            bind_result (unb64 (dom_string (member (js ''d'') f))) (\<lambda>b. Inr (handlePoint P h b))
          else if member (js ''t'') f = Some (JStr (js ''c'')) then
            bind_result (unb64 (dom_string (member (js ''d'') f))) (\<lambda>b. Inr (handleConfirm h b))
          else Inr (h, []))"

text \<open>
  The caller's view: an exception is reported by the event loop and the next message is
  processed as if the failed one had not come.
\<close>

definition hs_receive :: "'p prims \<Rightarrow> handshake \<Rightarrow> jsstr \<Rightarrow> handshake \<times> hs_output list" where
  "hs_receive P h dataStr = (case onData P h dataStr of Inl _ \<Rightarrow> (h, []) | Inr r \<Rightarrow> r)"

fun hs_run :: "'p prims \<Rightarrow> handshake \<Rightarrow> jsstr list \<Rightarrow> handshake \<times> hs_output list" where
  "hs_run P h [] = (h, [])"
| "hs_run P h (d # ds) =
     (let (h1, outs1) = hs_receive P h d; (h2, outs2) = hs_run P h1 ds in (h2, outs1 @ outs2))"

section \<open>Frames are read back\<close>

lemma b64_eq: "b64 b = bytesToB64 b"
  by (simp add: b64_def bytesToB64_def)

lemma unb64_b64: "unb64 (b64 b) = Inr b"
  using b64_roundtrip [of b] by (auto simp: b64_eq unb64_def b64ToBytes_def split: sum.splits)

lemma frame_parse:
  "json_parse (frame t b) = Inr (JObj [(js ''t'', JStr (js t)), (js ''d'', JStr (b64 b))])"
  unfolding frame_def by (rule json_roundtrip) simp

lemma onData_point:
  "\<not> hs_done h \<Longrightarrow> onData P h (frame ''m'' b) = Inr (handlePoint P h b)"
  by (simp add: onData_def frame_parse dom_string_def unb64_b64)

lemma onData_confirm:
  "\<not> hs_done h \<Longrightarrow> onData P h (frame ''c'' b) = Inr (handleConfirm h b)"
  by (simp add: onData_def frame_parse dom_string_def unb64_b64)

lemma onData_done: "hs_done h \<Longrightarrow> onData P h d = Inr (h, [])"
  by (simp add: onData_def)

section \<open>A session ends at most once, and only for a reason\<close>

definition terminal :: "hs_output \<Rightarrow> bool" where
  "terminal e \<longleftrightarrow> (case e of SendPake _ \<Rightarrow> False | _ \<Rightarrow> True)"

lemma terminal_simps [simp]:
  "\<not> terminal (SendPake d)" "terminal (OnConfirmed k)" "terminal (OnFail r)"
  by (simp_all add: terminal_def)

lemmas handler_defs = handlePoint_def handleConfirm_def hs_verify_def hs_fail_def

text \<open>\<open>carries t d b\<close>: the payload \<open>d\<close> is a frame of kind \<open>t\<close> with the bytes \<open>b\<close>.\<close>

definition carries :: "string \<Rightarrow> jsstr \<Rightarrow> bytes \<Rightarrow> bool" where
  "carries t d b \<longleftrightarrow>
     (case json_parse d of
        Inl _ \<Rightarrow> False
      | Inr f \<Rightarrow> member (js ''t'') f = Some (JStr (js t))
          \<and> unb64 (dom_string (member (js ''d'') f)) = Inr b)"

lemma carries_frame: "carries t (frame t b) b"
  by (simp add: carries_def frame_parse dom_string_def unb64_b64)

text \<open>Every way a message can be processed.\<close>

lemma hs_receive_cases:
  obtains (same) "hs_receive P h d = (h, [])"
  | (point) b where "\<not> hs_done h" "carries ''m'' d b" "hs_receive P h d = handlePoint P h b"
  | (confirm) b where "\<not> hs_done h" "carries ''c'' d b" "hs_receive P h d = handleConfirm h b"
proof (cases "hs_done h")
  case True
  then show thesis by (intro same) (simp add: hs_receive_def onData_done)
next
  case False
  show thesis
  proof (cases "json_parse d")
    case (Inl e)
    with False show thesis by (intro same) (simp add: hs_receive_def onData_def)
  next
    case (Inr f)
    let ?b = "unb64 (dom_string (member (js ''d'') f))"
    consider (null) "f = JNull" | (bad) e where "f \<noteq> JNull" "?b = Inl e"
      | (m) b where "f \<noteq> JNull" "member (js ''t'') f = Some (JStr (js ''m''))" "?b = Inr b"
      | (c) b where "f \<noteq> JNull" "member (js ''t'') f = Some (JStr (js ''c''))" "?b = Inr b"
      | (other) "f \<noteq> JNull" "member (js ''t'') f \<noteq> Some (JStr (js ''m''))"
          "member (js ''t'') f \<noteq> Some (JStr (js ''c''))"
      by (cases ?b) blast+
    then show thesis
    proof cases
      case (m b)
      with False Inr show thesis
        by (intro point [of b]) (simp_all add: hs_receive_def onData_def carries_def)
    next
      case (c b)
      with False Inr show thesis
        by (intro confirm [of b]) (simp_all add: hs_receive_def onData_def carries_def)
    qed (use False Inr in \<open>intro same, simp add: hs_receive_def onData_def\<close>)+
  qed
qed

lemma handlePoint_terminal:
  "handlePoint P h b = (h', outs) \<Longrightarrow> \<not> hs_done h \<Longrightarrow>
    length (filter terminal outs) = (if hs_done h' then 1 else 0)"
  by (cases "finish P (hs_state h) b"; cases "hs_pending h"; cases "hs_result h")
    (auto simp: handler_defs Let_def split: if_splits)

lemma handleConfirm_terminal:
  "handleConfirm h b = (h', outs) \<Longrightarrow> \<not> hs_done h \<Longrightarrow>
    length (filter terminal outs) = (if hs_done h' then 1 else 0)"
  by (cases "hs_result h") (auto simp: handler_defs Let_def split: if_splits)

lemma hs_receive_terminal:
  assumes "hs_receive P h d = (h', outs)"
  shows "length (filter terminal outs) = (if hs_done h' \<and> \<not> hs_done h then 1 else 0)
    \<and> (hs_done h \<longrightarrow> hs_done h')"
proof (cases rule: hs_receive_cases [of P h d])
  case same
  with assms show ?thesis by auto
next
  case (point b)
  with assms show ?thesis using handlePoint_terminal [of P h b h' outs] by simp
next
  case (confirm b)
  with assms show ?thesis using handleConfirm_terminal [of h b h' outs] by simp
qed

lemma hs_run_terminal:
  "hs_run P h ds = (h', outs) \<Longrightarrow>
    length (filter terminal outs) = (if hs_done h' \<and> \<not> hs_done h then 1 else 0)
    \<and> (hs_done h \<longrightarrow> hs_done h')"
proof (induction ds arbitrary: h h' outs)
  case Nil
  then show ?case by simp
next
  case (Cons d ds)
  obtain h1 o1 where 1: "hs_receive P h d = (h1, o1)" by (cases "hs_receive P h d")
  obtain h2 o2 where 2: "hs_run P h1 ds = (h2, o2)" by (cases "hs_run P h1 ds")
  show ?case
    using Cons.IH [OF 2] hs_receive_terminal [OF 1] Cons.prems 1 2 by auto
qed

end
