(* ===== verification/HandshakeRuns.thy ===== *)
theory HandshakeRuns
  imports Handshake
begin

text \<open>
  Runs of the handshake: one session against an arbitrary relay, and two sessions joined by a
  relay that delivers what each sends in any order. The second is a step relation over the pair
  of sessions with their inboxes; its runs end after at most four deliveries with both sides
  holding the same key.
\<close>

section \<open>One session against an arbitrary relay\<close>

text \<open>What a session knows comes from frames it was given.\<close>

definition hs_sound :: "'p prims \<Rightarrow> spake2_state \<Rightarrow> jsstr set \<Rightarrow> handshake \<Rightarrow> bool" where
  "hs_sound P st seen h \<longleftrightarrow> hs_state h = st
     \<and> (\<forall>r. hs_result h = Some r \<longrightarrow> (\<exists>d \<in> seen. \<exists>b. carries ''m'' d b \<and> finish P st b = Inr r))
     \<and> (\<forall>b. hs_pending h = Some b \<longrightarrow> (\<exists>d \<in> seen. carries ''c'' d b))"

text \<open>A confirmed key was computed from a received point and vouched for by a received MAC.\<close>

definition vouched :: "'p prims \<Rightarrow> spake2_state \<Rightarrow> jsstr set \<Rightarrow> bytes \<Rightarrow> bool" where
  "vouched P st seen ke \<longleftrightarrow>
     (\<exists>d \<in> seen. \<exists>b. \<exists>c \<in> seen. \<exists>mac r. carries ''m'' d b \<and> finish P st b = Inr r
        \<and> carries ''c'' c mac \<and> mac = res_expected r \<and> ke = res_ke r)"

lemma vouched_mono: "vouched P st seen ke \<Longrightarrow> seen \<subseteq> seen' \<Longrightarrow> vouched P st seen' ke"
  unfolding vouched_def by blast

lemma hs_sound_mono: "hs_sound P st seen h \<Longrightarrow> seen \<subseteq> seen' \<Longrightarrow> hs_sound P st seen' h"
  unfolding hs_sound_def by blast

lemma hs_verify_cases:
  assumes "hs_verify h mac = (h', outs)"
  obtains (none) "hs_result h = None" "h' = h" "outs = []"
  | (bad) r where "hs_result h = Some r" "mac \<noteq> res_expected r" "hs_fail h ''handshake_failed'' = (h', outs)"
  | (good) r where "hs_result h = Some r" "mac = res_expected r" "h' = h\<lparr>hs_done := True\<rparr>"
      "outs = [OnConfirmed (res_ke r)]"
  using assms
  by (auto simp: hs_verify_def verifyPeer_def timingSafeEqual_eq split: option.splits if_splits)

lemma hs_fail_fields:
  assumes "hs_fail h reason = (h', outs)"
  shows "hs_state h' = hs_state h" "hs_result h' = hs_result h" "hs_pending h' = hs_pending h"
    "OnConfirmed ke \<notin> set outs"
  using assms by (auto simp: hs_fail_def split: if_splits)

lemma hs_verify_sound:
  assumes "hs_verify h mac = (h', outs)" and "hs_sound P st seen h"
    and "c \<in> seen" and "carries ''c'' c mac"
  shows "hs_sound P st seen h' \<and> (\<forall>ke. OnConfirmed ke \<in> set outs \<longrightarrow> vouched P st seen ke)"
  using assms(1)
proof (cases rule: hs_verify_cases)
  case none
  with assms show ?thesis by simp
next
  case (bad r)
  with assms(2) show ?thesis
    using hs_fail_fields [OF bad(3)] by (simp add: hs_sound_def)
next
  case (good r)
  with assms(2) obtain d b where "d \<in> seen" "carries ''m'' d b" "finish P st b = Inr r"
    unfolding hs_sound_def by blast
  with assms(3,4) good have "vouched P st seen (res_ke r)"
    unfolding vouched_def by blast
  with assms(2) good show ?thesis by (simp add: hs_sound_def)
qed

lemma handlePoint_sound:
  assumes run: "handlePoint P h b = (h', outs)" and sound: "hs_sound P st seen h"
    and d: "d \<in> seen" "carries ''m'' d b"
  shows "hs_sound P st seen h' \<and> (\<forall>ke. OnConfirmed ke \<in> set outs \<longrightarrow> vouched P st seen ke)"
proof (cases "hs_result h")
  case (Some r)
  with run sound show ?thesis by (simp add: handlePoint_def)
next
  case None
  have st: "hs_state h = st" using sound by (simp add: hs_sound_def)
  show ?thesis
  proof (cases "finish P st b")
    case (Inl e)
    then have "hs_fail h ''handshake_failed'' = (h', outs)"
      using run None st by (simp add: handlePoint_def)
    from hs_fail_fields [OF this] sound show ?thesis by (simp add: hs_sound_def)
  next
    case (Inr r)
    let ?h1 = "h\<lparr>hs_result := Some r\<rparr>"
    have s1: "hs_sound P st seen ?h1"
      using sound d Inr by (auto simp: hs_sound_def)
    show ?thesis
    proof (cases "hs_pending h")
      case pend: None
      with run None st Inr s1 show ?thesis by (auto simp: handlePoint_def Let_def)
    next
      case (Some pc)
      with sound obtain c where "c \<in> seen" "carries ''c'' c pc"
        unfolding hs_sound_def by blast
      moreover have "hs_sound P st seen (?h1\<lparr>hs_pending := None\<rparr>)"
        using s1 by (simp add: hs_sound_def)
      moreover obtain outs2 where "hs_verify (?h1\<lparr>hs_pending := None\<rparr>) pc = (h', outs2)"
        and "outs = SendPake (frame ''c'' (res_confirm r)) # outs2"
        using run None st Inr Some
        by (cases "hs_verify (?h1\<lparr>hs_pending := None\<rparr>) pc")
          (auto simp: handlePoint_def Let_def)
      ultimately show ?thesis using hs_verify_sound by fastforce
    qed
  qed
qed

lemma hs_receive_sound:
  assumes run: "hs_receive P h d = (h', outs)" and sound: "hs_sound P st seen h" and d: "d \<in> seen"
  shows "hs_sound P st seen h' \<and> (\<forall>ke. OnConfirmed ke \<in> set outs \<longrightarrow> vouched P st seen ke)"
proof (cases rule: hs_receive_cases [of P h d])
  case same
  with run sound show ?thesis by simp
next
  case (point b)
  with run sound d show ?thesis using handlePoint_sound by metis
next
  case (confirm b)
  show ?thesis
  proof (cases "hs_result h")
    case None
    with confirm run sound d show ?thesis
      by (auto simp: handleConfirm_def hs_sound_def)
  next
    case (Some r)
    with confirm run have "hs_verify h b = (h', outs)" by (simp add: handleConfirm_def)
    with sound d confirm show ?thesis using hs_verify_sound by metis
  qed
qed

lemma hs_run_sound:
  "hs_run P h ds = (h', outs) \<Longrightarrow> hs_sound P st seen h \<Longrightarrow> set ds \<subseteq> seen \<Longrightarrow>
    hs_sound P st seen h' \<and> (\<forall>ke. OnConfirmed ke \<in> set outs \<longrightarrow> vouched P st seen ke)"
proof (induction ds arbitrary: h h' outs)
  case Nil
  then show ?case by simp
next
  case (Cons d ds)
  obtain h1 o1 where 1: "hs_receive P h d = (h1, o1)" by (cases "hs_receive P h d")
  obtain h2 o2 where 2: "hs_run P h1 ds = (h2, o2)" by (cases "hs_run P h1 ds")
  have s1: "hs_sound P st seen h1 \<and> (\<forall>ke. OnConfirmed ke \<in> set o1 \<longrightarrow> vouched P st seen ke)"
    using hs_receive_sound [OF 1] Cons.prems by simp
  then have "hs_sound P st seen h2 \<and> (\<forall>ke. OnConfirmed ke \<in> set o2 \<longrightarrow> vouched P st seen ke)"
    using Cons.IH [OF 2] Cons.prems by simp
  with s1 Cons.prems 1 2 show ?case by auto
qed

lemma new_handshake_eq:
  assumes "new_handshake P r code hid pos = Inr ((h, outs), pos')"
  obtains st m where "start P r (deriveW P code (text_encode hid))
      (text_encode (js ''anonchat-owner:'' @ hid)) (text_encode (js ''anonchat-joiner:'' @ hid))
      [] None pos = Inr ((st, m), pos')"
    and "h = \<lparr>hs_state = st, hs_result = None, hs_pending = None, hs_done = False\<rparr>"
    and "outs = [SendPake (frame ''m'' m)]"
  using assms by (auto simp: new_handshake_def bind_result_eq_Inr Let_def)

lemma new_handshake_sound:
  "new_handshake P r code hid pos = Inr ((h, outs), pos') \<Longrightarrow> hs_sound P (hs_state h) {} h"
  by (erule new_handshake_eq) (simp add: hs_sound_def)

section \<open>Two sessions and the relay between them\<close>

text \<open>
  Each side has its session, the payloads relayed to it and not yet processed, and the terminal
  outputs it has made. The relay may deliver any waiting payload next.
\<close>

record endpoint =
  ep_hs :: handshake
  ep_inbox :: "jsstr list"
  ep_log :: "hs_output list"

type_synonym net = "role \<Rightarrow> endpoint"

definition other :: "role \<Rightarrow> role" where
  "other r = (if r = RoleA then RoleB else RoleA)"

definition sent_data :: "hs_output list \<Rightarrow> jsstr list" where
  "sent_data outs = concat (map (\<lambda>e. case e of SendPake d \<Rightarrow> [d] | _ \<Rightarrow> []) outs)"

definition deliver :: "'p prims \<Rightarrow> net \<Rightarrow> role \<Rightarrow> jsstr \<Rightarrow> jsstr list \<Rightarrow> net" where
  "deliver P n r d rest =
     (let (h', outs) = hs_receive P (ep_hs (n r)) d in
      n(r := \<lparr>ep_hs = h', ep_inbox = rest, ep_log = ep_log (n r) @ filter terminal outs\<rparr>,
        other r := (n (other r))\<lparr>ep_inbox := ep_inbox (n (other r)) @ sent_data outs\<rparr>))"

inductive net_step :: "'p prims \<Rightarrow> net \<Rightarrow> net \<Rightarrow> bool" for P where
  deliver: "ep_inbox (n r) = xs @ d # ys \<Longrightarrow> net_step P n (deliver P n r d (xs @ ys))"

inductive_cases net_stepE: "net_step P n n'"

definition net_start :: "handshake \<Rightarrow> hs_output list \<Rightarrow> handshake \<Rightarrow> hs_output list \<Rightarrow> net" where
  "net_start hA outsA hB outsB r =
     (if r = RoleA then \<lparr>ep_hs = hA, ep_inbox = sent_data outsB, ep_log = []\<rparr>
      else \<lparr>ep_hs = hB, ep_inbox = sent_data outsA, ep_log = []\<rparr>)"

text \<open>A run of a given number of deliveries.\<close>

inductive net_run :: "'p prims \<Rightarrow> net \<Rightarrow> nat \<Rightarrow> net \<Rightarrow> bool" for P n where
  start: "net_run P n 0 n"
| more: "net_run P n k n' \<Longrightarrow> net_step P n' n'' \<Longrightarrow> net_run P n (Suc k) n''"

lemma other_simps [simp]:
  "other r \<noteq> r" "r \<noteq> other r" "other (other r) = r" "other RoleA = RoleB" "other RoleB = RoleA"
  by (cases r; simp add: other_def)+

lemma sent_data_simps [simp]:
  "sent_data [] = []"
  "sent_data (SendPake d # es) = d # sent_data es"
  "sent_data (OnConfirmed k # es) = sent_data es"
  "sent_data (OnFail x # es) = sent_data es"
  by (simp_all add: sent_data_def)

text \<open>
  How far a side is: \<open>(p, c)\<close> says whether it has processed the peer's point and the peer's
  confirmation. When the two exchanges of points succeed, the session's state, its log and what
  is still on its way to it are functions of the progress of the two sides.
\<close>

type_synonym progress = "bool \<times> bool"

definition hs_at :: "spake2_state \<Rightarrow> spake2_result \<Rightarrow> bytes \<Rightarrow> progress \<Rightarrow> handshake" where
  "hs_at st res mac pc =
     \<lparr>hs_state = st, hs_result = (if fst pc then Some res else None),
      hs_pending = (if \<not> fst pc \<and> snd pc then Some mac else None),
      hs_done = (fst pc \<and> snd pc)\<rparr>"

definition log_at :: "spake2_result \<Rightarrow> progress \<Rightarrow> hs_output list" where
  "log_at res pc = (if fst pc \<and> snd pc then [OnConfirmed (res_ke res)] else [])"

definition waiting :: "jsstr \<Rightarrow> jsstr \<Rightarrow> progress \<Rightarrow> progress \<Rightarrow> jsstr set" where
  "waiting m c mine peers =
     (if fst mine then {} else {m}) \<union> (if fst peers \<and> \<not> snd mine then {c} else {})"

definition side_at ::
    "(role \<Rightarrow> spake2_state) \<Rightarrow> (role \<Rightarrow> spake2_result) \<Rightarrow> (role \<Rightarrow> bytes) \<Rightarrow> role \<Rightarrow> endpoint
      \<Rightarrow> progress \<Rightarrow> progress \<Rightarrow> bool" where
  "side_at st res msg r ep mine peers \<longleftrightarrow>
     ep_hs ep = hs_at (st r) (res r) (res_confirm (res (other r))) mine
     \<and> ep_log ep = log_at (res r) mine
     \<and> distinct (ep_inbox ep)
     \<and> set (ep_inbox ep) =
         waiting (frame ''m'' (msg (other r))) (frame ''c'' (res_confirm (res (other r)))) mine peers
     \<and> (snd mine \<longrightarrow> fst peers)"

definition net_at ::
    "(role \<Rightarrow> spake2_state) \<Rightarrow> (role \<Rightarrow> spake2_result) \<Rightarrow> (role \<Rightarrow> bytes) \<Rightarrow> net \<Rightarrow> (role \<Rightarrow> progress) \<Rightarrow> bool"
  where
  "net_at st res msg n pr \<longleftrightarrow> (\<forall>r. side_at st res msg r (n r) (pr r) (pr (other r)))"

definition progress_count :: "progress \<Rightarrow> nat" where
  "progress_count pc = (if fst pc then 1 else 0) + (if snd pc then 1 else 0)"

lemma frame_kinds_differ: "frame ''m'' a \<noteq> frame ''c'' b"
proof
  assume "frame ''m'' a = frame ''c'' b"
  then have "json_parse (frame ''m'' a) = json_parse (frame ''c'' b)" by simp
  then show False by (simp add: frame_parse)
qed

text \<open>The two sides fit: each computes its result from the other's point, and they match.\<close>

definition fits ::
    "'p prims \<Rightarrow> (role \<Rightarrow> spake2_state) \<Rightarrow> (role \<Rightarrow> spake2_result) \<Rightarrow> (role \<Rightarrow> bytes) \<Rightarrow> bool" where
  "fits P st res msg \<longleftrightarrow>
     (\<forall>r. finish P (st r) (msg (other r)) = Inr (res r)
        \<and> res_confirm (res (other r)) = res_expected (res r)
        \<and> res_ke (res (other r)) = res_ke (res r))"

lemma receive_point:
  assumes "fits P st res msg" and "\<not> fst pc"
  shows "hs_receive P (hs_at (st r) (res r) (res_confirm (res (other r))) pc) (frame ''m'' (msg (other r))) =
    (hs_at (st r) (res r) (res_confirm (res (other r))) (True, snd pc),
     SendPake (frame ''c'' (res_confirm (res r))) # log_at (res r) (True, snd pc))"
  using assms
  by (cases pc)
    (auto simp: fits_def hs_at_def log_at_def hs_receive_def onData_point handlePoint_def hs_verify_def
      verifyPeer_def timingSafeEqual_eq)

lemma receive_confirm:
  assumes "fits P st res msg" and "\<not> snd pc"
  shows "hs_receive P (hs_at (st r) (res r) (res_confirm (res (other r))) pc)
      (frame ''c'' (res_confirm (res (other r)))) =
    (hs_at (st r) (res r) (res_confirm (res (other r))) (fst pc, True), log_at (res r) (fst pc, True))"
  using assms
  by (cases pc)
    (auto simp: fits_def hs_at_def log_at_def hs_receive_def onData_confirm handleConfirm_def
      hs_verify_def verifyPeer_def timingSafeEqual_eq)

lemma log_at_filter [simp]:
  "filter terminal (log_at res pc) = log_at res pc" "sent_data (log_at res pc) = []"
  by (simp_all add: log_at_def)

lemma other_cases: "q = r \<or> q = other r"
  by (cases q; cases r) (simp_all add: other_def)

lemma net_at_split:
  "net_at st res msg n pr \<longleftrightarrow>
    side_at st res msg r (n r) (pr r) (pr (other r))
    \<and> side_at st res msg (other r) (n (other r)) (pr (other r)) (pr r)"
proof
  assume "net_at st res msg n pr"
  then show "side_at st res msg r (n r) (pr r) (pr (other r))
      \<and> side_at st res msg (other r) (n (other r)) (pr (other r)) (pr r)"
    unfolding net_at_def by (metis other_simps(3))
next
  assume both: "side_at st res msg r (n r) (pr r) (pr (other r))
      \<and> side_at st res msg (other r) (n (other r)) (pr (other r)) (pr r)"
  have "side_at st res msg q (n q) (pr q) (pr (other q))" for q
    using other_cases [of q r] both by auto
  then show "net_at st res msg n pr" by (simp add: net_at_def)
qed

text \<open>Every delivery advances one side by one.\<close>

lemma deliver_at:
  assumes "hs_receive P (ep_hs (n r)) d = (h', outs)"
  shows "deliver P n r d rest r =
      \<lparr>ep_hs = h', ep_inbox = rest, ep_log = ep_log (n r) @ filter terminal outs\<rparr>"
    and "deliver P n r d rest (other r) =
      (n (other r))\<lparr>ep_inbox := ep_inbox (n (other r)) @ sent_data outs\<rparr>"
  unfolding deliver_def assms Let_def prod.case by (simp_all only: fun_upd_same fun_upd_other other_simps not_False_eq_True)

lemma deliver_point:
  assumes fit: "fits P st res msg" and at: "net_at st res msg n pr" and new: "\<not> fst (pr r)"
    and inbox: "ep_inbox (n r) = xs @ frame ''m'' (msg (other r)) # ys"
  shows "net_at st res msg (deliver P n r (frame ''m'' (msg (other r))) (xs @ ys)) (pr(r := (True, snd (pr r))))"
proof -
  let ?d = "frame ''m'' (msg (other r))"
  have me: "side_at st res msg r (n r) (pr r) (pr (other r))"
    and peer: "side_at st res msg (other r) (n (other r)) (pr (other r)) (pr r)"
    using at by (simp_all add: net_at_split [of _ _ _ _ _ r])
  have run: "hs_receive P (ep_hs (n r)) ?d =
    (hs_at (st r) (res r) (res_confirm (res (other r))) (True, snd (pr r)), SendPake (frame ''c'' (res_confirm (res r))) # log_at (res r) (True, snd (pr r)))"
    using receive_point [OF fit new] me by (simp add: side_at_def)
  have "set (xs @ ys) = set (ep_inbox (n r)) - {?d}" and "distinct (xs @ ys)"
    using me inbox by (auto simp: side_at_def)
  then have "side_at st res msg r (deliver P n r ?d (xs @ ys) r) (True, snd (pr r)) (pr (other r))"
    using me new frame_kinds_differ
    by (auto simp: deliver_at [where n = n and r = r, OF run] side_at_def waiting_def log_at_def)
  moreover have "side_at st res msg (other r) (deliver P n r ?d (xs @ ys) (other r)) (pr (other r)) (True, snd (pr r))"
    using peer new frame_kinds_differ frame_kinds_differ [symmetric]
    by (auto simp: deliver_at [where n = n and r = r, OF run] side_at_def waiting_def)
  ultimately show ?thesis
    unfolding net_at_split [of _ _ _ _ _ r] by simp
qed

lemma deliver_confirm:
  assumes fit: "fits P st res msg" and at: "net_at st res msg n pr" and new: "\<not> snd (pr r)" "fst (pr (other r))"
    and inbox: "ep_inbox (n r) = xs @ frame ''c'' (res_confirm (res (other r))) # ys"
  shows "net_at st res msg (deliver P n r (frame ''c'' (res_confirm (res (other r)))) (xs @ ys)) (pr(r := (fst (pr r), True)))"
proof -
  let ?d = "frame ''c'' (res_confirm (res (other r)))"
  have me: "side_at st res msg r (n r) (pr r) (pr (other r))"
    and peer: "side_at st res msg (other r) (n (other r)) (pr (other r)) (pr r)"
    using at by (simp_all add: net_at_split [of _ _ _ _ _ r])
  have run: "hs_receive P (ep_hs (n r)) ?d =
    (hs_at (st r) (res r) (res_confirm (res (other r))) (fst (pr r), True), log_at (res r) (fst (pr r), True))"
    using receive_confirm [OF fit new(1)] me by (simp add: side_at_def)
  have "set (xs @ ys) = set (ep_inbox (n r)) - {?d}" and "distinct (xs @ ys)"
    using me inbox by (auto simp: side_at_def)
  then have "side_at st res msg r (deliver P n r ?d (xs @ ys) r) (fst (pr r), True) (pr (other r))"
    using me new frame_kinds_differ
    by (auto simp: deliver_at [where n = n and r = r, OF run] side_at_def waiting_def log_at_def)
  moreover have "side_at st res msg (other r) (deliver P n r ?d (xs @ ys) (other r)) (pr (other r)) (fst (pr r), True)"
    using peer new frame_kinds_differ frame_kinds_differ [symmetric]
    by (auto simp: deliver_at [where n = n and r = r, OF run] side_at_def waiting_def)
  ultimately show ?thesis
    unfolding net_at_split [of _ _ _ _ _ r] by simp
qed

lemma net_step_advances:
  assumes fit: "fits P st res msg" and at: "net_at st res msg n pr" and step: "net_step P n n'"
  obtains r pc where "net_at st res msg n' (pr(r := pc))"
    and "progress_count pc = Suc (progress_count (pr r))"
proof -
  from step obtain r xs d ys where inbox: "ep_inbox (n r) = xs @ d # ys"
    and n': "n' = deliver P n r d (xs @ ys)"
    by (auto elim: net_stepE)
  have "set (ep_inbox (n r)) = waiting (frame ''m'' (msg (other r)))
      (frame ''c'' (res_confirm (res (other r)))) (pr r) (pr (other r))"
    using at by (simp add: net_at_def side_at_def)
  with inbox consider (m) "d = frame ''m'' (msg (other r))" "\<not> fst (pr r)"
    | (c) "d = frame ''c'' (res_confirm (res (other r)))" "\<not> snd (pr r)" "fst (pr (other r))"
    by (auto simp: waiting_def split: if_splits)
  then show thesis
  proof cases
    case m
    with deliver_point [OF fit at m(2)] inbox n' show thesis
      by (intro that) (auto simp: progress_count_def)
  next
    case c
    with deliver_confirm [OF fit at c(2,3)] inbox n' show thesis
      by (intro that) (auto simp: progress_count_def)
  qed
qed

lemma net_run_advances:
  assumes fit: "fits P st res msg" and start: "net_at st res msg n (\<lambda>_. (False, False))"
    and run: "net_run P n k n'"
  shows "\<exists>pr. net_at st res msg n' pr \<and> progress_count (pr RoleA) + progress_count (pr RoleB) = k"
  using run
proof (induction rule: net_run.induct)
  case start
  with assms(2) show ?case by (intro exI [of _ "\<lambda>_. (False, False)"]) (simp add: progress_count_def)
next
  case (more k n' n'')
  then obtain pr where at: "net_at st res msg n' pr"
    and count: "progress_count (pr RoleA) + progress_count (pr RoleB) = k" by blast
  obtain r pc where "net_at st res msg n'' (pr(r := pc))"
    and "progress_count pc = Suc (progress_count (pr r))"
    using net_step_advances [OF fit at more.hyps(2)] .
  with count show ?case
    by (intro exI [of _ "pr(r := pc)"]) (cases r; auto simp del: fun_upd_apply simp: fun_upd_same fun_upd_other)
qed

text \<open>Nothing left to deliver means that both sides have seen everything.\<close>

lemma net_quiet:
  assumes at: "net_at st res msg n pr" and quiet: "\<And>r. ep_inbox (n r) = []"
  shows "pr r = (True, True)"
proof -
  have none: "waiting (frame ''m'' (msg (other q))) (frame ''c'' (res_confirm (res (other q))))
      (pr q) (pr (other q)) = {}" for q
    using at quiet [of q] by (metis net_at_def side_at_def empty_set)
  have "fst (pr q)" for q
    using none [of q] by (auto simp: waiting_def split: if_splits)
  moreover have "fst (pr (other q)) \<longrightarrow> snd (pr q)" for q
    using none [of q] by (auto simp: waiting_def split: if_splits)
  ultimately show ?thesis by (simp add: prod_eq_iff)
qed

lemma progress_bound: "progress_count a + progress_count b \<le> 4"
  by (simp add: progress_count_def)

lemma net_start_at:
  assumes "\<And>r. ep_hs (n r) = \<lparr>hs_state = st r, hs_result = None, hs_pending = None, hs_done = False\<rparr>"
    and "\<And>r. ep_inbox (n r) = [frame ''m'' (msg (other r))]" and "\<And>r. ep_log (n r) = []"
  shows "net_at st res msg n (\<lambda>_. (False, False))"
  using assms by (simp add: net_at_def side_at_def hs_at_def log_at_def waiting_def)

end
