(* ===== verification/HandshakeProperties.thy ===== *)
theory HandshakeProperties
  imports HandshakeRuns
begin

text \<open>
  The contract of spake2.ts and handshake.ts: agreement of two sessions under the same code,
  what a confirmed key rests on against any relay, and what accepting under a different code
  would take.
\<close>

section \<open>Starting two sessions\<close>

lemma new_handshake_fits:
  assumes ok: "curve_ok P"
    and A: "new_handshake P RoleA code hid posA = Inr ((hA, outsA), posA')"
    and B: "new_handshake P RoleB code hid posB = Inr ((hB, outsB), posB')"
    and "finish P (hs_state hA) (st_own (hs_state hB)) \<noteq> Inl CryptoError"
  obtains st res msg where "fits P st res msg"
    and "net_at st res msg (net_start hA outsA hB outsB) (\<lambda>_. (False, False))"
proof -
  obtain sA mA where A': "start P RoleA (deriveW P code (text_encode hid))
      (text_encode (js ''anonchat-owner:'' @ hid)) (text_encode (js ''anonchat-joiner:'' @ hid))
      [] None posA = Inr ((sA, mA), posA')"
    and hA: "hA = \<lparr>hs_state = sA, hs_result = None, hs_pending = None, hs_done = False\<rparr>"
    and oA: "outsA = [SendPake (frame ''m'' mA)]"
    using new_handshake_eq [OF A] .
  obtain sB mB where B': "start P RoleB (deriveW P code (text_encode hid))
      (text_encode (js ''anonchat-owner:'' @ hid)) (text_encode (js ''anonchat-joiner:'' @ hid))
      [] None posB = Inr ((sB, mB), posB')"
    and hB: "hB = \<lparr>hs_state = sB, hs_result = None, hs_pending = None, hs_done = False\<rparr>"
    and oB: "outsB = [SendPake (frame ''m'' mB)]"
    using new_handshake_eq [OF B] .
  have "finish P sA mB \<noteq> Inl CryptoError"
    using assms(4) hA hB start_message(1) [OF B'] by simp
  with finish_agrees [OF ok A' B'] obtain TT
    where fin: "finish P sA mB = Inr (key_schedule P RoleA [] TT)"
      "finish P sB mA = Inr (key_schedule P RoleB [] TT)"
    by auto
  let ?st = "\<lambda>r. if r = RoleA then sA else sB" and ?msg = "\<lambda>r. if r = RoleA then mA else mB"
    and ?res = "\<lambda>r. key_schedule P r [] TT"
  have "fits P ?st ?res ?msg"
    unfolding fits_def
    by (intro allI) (case_tac r; simp add: fin key_schedule_def Let_def)
  moreover have "net_at ?st ?res ?msg (net_start hA outsA hB outsB) (\<lambda>_. (False, False))"
  proof (rule net_start_at)
    fix r
    show "ep_hs (net_start hA outsA hB outsB r) =
        \<lparr>hs_state = ?st r, hs_result = None, hs_pending = None, hs_done = False\<rparr>"
      by (simp add: net_start_def hA hB)
    show "ep_inbox (net_start hA outsA hB outsB r) = [frame ''m'' (?msg (other r))]"
      by (cases r) (simp_all add: net_start_def oA oB)
    show "ep_log (net_start hA outsA hB outsB r) = []"
      by (simp add: net_start_def)
  qed
  ultimately show thesis by (rule that)
qed

text \<open>As long as fewer than four payloads were delivered, one is waiting.\<close>

lemma net_run_extends:
  assumes fit: "fits P st res msg" and at0: "net_at st res msg n (\<lambda>_. (False, False))" and "k \<le> 4"
  shows "\<exists>n'. net_run P n k n'"
  using assms(3)
proof (induction k)
  case 0
  show ?case using net_run.start by blast
next
  case (Suc k)
  then obtain n' where run: "net_run P n k n'" by auto
  obtain pr where at: "net_at st res msg n' pr"
    and count: "progress_count (pr RoleA) + progress_count (pr RoleB) = k"
    using net_run_advances [OF fit at0 run] by blast
  have "\<not> (\<forall>r. ep_inbox (n' r) = [])"
  proof
    assume "\<forall>r. ep_inbox (n' r) = []"
    then have "pr RoleA = (True, True)" "pr RoleB = (True, True)"
      using net_quiet [OF at] by blast+
    with count Suc.prems show False by (simp add: progress_count_def)
  qed
  then obtain r d ys where "ep_inbox (n' r) = [] @ d # ys"
    by (metis append_Nil neq_Nil_conv)
  then show ?case
    using run net_run.more net_step.deliver by metis
qed

text \<open>The key of the MAC that a session of role \<open>r\<close> expects, and that the other role sends.\<close>

definition expected_mac_key :: "role \<Rightarrow> spake2_result \<Rightarrow> bytes" where
  "expected_mac_key r res = (case r of RoleA \<Rightarrow> res_kcB res | RoleB \<Rightarrow> res_kcA res)"

lemma finish_macs:
  assumes "finish P s m = Inr res"
  shows "st_role s = r \<Longrightarrow> res_expected res = hmac_sha256 P (expected_mac_key r res) (res_transcript res)"
    and "st_role s = other r \<Longrightarrow> res_confirm res = hmac_sha256 P (expected_mac_key r res) (res_transcript res)"
  by (rule finish_eq_Inr [OF assms]; cases r; simp add: key_schedule_macs expected_mac_key_def)+

lemma hs_run_pair:
  assumes "\<not> hs_done h" "hs_result h = None" "hs_pending h = None"
  shows "snd (hs_run P h [frame ''m'' b, frame ''c'' mac]) =
      (case finish P (hs_state h) b of Inl _ \<Rightarrow> [OnFail ''handshake_failed'']
       | Inr r \<Rightarrow> [SendPake (frame ''c'' (res_confirm r)),
           if mac = res_expected r then OnConfirmed (res_ke r) else OnFail ''handshake_failed''])"
    and "snd (hs_run P h [frame ''c'' mac, frame ''m'' b]) =
      (case finish P (hs_state h) b of Inl _ \<Rightarrow> [OnFail ''handshake_failed'']
       | Inr r \<Rightarrow> [SendPake (frame ''c'' (res_confirm r)),
           if mac = res_expected r then OnConfirmed (res_ke r) else OnFail ''handshake_failed''])"
  using assms
  by (cases "finish P (hs_state h) b";
      simp add: hs_receive_def onData_point onData_confirm onData_done handler_defs verifyPeer_def
        timingSafeEqual_eq Let_def)+

section \<open>Properties\<close>

text \<open>
  C1: Two sessions for the same code and handshake id, joined by a relay that delivers what they
  send in any order, process at most four payloads; when nothing is left to deliver (which is
  exactly after four), both have confirmed, once, and both hold the same key. The hypothesis on
  \<open>finish\<close> excludes a shared point at infinity.
\<close>

theorem handshake_completes:
  assumes "curve_ok P"
    and "new_handshake P RoleA code hid posA = Inr ((hA, outsA), posA')"
    and "new_handshake P RoleB code hid posB = Inr ((hB, outsB), posB')"
    and "finish P (hs_state hA) (st_own (hs_state hB)) \<noteq> Inl CryptoError"
    and "net_run P (net_start hA outsA hB outsB) k n"
  shows "k \<le> 4 \<and> ((\<forall>r. ep_inbox (n r) = []) = (k = 4))
    \<and> (k = 4 \<longrightarrow> (\<exists>ke. \<forall>r. ep_log (n r) = [OnConfirmed ke]))"
proof -
  obtain st res msg where fit: "fits P st res msg"
    and at0: "net_at st res msg (net_start hA outsA hB outsB) (\<lambda>_. (False, False))"
    using new_handshake_fits [OF assms(1-4)] .
  obtain pr where at: "net_at st res msg n pr"
    and count: "progress_count (pr RoleA) + progress_count (pr RoleB) = k"
    using net_run_advances [OF fit at0 assms(5)] by blast
  have quiet: "(\<forall>r. ep_inbox (n r) = []) = (k = 4)"
  proof
    assume "\<forall>r. ep_inbox (n r) = []"
    then show "k = 4" using net_quiet [OF at] count by (simp add: progress_count_def)
  next
    assume "k = 4"
    then have "pr RoleA = (True, True)" "pr RoleB = (True, True)"
      using count by (auto simp: progress_count_def prod_eq_iff split: if_splits)
    then have "pr r = (True, True)" for r by (cases r) auto
    then show "\<forall>r. ep_inbox (n r) = []"
      using at by (auto simp: net_at_def side_at_def waiting_def)
  qed
  moreover have "\<exists>ke. \<forall>r. ep_log (n r) = [OnConfirmed ke]" if "k = 4"
  proof -
    have "ep_log (n r) = [OnConfirmed (res_ke (res r))]" for r
      using at net_quiet [OF at] quiet that by (simp add: net_at_def side_at_def log_at_def)
    moreover have "res_ke (res r) = res_ke (res RoleA)" for r
      using fit by (cases r) (simp_all add: fits_def, metis other_simps(4))
    ultimately show ?thesis by metis
  qed
  ultimately show ?thesis using count progress_bound by metis
qed

text \<open>
  C22: Whatever the relay feeds to a session, a key it confirms was computed by \<open>finish\<close> from a
  point in a received frame, and a received frame carried exactly the confirmation that this
  result expects.
\<close>

theorem handshake_confirms_only_vouched:
  assumes "new_handshake P r code hid pos = Inr ((h, outs0), pos')"
    and "hs_run P h ds = (h', outs)" and "OnConfirmed ke \<in> set outs"
  shows "\<exists>d \<in> set ds. \<exists>c \<in> set ds. \<exists>point res. carries ''m'' d point
    \<and> finish P (hs_state h) point = Inr res \<and> carries ''c'' c (res_expected res) \<and> ke = res_ke res"
proof -
  have "hs_sound P (hs_state h) (set ds) h"
    using hs_sound_mono [OF new_handshake_sound [OF assms(1)]] by simp
  with hs_run_sound [OF assms(2)] assms(3) have "vouched P (hs_state h) (set ds) ke" by blast
  then show ?thesis unfolding vouched_def by blast
qed

text \<open>
  C23: A session makes at most one of the calls \<open>onConfirmed\<close> and \<open>onFail\<close>, whatever it receives,
  and it is done exactly when it has made one.
\<close>

theorem handshake_ends_once:
  assumes "new_handshake P r code hid pos = Inr ((h, outs0), pos')"
    and "hs_run P h ds = (h', outs)"
  shows "length (filter terminal (outs0 @ outs)) = (if hs_done h' then 1 else 0)"
proof -
  obtain m st where "outs0 = [SendPake (frame ''m'' m)]" and "\<not> hs_done h"
    using new_handshake_eq [OF assms(1)] by (metis handshake.select_convs(4))
  with hs_run_terminal [OF assms(2)] show ?thesis by simp
qed

text \<open>
  C24: The two frames of the peer give the same calls in either order: the own confirmation is
  sent, then the key is confirmed exactly when the MAC is the expected one; a point that
  \<open>finish\<close> rejects ends the session in failure either way.
\<close>

theorem handshake_order_independent:
  assumes "new_handshake P r code hid pos = Inr ((h, outs0), pos')"
  shows "snd (hs_run P h [frame ''m'' b, frame ''c'' mac]) =
      snd (hs_run P h [frame ''c'' mac, frame ''m'' b])
    \<and> snd (hs_run P h [frame ''c'' mac, frame ''m'' b]) =
      (case finish P (hs_state h) b of Inl _ \<Rightarrow> [OnFail ''handshake_failed'']
       | Inr res \<Rightarrow> [SendPake (frame ''c'' (res_confirm res)),
           if mac = res_expected res then OnConfirmed (res_ke res) else OnFail ''handshake_failed''])"
proof -
  have "\<not> hs_done h" "hs_result h = None" "hs_pending h = None"
    using new_handshake_eq [OF assms] by (metis handshake.select_convs)+
  note pair = hs_run_pair [OF this]
  show ?thesis by (simp only: pair simp_thms)
qed

text \<open>
  C21: A session, of either role, confirms against a peer that used another code (other bytes after
  NFKC and UTF-8) only in two ways. Either the two codes give the same password scalar, a
  collision of scrypt modulo the group order under the handshake id as salt; or the peer's MAC
  over one transcript equals the session's over a different one, a collision of HMAC on two given
  distinct messages. The relay may deliver anything, except a confirmation frame whose MAC the
  peer has not computed.
\<close>

theorem wrong_code_needs_collision:
  assumes "0 < curve_order P" "curve_order P \<le> 256 ^ 32"
    and "new_handshake P r code hid pos = Inr ((h, outs0), pos1)"
    and "new_handshake P (other r) code' hid pos' = Inr ((h', outs0'), pos1')"
    and "pw = text_encode (nfkc P code)" "pw' = text_encode (nfkc P code')" "pw \<noteq> pw'"
    and "hs_run P h ds = (h1, outs)" and "OnConfirmed ke \<in> set outs"
    and "\<forall>d \<in> set ds. \<forall>mac. carries ''c'' d mac \<longrightarrow>
      (\<exists>point res. finish P (hs_state h') point = Inr res \<and> mac = res_confirm res)"
  shows "pw \<noteq> pw' \<and> bytesToBigBE (scrypt P pw (text_encode hid) (2 ^ 14) 8 1 48) mod curve_order P
        = bytesToBigBE (scrypt P pw' (text_encode hid) (2 ^ 14) 8 1 48) mod curve_order P
    \<or> (\<exists>p p' res res'. finish P (hs_state h) p = Inr res \<and> finish P (hs_state h') p' = Inr res'
        \<and> res_transcript res \<noteq> res_transcript res'
        \<and> hmac_sha256 P (expected_mac_key r res) (res_transcript res)
          = hmac_sha256 P (expected_mac_key r res') (res_transcript res'))"
proof (cases "deriveW P code (text_encode hid) = deriveW P code' (text_encode hid)")
  case True
  then show ?thesis using assms(5-7) by (simp add: deriveW_def SCALAR_BYTES_def Let_def)
next
  case False
  have "hs_sound P (hs_state h) (set ds) h"
    using hs_sound_mono [OF new_handshake_sound [OF assms(3)]] by simp
  with hs_run_sound [OF assms(8)] assms(9) have "vouched P (hs_state h) (set ds) ke" by blast
  then obtain p res c where res: "finish P (hs_state h) p = Inr res"
    and c: "c \<in> set ds" "carries ''c'' c (res_expected res)"
    unfolding vouched_def by blast
  then obtain p' res' where res': "finish P (hs_state h') p' = Inr res'"
    and mac: "res_expected res = res_confirm res'"
    using assms(10) by blast
  have A: "st_role (hs_state h) = r \<and> st_w (hs_state h) = deriveW P code (text_encode hid)"
    using new_handshake_eq [OF assms(3)] start_message by (metis handshake.select_convs(1))
  have B: "st_role (hs_state h') = other r \<and> st_w (hs_state h') = deriveW P code' (text_encode hid)"
    using new_handshake_eq [OF assms(4)] start_message by (metis handshake.select_convs(1))
  have "res_transcript res \<noteq> res_transcript res'"
  proof (rule different_scalar_different_transcript [OF res res'])
    have "deriveW P x s < 256 ^ SCALAR_BYTES" for x s
      using deriveW_range [OF assms(1), of x s] assms(2) by (simp add: SCALAR_BYTES_def)
    then show "st_w (hs_state h) < 256 ^ SCALAR_BYTES" "st_w (hs_state h') < 256 ^ SCALAR_BYTES"
      using A B by simp_all
  qed (use A B False in simp)
  moreover have "hmac_sha256 P (expected_mac_key r res) (res_transcript res)
      = hmac_sha256 P (expected_mac_key r res') (res_transcript res')"
    using mac A B finish_macs(1) [OF res] finish_macs(2) [OF res'] by simp
  ultimately show ?thesis using res res' by blast
qed

section \<open>The properties at concrete sessions\<close>

definition toy_session :: "role \<Rightarrow> jsstr \<Rightarrow> handshake \<times> hs_output list" where
  "toy_session r code =
     (case new_handshake toy r code (js ''h'') 0 of Inr (x, pos) \<Rightarrow> x | Inl e \<Rightarrow> undefined)"

lemma toy_sessions:
  "new_handshake toy RoleA (js ''A'') (js ''h'') 0 = Inr (toy_session RoleA (js ''A''), 48)"
  "new_handshake toy RoleB (js ''A'') (js ''h'') 0 = Inr (toy_session RoleB (js ''A''), 48)"
  "new_handshake toy RoleB (js ''B'') (js ''h'') 0 = Inr (toy_session RoleB (js ''B''), 48)"
  by code_simp+

lemma toy_states:
  "st_role (hs_state (fst (toy_session RoleA (js ''A'')))) = RoleA"
  "st_scalar (hs_state (fst (toy_session RoleA (js ''A'')))) = 1"
  "st_w (hs_state (fst (toy_session RoleA (js ''A'')))) = 1"
  "st_own (hs_state (fst (toy_session RoleB (js ''A'')))) = [4, 4]"
  by code_simp+

lemma toy_points:
  "point_from_bytes toy [4, 4] = Some 4" "mul toy (N_seed toy) 1 = Some 3"
  "point_multiply toy (point_subtract toy 4 3) 1 = Some 1" "point_to_bytes toy 1 = Some [4, 1]"
  by code_simp+

lemma toy_finish: "\<exists>r. finish toy (hs_state (fst (toy_session RoleA (js ''A'')))) [4, 4] = Inr r"
  by (simp add: finish_def toy_states toy_points Let_def del: js_simps One_nat_def)

theorem handshake_completes_witness:
  "\<exists>n ke. net_run toy (net_start (fst (toy_session RoleA (js ''A''))) (snd (toy_session RoleA (js ''A'')))
      (fst (toy_session RoleB (js ''A''))) (snd (toy_session RoleB (js ''A'')))) 4 n
    \<and> (\<forall>r. ep_log (n r) = [OnConfirmed ke])"
proof -
  obtain hA oA hB oB where A: "toy_session RoleA (js ''A'') = (hA, oA)"
    and B: "toy_session RoleB (js ''A'') = (hB, oB)"
    by (cases "toy_session RoleA (js ''A'')"; cases "toy_session RoleB (js ''A'')")
  have fin: "finish toy (hs_state hA) (st_own (hs_state hB)) \<noteq> Inl CryptoError"
    using toy_finish toy_states(4) A B by auto
  note sessions = toy_sessions(1) [unfolded A] toy_sessions(2) [unfolded B]
  obtain st res msg where "fits toy st res msg"
    and "net_at st res msg (net_start hA oA hB oB) (\<lambda>_. (False, False))"
    using new_handshake_fits [OF toy_curve_ok sessions fin] .
  from net_run_extends [OF this] obtain n where run: "net_run toy (net_start hA oA hB oB) 4 n"
    by auto
  then have "\<exists>ke. \<forall>r. ep_log (n r) = [OnConfirmed ke]"
    using handshake_completes [OF toy_curve_ok sessions fin run] by simp
  with run show ?thesis using A B by auto
qed

lemma toy_session_A:
  obtains h outs r where "toy_session RoleA (js ''A'') = (h, outs)"
    and "new_handshake toy RoleA (js ''A'') (js ''h'') 0 = Inr ((h, outs), 48)"
    and "finish toy (hs_state h) [4, 4] = Inr r"
proof -
  obtain h outs where "toy_session RoleA (js ''A'') = (h, outs)"
    by (cases "toy_session RoleA (js ''A'')")
  then show thesis using toy_sessions(1) toy_finish that by auto
qed

theorem handshake_order_independent_witness:
  "\<exists>h (r :: spake2_result). snd (hs_run toy h [frame ''c'' (res_expected r), frame ''m'' [4, 4]]) =
      [SendPake (frame ''c'' (res_confirm r)), OnConfirmed (res_ke r)]
    \<and> snd (hs_run toy h [frame ''m'' [4, 4], frame ''c'' (res_expected r)]) =
      [SendPake (frame ''c'' (res_confirm r)), OnConfirmed (res_ke r)]"
proof -
  obtain h outs r where A: "new_handshake toy RoleA (js ''A'') (js ''h'') 0 = Inr ((h, outs), 48)"
    and r: "finish toy (hs_state h) [4, 4] = Inr r"
    by (rule toy_session_A)
  show ?thesis
    using handshake_order_independent [OF A, of "[4, 4]" "res_expected r"]
    by (intro exI [of _ h] exI [of _ r]) (simp only: r sum.case if_True refl simp_thms)
qed

lemma toy_confirmed_run:
  obtains h outs0 outs ke ds h' where
    "new_handshake toy RoleA (js ''A'') (js ''h'') 0 = Inr ((h, outs0), 48)"
    "hs_run toy h ds = (h', outs)" "OnConfirmed ke \<in> set outs"
proof -
  obtain h outs r where A: "new_handshake toy RoleA (js ''A'') (js ''h'') 0 = Inr ((h, outs), 48)"
    and r: "finish toy (hs_state h) [4, 4] = Inr r"
    by (rule toy_session_A)
  let ?ds = "[frame ''m'' [4, 4], frame ''c'' (res_expected r)]"
  have "\<not> hs_done h" "hs_result h = None" "hs_pending h = None"
    using new_handshake_eq [OF A] by (metis handshake.select_convs)+
  note pair = hs_run_pair(1) [OF this]
  have "OnConfirmed (res_ke r) \<in> set (snd (hs_run toy h ?ds))"
    by (simp add: r pair del: hs_run.simps)
  with A show thesis using that by (metis prod.collapse)
qed

theorem handshake_confirms_only_vouched_witness:
  "\<exists>(h :: handshake) ds d c point res. d \<in> set ds \<and> c \<in> set ds \<and> carries ''m'' d point
    \<and> finish toy (hs_state h) point = Inr res \<and> carries ''c'' c (res_expected res)"
proof -
  obtain h outs0 outs ke ds h' where
    "new_handshake toy RoleA (js ''A'') (js ''h'') 0 = Inr ((h, outs0), 48)"
    "hs_run toy h ds = (h', outs)" "OnConfirmed ke \<in> set outs"
    by (rule toy_confirmed_run)
  from handshake_confirms_only_vouched [OF this] show ?thesis by blast
qed

theorem handshake_ends_once_witness:
  "\<exists>h outs0 ds. new_handshake toy RoleA (js ''A'') (js ''h'') 0 = Inr ((h, outs0), 48)
    \<and> hs_done (fst (hs_run toy h ds)) \<and> length (filter terminal (outs0 @ snd (hs_run toy h ds))) = 1"
proof -
  obtain h outs0 outs ke ds h' where
    new: "new_handshake toy RoleA (js ''A'') (js ''h'') 0 = Inr ((h, outs0), 48)"
    and run: "hs_run toy h ds = (h', outs)" and ke: "OnConfirmed ke \<in> set outs"
    by (rule toy_confirmed_run)
  note once = handshake_ends_once [OF new run]
  have "filter terminal (outs0 @ outs) \<noteq> []"
    using ke by (auto simp: filter_empty_conv intro!: bexI [of _ "OnConfirmed ke"])
  then have "length (filter terminal (outs0 @ outs)) \<noteq> 0" by simp
  with once have "hs_done h'" by (simp split: if_splits del: length_0_conv)
  with once new run show ?thesis by (intro exI [of _ h] exI [of _ outs0] exI [of _ ds]) simp
qed

text \<open>
  An HMAC that ignores its input makes every confirmation acceptable, so a session for the code
  \<open>A\<close> confirms against a peer with the code \<open>B\<close>: the collision exhibited is that function's.
\<close>

definition weak :: "3 word prims" where
  "weak = toy\<lparr>hmac_sha256 := (\<lambda>k m. [7])\<rparr>"

lemma weak_simps:
  "curve_order weak = 8" "deriveW weak = deriveW toy" "new_handshake weak = new_handshake toy"
proof -
  show "curve_order weak = 8" by (simp add: weak_def toy_def)
  show w: "deriveW weak = deriveW toy"
    by (simp add: fun_eq_iff deriveW_def weak_def)
  have fields: "point_multiply weak = point_multiply toy" "point_base weak = point_base toy"
    "point_to_bytes weak = point_to_bytes toy" "point_add weak = point_add toy"
    by (simp_all add: weak_def)
  have parts: "mul weak = mul toy" "M_seed weak = M_seed toy" "N_seed weak = N_seed toy"
    "randomScalar weak = randomScalar toy"
    by (simp_all add: fun_eq_iff mul_def M_seed_def N_seed_def randomScalar_def random_bytes_def weak_def)
  have start: "start weak = start toy"
    by (intro ext) (simp only: start_def fields parts)
  show "new_handshake weak = new_handshake toy"
    by (intro ext) (simp only: new_handshake_def w start)
qed

lemma carries_frame_iff: "carries t (frame t' b) mac \<longleftrightarrow> t = t' \<and> mac = b"
  by (auto simp: carries_def frame_parse dom_string_def unb64_b64)

lemma weak_points:
  "point_from_bytes weak [4, 7] = Some 7" "mul weak (N_seed weak) 1 = Some 3"
  "point_multiply weak (point_subtract weak 7 3) 1 = Some 4" "point_to_bytes weak 4 = Some [4, 4]"
  "point_from_bytes weak [4, 3] = Some 3" "mul weak (M_seed weak) 2 = Some 4"
  "point_multiply weak (point_subtract weak 3 4) 1 = Some 7" "point_to_bytes weak 7 = Some [4, 7]"
  by code_simp+

lemma weak_states:
  "st_role (hs_state (fst (toy_session RoleB (js ''B'')))) = RoleB"
  "st_scalar (hs_state (fst (toy_session RoleB (js ''B'')))) = 1"
  "st_w (hs_state (fst (toy_session RoleB (js ''B'')))) = 2"
  by code_simp+

lemma weak_macs: "res_expected (key_schedule weak r aad TT) = [7]" "res_confirm (key_schedule weak r aad TT) = [7]"
  by (simp_all add: key_schedule_def Let_def weak_def)

lemma weak_finish:
  "\<exists>r. finish weak (hs_state (fst (toy_session RoleA (js ''A'')))) [4, 7] = Inr r \<and> res_expected r = [7]"
  "\<exists>r. finish weak (hs_state (fst (toy_session RoleB (js ''B'')))) [4, 3] = Inr r \<and> res_confirm r = [7]"
  by (simp_all add: finish_def toy_states weak_states weak_points weak_macs Let_def
      del: js_simps One_nat_def)

lemma weak_scalars:
  "deriveW weak (js ''A'') (text_encode (js ''h'')) \<noteq> deriveW weak (js ''B'') (text_encode (js ''h''))"
  unfolding weak_simps by code_simp

lemma weak_passwords: "text_encode (nfkc weak (js ''A'')) \<noteq> text_encode (nfkc weak (js ''B''))"
  by code_simp

theorem wrong_code_needs_collision_witness:
  "\<exists>hA oA hB oB ds ke. new_handshake weak RoleA (js ''A'') (js ''h'') 0 = Inr ((hA, oA), 48)
    \<and> new_handshake weak RoleB (js ''B'') (js ''h'') 0 = Inr ((hB, oB), 48)
    \<and> OnConfirmed ke \<in> set (snd (hs_run weak hA ds))
    \<and> (\<exists>p p' res res'. finish weak (hs_state hA) p = Inr res \<and> finish weak (hs_state hB) p' = Inr res'
        \<and> res_transcript res \<noteq> res_transcript res'
        \<and> hmac_sha256 weak (expected_mac_key RoleA res) (res_transcript res)
          = hmac_sha256 weak (expected_mac_key RoleA res') (res_transcript res'))"
proof -
  obtain hA oA hB oB where s: "toy_session RoleA (js ''A'') = (hA, oA)" "toy_session RoleB (js ''B'') = (hB, oB)"
    by (cases "toy_session RoleA (js ''A'')"; cases "toy_session RoleB (js ''B'')")
  then have A: "new_handshake weak RoleA (js ''A'') (js ''h'') 0 = Inr ((hA, oA), 48)"
    and B: "new_handshake weak RoleB (js ''B'') (js ''h'') 0 = Inr ((hB, oB), 48)"
    using toy_sessions by (simp_all add: weak_simps)
  obtain rA rB where rA: "finish weak (hs_state hA) [4, 7] = Inr rA" "res_expected rA = [7]"
    and rB: "finish weak (hs_state hB) [4, 3] = Inr rB" "res_confirm rB = [7]"
    using weak_finish s by auto
  let ?ds = "[frame ''m'' [4, 7], frame ''c'' [7]]"
  have "\<not> hs_done hA" "hs_result hA = None" "hs_pending hA = None"
    using new_handshake_eq [OF A] by (metis handshake.select_convs)+
  note pair = hs_run_pair(1) [OF this]
  have ke: "OnConfirmed (res_ke rA) \<in> set (snd (hs_run weak hA ?ds))"
    by (simp add: rA pair del: hs_run.simps)
  have peer: "\<forall>d \<in> set ?ds. \<forall>mac. carries ''c'' d mac \<longrightarrow>
      (\<exists>point rB. finish weak (hs_state hB) point = Inr rB \<and> mac = res_confirm rB)"
    using rB by (auto simp: carries_frame_iff intro!: exI [of _ "[4, 3]"] exI [of _ rB])
  have order: "0 < curve_order weak" "curve_order weak \<le> 256 ^ 32"
    by (simp_all add: weak_simps)
  have B': "new_handshake weak (other RoleA) (js ''B'') (js ''h'') 0 = Inr ((hB, oB), 48)"
    using B by (simp add: other_def)
  have scalars: "bytesToBigBE (scrypt weak (text_encode (nfkc weak (js ''A''))) (text_encode (js ''h'')) (2 ^ 14) 8 1 48)
        mod curve_order weak
      \<noteq> bytesToBigBE (scrypt weak (text_encode (nfkc weak (js ''B''))) (text_encode (js ''h'')) (2 ^ 14) 8 1 48)
        mod curve_order weak"
    using weak_scalars by (simp add: deriveW_def SCALAR_BYTES_def Let_def)
  have "\<exists>p p' res res'. finish weak (hs_state hA) p = Inr res \<and> finish weak (hs_state hB) p' = Inr res'
        \<and> res_transcript res \<noteq> res_transcript res'
        \<and> hmac_sha256 weak (expected_mac_key RoleA res) (res_transcript res)
          = hmac_sha256 weak (expected_mac_key RoleA res') (res_transcript res')"
    using wrong_code_needs_collision [OF order A B' refl refl weak_passwords prod.collapse [symmetric] ke peer] scalars
    by blast
  with A B ke show ?thesis by blast
qed

end
