(* ===== verification/EncodingProperties.thy ===== *)
theory EncodingProperties
  imports Spake2Agreement
begin

text \<open>
  Properties of the encodings: text through UTF-8 and the envelope, byte strings through base64url
  and room-key strings, big-endian integers, the transcript of SPAKE2 and the comparison of
  confirmation codes.
\<close>

section \<open>Text\<close>

lemma length_units_of_scalars: "length (concat (map units_of (scalars s))) = length s"
proof (induction s rule: scalars.induct)
  case (2 u)
  then show ?case using unat_u16_less [of u] by (simp add: units_of_def lone_def)
next
  case (3 u v s)
  then show ?case
    using unat_u16_less [of u] by (auto simp: units_of_def lone_def lead_surrogate_def)
qed simp

lemma well_formed_units_of:
  assumes "is_scalar c"
  shows "well_formed (units_of c @ t) = well_formed t"
proof (cases "c < 0x10000")
  case True
  then have "unat (of_nat c :: u16) = c" by (simp add: unat_of_nat_u16)
  with True assms show ?thesis
    by (cases t) (auto simp: units_of_def is_scalar_def lead_surrogate_def trail_surrogate_def)
next
  case False
  let ?d = "c - 0x10000"
  have d: "?d div 0x400 < 0x400" "?d mod 0x400 < 0x400"
    using assms False by (auto simp: is_scalar_def)
  then have "unat (of_nat (0xD800 + ?d div 0x400) :: u16) = 0xD800 + ?d div 0x400"
    "unat (of_nat (0xDC00 + ?d mod 0x400) :: u16) = 0xDC00 + ?d mod 0x400"
    by (intro unat_of_nat_u16, simp)+
  with d False show ?thesis
    by (simp add: units_of_def lead_surrogate_def trail_surrogate_def)
qed

lemma well_formed_concat_units: "\<forall>c \<in> set cs. is_scalar c \<Longrightarrow> well_formed (concat (map units_of cs))"
  by (induction cs) (simp_all add: well_formed_units_of)

lemma scalars_bom: "scalars (0xFEFF # s) = 0xFEFF # scalars s"
  by (cases s) (simp_all add: lone_def lead_surrogate_def trail_surrogate_def)

lemma utf8_first_encode: "utf8_first (text_encode s) = scalars s"
  unfolding text_encode_def by (rule utf8_roundtrip_scalars) (auto dest: scalars_are_scalar)

lemma text_decode_encode_scalars:
  "\<exists>cs. text_decode (text_encode s) = concat (map units_of cs) \<and> set cs \<subseteq> set (scalars s)"
proof (cases "scalars s")
  case (Cons c r)
  then show ?thesis
    by (intro exI [of _ "if c = 0xFEFF then r else scalars s"])
      (auto simp: text_decode_def utf8_first_encode)
qed (simp add: text_decode_def utf8_first_encode)

text \<open>The decoder gives the text back exactly when the encoder loses nothing and it drops no mark.\<close>

lemma decode_encode_iff:
  "text_decode (text_encode s) = s \<longleftrightarrow> plain_text s"
proof
  assume eq: "text_decode (text_encode s) = s"
  obtain cs where "s = concat (map units_of cs)" "set cs \<subseteq> set (scalars s)"
    using text_decode_encode_scalars [of s] eq by metis
  then have wf: "well_formed s"
    using well_formed_concat_units [of cs] scalars_are_scalar by blast
  have "\<not> (\<exists>r. s = 0xFEFF # r)"
  proof
    assume "\<exists>r. s = 0xFEFF # r"
    then obtain r where s: "s = 0xFEFF # r" ..
    then have "text_decode (text_encode s) = concat (map units_of (scalars r))"
      by (simp add: text_decode_def utf8_first_encode scalars_bom)
    with eq have "length (concat (map units_of (scalars r))) = length s" by simp
    with s show False by (simp add: length_units_of_scalars)
  qed
  with wf show "plain_text s" by (auto simp: plain_text_def split: list.split)
qed (rule text_roundtrip)

text \<open>
  C36: What \<open>encryptMessage\<close> seals under a 32-byte key always opens under it with
  \<open>decryptMessage\<close>, and gives the text that was typed if and only if that has no unpaired surrogate
  and does not begin with a byte-order mark; every other text comes out changed.
\<close>

theorem text_survives_iff:
  assumes "aead_ok P" and "length key = 32"
  shows "(\<exists>t. decryptMessage P key (fst (encryptMessage P key s pos)) = Inr t)
    \<and> (decryptMessage P key (fst (encryptMessage P key s pos)) = Inr s \<longleftrightarrow> plain_text s)"
proof -
  have "decryptMessage P key (fst (encryptMessage P key s pos)) = Inr (text_decode (text_encode s))"
    using open_seal_bytes [OF assms(1)] assms(2) by (simp add: decryptMessage_def encryptMessage_def KEY_LEN_def bind_result_def)
  then show ?thesis by (simp add: decode_encode_iff)
qed

theorem text_survives_iff_witness:
  "decryptMessage toy (replicate 32 1) (fst (encryptMessage toy (replicate 32 1) (js ''hi'') 0)) = Inr (js ''hi'')
    \<and> decryptMessage toy (replicate 32 1) (fst (encryptMessage toy (replicate 32 1) (0xFEFF # js ''hi'') 0))
      \<noteq> Inr (0xFEFF # js ''hi'')"
proof -
  have "plain_text (js ''hi'')" "\<not> plain_text (0xFEFF # js ''hi'')" by code_simp+
  then show ?thesis
    using text_survives_iff [OF toy_aead_ok, of "replicate 32 1" "js ''hi''" 0]
      text_survives_iff [OF toy_aead_ok, of "replicate 32 1" "0xFEFF # js ''hi''" 0] by simp
qed

section \<open>Byte strings\<close>

text \<open>
  C38: Every byte string is recovered from its base64url form and from its base64 form, and the
  base64url form consists of letters, digits, \<open>-\<close> and \<open>_\<close> only (no padding), so that it can stand
  in a link.
\<close>

theorem b64url_lossless:
  "b64urlToBytes (bytesToB64url b) = Inr b \<and> b64ToBytes (bytesToB64 b) = Inr b
    \<and> url_text (bytesToB64url b)"
  by (simp add: b64url_roundtrip b64_roundtrip bytesToB64url_url_text)

text \<open>
  C37: A key string is read back as the key exactly when it has 32 bytes; a string that encodes
  any other number of bytes is refused, and nothing \<open>keyFromString\<close> accepts has another length.
\<close>

theorem key_string_checked:
  "keyFromString (keyToString b) =
      (if length b = 32 then Inr b else Inl (MessageError ''invalid room key length''))
    \<and> (\<forall>s k. keyFromString s = Inr k \<longrightarrow> length k = 32)"
proof -
  have "b64ToBytes (b64urlToB64 (keyToString b)) = Inr b"
    unfolding keyToString_url by (fold b64urlToBytes_def) (rule b64url_roundtrip)
  then have "keyFromString (keyToString b) =
      (if length b = 32 then Inr b else Inl (MessageError ''invalid room key length''))"
    by (simp add: keyFromString_def KEY_LEN_def)
  moreover have "length k = 32" if "keyFromString s = Inr k" for s k
    using keyFromString_length [OF that] by (simp add: KEY_LEN_def)
  ultimately show ?thesis by blast
qed

theorem key_string_checked_witness:
  "keyFromString (keyToString (replicate 32 7)) = Inr (replicate 32 7)
    \<and> keyFromString (keyToString [7]) = Inl (MessageError ''invalid room key length'')"
  using key_string_checked [of "replicate 32 7"] key_string_checked [of "[7]"] by simp

section \<open>Integers, transcripts, comparison\<close>

lemma bytesToBigBE_less: "bytesToBigBE b < 256 ^ length b"
proof (induction b rule: rev_induct)
  case Nil
  then show ?case by (simp add: bytesToBigBE_def)
next
  case (snoc x b)
  have "unat x < 256" by (rule unat_byte_less)
  then show ?case using snoc by (simp add: bytesToBigBE_snoc)
qed

lemma bigToBytesBE_back: "bigToBytesBE (bytesToBigBE b) (length b) = b"
proof (induction b rule: rev_induct)
  case Nil
  then show ?case by (simp add: bigToBytesBE_def)
next
  case (snoc x b)
  have "unat x < 256" by (rule unat_byte_less)
  then have "(bytesToBigBE b * 256 + unat x) div 256 = bytesToBigBE b"
    and "(bytesToBigBE b * 256 + unat x) mod 256 = unat x" by simp_all
  then show ?case using snoc by (simp add: bigToBytesBE_Suc bytesToBigBE_snoc)
qed

text \<open>
  The big-endian form of a number has the requested length and reads back as the number
  modulo 256 to that length; every byte string is the form of its own value.
\<close>

theorem big_endian_exact:
  "length (bigToBytesBE n len) = len \<and> bytesToBigBE (bigToBytesBE n len) = n mod 256 ^ len
    \<and> bigToBytesBE (bytesToBigBE b) (length b) = b \<and> bytesToBigBE b < 256 ^ length b"
  by (simp add: bytesToBigBE_bigToBytesBE bigToBytesBE_back bytesToBigBE_less)

text \<open>
  C32: A SPAKE2 transcript determines every one of its six parts (identities, both points, the
  shared element, the password scalar), as long as each part is shorter than 2 to the 64 bytes.
\<close>

theorem transcript_unambiguous:
  assumes "\<forall>x \<in> {idA, idB, pA, pB, k, w, idA', idB', pA', pB', k', w'}. lv_fits x"
    and "transcript_of idA idB pA pB k w = transcript_of idA' idB' pA' pB' k' w'"
  shows "(idA, idB, pA, pB, k, w) = (idA', idB', pA', pB', k', w')"
  using transcript_inject [OF assms] by simp

theorem transcript_unambiguous_witness:
  "transcript_of [] [] [1] [2] [3] [4] \<noteq> transcript_of [] [] [1] [2] [3, 4] []
    \<and> transcript_of [1] [] [1] [2] [3] [4] \<noteq> transcript_of [] [1] [1] [2] [3] [4]"
  using transcript_unambiguous [of "[]" "[]" "[1]" "[2]" "[3]" "[4]" "[]" "[]" "[1]" "[2]" "[3, 4]" "[]"]
    transcript_unambiguous [of "[1]" "[]" "[1]" "[2]" "[3]" "[4]" "[]" "[1]" "[1]" "[2]" "[3]" "[4]"]
  by (auto simp: lv_fits_def)

text \<open>The comparison of confirmation codes, which looks at every byte, decides equality.\<close>

theorem timingSafeEqual_decides:
  "timingSafeEqual a b \<longleftrightarrow> a = b"
  by (rule timingSafeEqual_eq)

text \<open>
  C33: The ephemeral scalar lies strictly between zero and the group order, so that no
  multiplication by it throws, and takes 48 random bytes; the password scalar of every code and
  salt is below the order.
\<close>

theorem scalars_in_range:
  assumes "curve_ok P"
  shows "0 < fst (randomScalar P pos) \<and> fst (randomScalar P pos) < curve_order P
    \<and> snd (randomScalar P pos) = pos + 48
    \<and> point_multiply P p (fst (randomScalar P pos)) \<noteq> None
    \<and> deriveW P code salt < curve_order P \<and> mul P p (deriveW P code salt) \<noteq> None"
proof -
  have k: "0 < fst (randomScalar P pos)" "fst (randomScalar P pos) < curve_order P"
    using randomScalar_range [OF assms] by auto
  moreover have "point_multiply P p (fst (randomScalar P pos)) \<noteq> None"
    using curve_okD(4) [OF assms k] by auto
  moreover have w: "deriveW P code salt < curve_order P"
    using curve_okD(1) [OF assms] by (intro deriveW_range) simp
  moreover have "mul P p (deriveW P code salt) \<noteq> None"
    using mul_defined [OF assms w] by auto
  ultimately show ?thesis
    by (simp add: randomScalar_def split_beta Let_def SCALAR_BYTES_def)
qed

theorem scalars_in_range_witness:
  "0 < fst (randomScalar toy 0) \<and> fst (randomScalar toy 0) < 8 \<and> deriveW toy (js ''K7'') [] < 8"
  using scalars_in_range [OF toy_curve_ok, of 0 1 "js ''K7''" "[]"] by (simp add: toy_def)

text \<open>
  C31: The two parties of SPAKE2 with the same password scalar and identities either both fail (on
  a shared point at infinity) or agree: the same shared key, and each accepts the confirmation
  code of the other.
\<close>

theorem spake2_agrees:
  assumes "curve_ok P"
    and "start P RoleA w idA idB aad ovA posA = Inr ((sA, mA), posA')"
    and "start P RoleB w idA idB aad ovB posB = Inr ((sB, mB), posB')"
  shows "(finish P sA mB = Inl CryptoError \<and> finish P sB mA = Inl CryptoError)
    \<or> (\<exists>rA rB. finish P sA mB = Inr rA \<and> finish P sB mA = Inr rB \<and> res_ke rA = res_ke rB
        \<and> verifyPeer rA (res_confirm rB) \<and> verifyPeer rB (res_confirm rA))"
  using finish_agrees [OF assms] key_schedule_agrees by blast

theorem spake2_agrees_witness:
  "\<exists>rA rB. finish toy \<lparr>st_role = RoleA, st_scalar = 1, st_w = 1, st_own = [4, 3], st_idA = [], st_idB = [], st_aad = []\<rparr> [4, 4] = Inr rA
    \<and> finish toy \<lparr>st_role = RoleB, st_scalar = 1, st_w = 1, st_own = [4, 4], st_idA = [], st_idB = [], st_aad = []\<rparr> [4, 3] = Inr rB
    \<and> res_ke rA = res_ke rB \<and> verifyPeer rA (res_confirm rB) \<and> verifyPeer rB (res_confirm rA)"
proof -
  let ?sA = "\<lparr>st_role = RoleA, st_scalar = 1, st_w = 1, st_own = [4, 3], st_idA = [], st_idB = [], st_aad = []\<rparr>"
  let ?sB = "\<lparr>st_role = RoleB, st_scalar = 1, st_w = 1, st_own = [4, 4], st_idA = [], st_idB = [], st_aad = []\<rparr>"
  have A: "start toy RoleA 1 [] [] [] (Some 1) 0 = Inr ((?sA, [4, 3]), 0)" by code_simp
  have B: "start toy RoleB 1 [] [] [] (Some 1) 0 = Inr ((?sB, [4, 4]), 0)" by code_simp
  have "point_from_bytes toy [4, 4] = Some 4" "mul toy (N_seed toy) 1 = Some 3"
    "point_multiply toy (point_subtract toy 4 3) 1 = Some 1" "point_to_bytes toy 1 = Some [4, 1]"
    by code_simp+
  then have "finish toy ?sA [4, 4] \<noteq> Inl CryptoError"
    by (simp add: finish_def Let_def del: One_nat_def)
  with spake2_agrees [OF toy_curve_ok A B] show ?thesis by (elim disjE conjE) (erule notE, assumption)
qed

end
