(* ===== verification/SealProperties.thy ===== *)
theory SealProperties
  imports Crypto
begin

text \<open>
  Properties of the sealed envelopes of web/src/crypto.ts: what opens, what is refused, and how
  public keys and room keys travel inside them.
\<close>

text \<open>
  C30: What is sealed under a 32-byte key is opened under it, as bytes and, for a text that UTF-8
  carries unchanged, as text; the envelope is one version byte, the 24 random bytes drawn for it
  and a ciphertext 16 bytes longer than the content.
\<close>

theorem envelope_opens:
  assumes "aead_ok P" and "length key = 32"
  shows "openBytes P key (fst (sealBytes P key pt pos)) = Inr pt
    \<and> (plain_text t \<longrightarrow> decryptMessage P key (fst (encryptMessage P key t pos)) = Inr t)
    \<and> (\<exists>ct. b64ToBytes (fst (sealBytes P key pt pos)) = Inr (1 # map (random_byte P) [pos..<pos + 24] @ ct)
         \<and> length ct = length pt + 16)
    \<and> snd (sealBytes P key pt pos) = pos + 24"
proof -
  have key: "length key = KEY_LEN" using assms(2) by (simp add: KEY_LEN_def)
  let ?n = "fst (random_bytes P NONCE_LEN pos)"
  have "length ?n = 24" by (simp add: NONCE_LEN_def)
  then have "length (aead_encrypt P key ?n pt) = length pt + 16"
    using aead_okD(2) [OF assms] by blast
  moreover have "b64ToBytes (fst (sealBytes P key pt pos)) = Inr (1 # ?n @ aead_encrypt P key ?n pt)"
    by (simp add: seal_layout b64_roundtrip VERSION_def)
  ultimately show ?thesis
    using assms key by (simp add: open_seal_bytes decrypt_encrypt) (simp add: random_bytes_def NONCE_LEN_def)
qed

theorem envelope_opens_witness:
  "openBytes toy (replicate 32 3) (fst (sealBytes toy (replicate 32 3) [1, 2] 0)) = Inr [1, 2]
    \<and> decryptMessage toy (replicate 32 3) (fst (encryptMessage toy (replicate 32 3) (js ''hi'') 0)) = Inr (js ''hi'')"
proof -
  have "plain_text (js ''hi'')" by code_simp
  then show ?thesis
    using envelope_opens [OF toy_aead_ok, of "replicate 32 3" "[1, 2]" 0 "js ''hi''"] by simp
qed

text \<open>
  C29: An envelope opens exactly when it is base64 text of the version byte 1, a 24-byte nonce and
  at least 16 bytes of ciphertext that the AEAD accepts under the key; every other input is an
  error, never a content.
\<close>

theorem opens_only_valid_envelopes:
  "openBytes P key env = Inr pt \<longleftrightarrow>
    (\<exists>nonce ct. b64ToBytes env = Inr (1 # nonce @ ct) \<and> length nonce = 24 \<and> 16 \<le> length ct
      \<and> aead_decrypt P key nonce ct = Some pt)"
proof
  assume "openBytes P key env = Inr pt"
  then obtain buf where buf: "b64ToBytes env = Inr buf" "\<not> length buf < 41" "buf ! 0 = 1"
    and dec: "aead_decrypt P key (take 24 (drop 1 buf)) (drop 25 buf) = Some pt"
    by (auto simp: openBytes_def bind_result_eq_Inr NONCE_LEN_def TAG_LEN_def VERSION_def Let_def
        split: if_splits option.splits)
  then obtain rest where rest: "buf = 1 # rest" by (cases buf) auto
  then have "buf = 1 # take 24 rest @ drop 24 rest" by simp
  with buf dec rest show "\<exists>nonce ct. b64ToBytes env = Inr (1 # nonce @ ct) \<and> length nonce = 24
      \<and> 16 \<le> length ct \<and> aead_decrypt P key nonce ct = Some pt"
    by (intro exI [of _ "take 24 rest"] exI [of _ "drop 24 rest"]) simp
next
  assume "\<exists>nonce ct. b64ToBytes env = Inr (1 # nonce @ ct) \<and> length nonce = 24 \<and> 16 \<le> length ct
      \<and> aead_decrypt P key nonce ct = Some pt"
  then show "openBytes P key env = Inr pt"
    by (auto simp: openBytes_def NONCE_LEN_def TAG_LEN_def VERSION_def Let_def)
qed

text \<open>
  A public key sealed under a handshake secret is opened under the same secret, whatever the
  key's bytes are.
\<close>

theorem peer_key_delivered:
  assumes "aead_ok P" and "hkdf_ok P"
  shows "openUnderKe P ke (fst (sealUnderKe P ke pub pos)) = Inr pub"
  using assms by (rule open_seal_under_ke)

theorem peer_key_delivered_witness:
  "openUnderKe toy [1, 2, 3] (fst (sealUnderKe toy [1, 2, 3] [9, 8, 7] 5)) = Inr [9, 8, 7]"
  by (rule peer_key_delivered [OF toy_aead_ok toy_hkdf_ok])

text \<open>
  C39: A room key sealed by one member for another's public key is opened by the other with the
  sender's public key, and sealing does not fail between honest key pairs.
\<close>

theorem room_key_delivered:
  assumes "aead_ok P" "hkdf_ok P" "x25519_ok P"
    and "fst (generateKeyPair P posA) = a" "fst (generateKeyPair P posB) = b" "length key = 32"
  shows "\<exists>env. sealRoomKey P (kp_priv a) (kp_pub b) key pos = Inr (env, pos + 24)
    \<and> openRoomKey P (kp_priv b) (kp_pub a) env = Inr key"
  using open_seal_room_key [OF assms(1-3), of "kp_priv a" "kp_priv b" key pos] assms(4-6)
  by (auto simp: generateKeyPair_def split_beta KEY_LEN_def NONCE_LEN_def)

theorem room_key_delivered_witness:
  "\<exists>env. sealRoomKey toy (kp_priv (fst (generateKeyPair toy 0))) (kp_pub (fst (generateKeyPair toy 32)))
      (replicate 32 5) 64 = Inr (env, 88)
    \<and> openRoomKey toy (kp_priv (fst (generateKeyPair toy 32))) (kp_pub (fst (generateKeyPair toy 0))) env
      = Inr (replicate 32 5)"
  using room_key_delivered [OF toy_aead_ok toy_hkdf_ok toy_x25519_ok refl refl, of "replicate 32 5" 0 32 64]
  by simp

text \<open>
  The tag that names a key epoch on the wire is eleven URL-safe characters, and equal tags
  mean equal derived bytes, so that two keys share a tag only if their derivations collide.
\<close>

theorem key_tag:
  assumes "hkdf_ok P"
  shows "length (keyId P key) = 11 \<and> url_text (keyId P key)
    \<and> (keyId P key = keyId P key' \<longleftrightarrow> hkdf_sha256 P key [] KEYID_INFO 8 = hkdf_sha256 P key' [] KEYID_INFO 8)"
proof -
  have "bytesToB64url a = bytesToB64url b \<longleftrightarrow> a = b" for a b
    by (rule base64url.enc_inject) simp_all
  moreover have "length (keyId P key) = 11"
    by (simp add: keyId_def bytesToB64url_eq replace_all_def b64_sextet_text_def length_sextets_of
        hkdf_okD [OF assms])
  ultimately show ?thesis
    by (simp add: keyId_def bytesToB64url_url_text)
qed

theorem key_tag_witness:
  "length (keyId toy (replicate 32 1)) = 11 \<and> keyId toy (replicate 32 1) \<noteq> keyId toy (replicate 32 2)"
  using key_tag [OF toy_hkdf_ok, of "replicate 32 1" "replicate 32 2"]
  by (simp add: toy_def toy_pad_def)

end
