(* ===== verification/JsMap.thy ===== *)
theory JsMap
  imports Prelude
begin

text \<open>
  The JavaScript \<open>Map\<close> and \<open>Set\<close> of the client: iteration follows the order of first insertion,
  \<open>set\<close> on a present key keeps its place. A \<open>Map\<close> is an association list with distinct keys, a
  \<open>Set\<close> a distinct list. The interface the client's proofs use is the locale \<open>keyed_store\<close>.
\<close>

section \<open>Operations\<close>

type_synonym ('k, 'v) js_map = "('k \<times> 'v) list"

fun map_set :: "'k \<Rightarrow> 'v \<Rightarrow> ('k, 'v) js_map \<Rightarrow> ('k, 'v) js_map" where
  "map_set k v [] = [(k, v)]"
| "map_set k v ((k', v') # m) = (if k' = k then (k, v) # m else (k', v') # map_set k v m)"

definition map_delete :: "'k \<Rightarrow> ('k, 'v) js_map \<Rightarrow> ('k, 'v) js_map" where
  "map_delete k m = [e \<leftarrow> m. fst e \<noteq> k]"

definition map_has :: "'k \<Rightarrow> ('k, 'v) js_map \<Rightarrow> bool" where
  "map_has k m \<longleftrightarrow> map_of m k \<noteq> None"

definition set_add :: "'a \<Rightarrow> 'a list \<Rightarrow> 'a list" where
  "set_add x s = (if x \<in> set s then s else s @ [x])"

definition set_of_list :: "'a list \<Rightarrow> 'a list" where
  "set_of_list xs = foldl (\<lambda>s x. set_add x s) [] xs"

definition set_delete :: "'a \<Rightarrow> 'a list \<Rightarrow> 'a list" where
  "set_delete x s = [y \<leftarrow> s. y \<noteq> x]"

section \<open>The interface\<close>

locale keyed_store =
  fixes lookup :: "'s \<Rightarrow> 'k \<Rightarrow> 'v option"
    and put :: "'k \<Rightarrow> 'v \<Rightarrow> 's \<Rightarrow> 's"
    and del :: "'k \<Rightarrow> 's \<Rightarrow> 's"
  assumes lookup_put: "lookup (put k v s) j = (if j = k then Some v else lookup s j)"
    and lookup_del: "lookup (del k s) j = (if j = k then None else lookup s j)"
begin

lemma lookup_put_same [simp]: "lookup (put k v s) k = Some v"
  by (simp add: lookup_put)

lemma lookup_del_same [simp]: "lookup (del k s) k = None"
  by (simp add: lookup_del)

lemma lookup_del_put: "lookup (del k (put k v s)) = lookup (del k s)"
  by (rule ext) (simp add: lookup_put lookup_del)

lemma lookup_puts:
  "distinct (map fst kvs) \<Longrightarrow>
    lookup (foldl (\<lambda>s (k, v). put k v s) s kvs) j =
      (case map_of kvs j of Some v \<Rightarrow> Some v | None \<Rightarrow> lookup s j)"
proof (induction kvs arbitrary: s)
  case Nil
  then show ?case by simp
next
  case (Cons kv kvs)
  then show ?case
    by (cases kv) (auto simp: lookup_put map_of_eq_None_iff rev_image_eqI split: option.splits)
qed

lemma lookup_dels:
  "lookup (foldl (\<lambda>s k. del k s) s ks) j = (if j \<in> set ks then None else lookup s j)"
  by (induction ks arbitrary: s) (auto simp: lookup_del)

end

lemma map_of_map_set: "map_of (map_set k v m) j = (if j = k then Some v else map_of m j)"
  by (induction m) auto

lemma map_of_map_delete: "map_of (map_delete k m) j = (if j = k then None else map_of m j)"
  by (induction m) (auto simp: map_delete_def)

interpretation js_map: keyed_store map_of map_set map_delete
  by unfold_locales (simp_all add: map_of_map_set map_of_map_delete)

section \<open>Keys and elements\<close>

lemma keys_map_set: "fst ` set (map_set k v m) = insert k (fst ` set m)"
  by (induction k v m rule: map_set.induct) (auto simp: insert_commute)

lemma distinct_map_set: "distinct (map fst m) \<Longrightarrow> distinct (map fst (map_set k v m))"
  by (induction k v m rule: map_set.induct) (auto simp: keys_map_set)

lemma keys_map_delete: "fst ` set (map_delete k m) = fst ` set m - {k}"
  by (auto simp: map_delete_def)

lemma distinct_map_delete: "distinct (map fst m) \<Longrightarrow> distinct (map fst (map_delete k m))"
  by (simp add: map_delete_def distinct_map_filter)

lemma set_map_set: "set (map_set k v m) \<subseteq> insert (k, v) (set m)"
  by (induction k v m rule: map_set.induct) (auto split: if_splits)

lemma set_map_delete: "set (map_delete k m) \<subseteq> set m"
  by (auto simp: map_delete_def)

text \<open>A condition on every stored value.\<close>

definition values_sat :: "('v \<Rightarrow> bool) \<Rightarrow> ('k, 'v) js_map \<Rightarrow> bool" where
  "values_sat Q m \<longleftrightarrow> (\<forall>e \<in> set m. Q (snd e))"

lemma values_sat_empty [simp]: "values_sat Q []"
  by (simp add: values_sat_def)

lemma values_sat_set [intro, simp]: "values_sat Q m \<Longrightarrow> Q v \<Longrightarrow> values_sat Q (map_set k v m)"
  using set_map_set [of k v m] by (fastforce simp: values_sat_def)

lemma values_sat_delete [intro, simp]: "values_sat Q m \<Longrightarrow> values_sat Q (map_delete k m)"
  using set_map_delete [of k m] by (auto simp: values_sat_def)

lemma values_sat_get: "values_sat Q m \<Longrightarrow> map_of m k = Some v \<Longrightarrow> Q v"
  unfolding values_sat_def using map_of_SomeD by fastforce

lemma values_sat_mono: "values_sat Q m \<Longrightarrow> (\<And>v. Q v \<Longrightarrow> R v) \<Longrightarrow> values_sat R m"
  by (auto simp: values_sat_def)

lemma set_set_add [simp]: "set (set_add x s) = insert x (set s)"
  by (auto simp: set_add_def)

lemma distinct_set_add [simp]: "distinct (set_add x s) = distinct s"
  by (auto simp: set_add_def)

lemma set_foldl_add: "set (foldl (\<lambda>s x. set_add x s) s xs) = set s \<union> set xs"
  by (induction xs arbitrary: s) auto

lemma distinct_foldl_add: "distinct (foldl (\<lambda>s x. set_add x s) s xs) = distinct s"
  by (induction xs arbitrary: s) auto

lemma set_set_of_list [simp]: "set (set_of_list xs) = set xs"
  by (simp add: set_of_list_def set_foldl_add)

lemma distinct_set_of_list [simp]: "distinct (set_of_list xs)"
  by (simp add: set_of_list_def distinct_foldl_add)

lemma set_set_delete [simp]: "set (set_delete x s) = set s - {x}"
  by (auto simp: set_delete_def)

end
