(* ===== verification/Protocol.thy ===== *)
theory Protocol
  imports Json JsonRoundtrip JsMap
begin

text \<open>
  web/src/protocol.ts: the frames exchanged with the relay. Outgoing frames are a datatype with
  the constructors of the union \<open>ClientMsg\<close>, written with \<open>JSON.stringify\<close> in the member order of
  the literals at the call sites. Incoming frames are cast, not checked, by the client: a field
  whose value is not of the declared type is read as absent here.
\<close>

section \<open>Types\<close>

datatype member_role = Owner | Member

record member_info =
  mi_id :: jsstr
  mi_nick :: jsstr
  mi_role :: member_role

datatype client_msg =
    Create (create_nick: jsstr) (create_session: jsstr)
  | Redeem (redeem_token: jsstr) (redeem_nick: jsstr) (redeem_session: jsstr)
  | Msg (msg_body: jsstr)
  | Leave
  | Invite
  | Pake jsstr jsstr
  | KeyDeliver jsstr jsstr
  | MemberKey jsstr jsstr
  | Enter jsstr
  | Rekey (rekey_target: jsstr) (rekey_data: jsstr)
  | Transfer jsstr
  | Kick jsstr
  | Roster (roster_data: jsstr)
  | FileStart jsstr jsstr jsstr
  | FileChunk jsstr int jsstr
  | FileEnd jsstr
  | FileAbort jsstr

record server_msg =
  sm_type :: jsstr
  sm_room :: "jsstr option"
  sm_memberId :: "jsstr option"
  sm_members :: "member_info list option"
  sm_nick :: "jsstr option"
  sm_body :: "jsstr option"
  sm_reason :: "jsstr option"
  sm_error :: "jsstr option"
  sm_token :: "jsstr option"
  sm_handshake :: "jsstr option"
  sm_data :: "jsstr option"
  sm_transfer :: "jsstr option"
  sm_keyId :: "jsstr option"
  sm_index :: "json option" \<comment> \<open>a number: \<open>JNum\<close> or \<open>JDec\<close>\<close>

section \<open>Outgoing frames\<close>

fun client_msg_fields :: "client_msg \<Rightarrow> string \<times> (string \<times> json) list" where
  "client_msg_fields (Create n s) = (''create'', [(''nick'', JStr n), (''session'', JStr s)])"
| "client_msg_fields (Redeem t n s) =
     (''redeem'', [(''token'', JStr t), (''nick'', JStr n), (''session'', JStr s)])"
| "client_msg_fields (Msg b) = (''msg'', [(''body'', JStr b)])"
| "client_msg_fields Leave = (''leave'', [])"
| "client_msg_fields Invite = (''invite'', [])"
| "client_msg_fields (Pake h d) = (''pake'', [(''handshake'', JStr h), (''data'', JStr d)])"
| "client_msg_fields (KeyDeliver h d) = (''key_deliver'', [(''handshake'', JStr h), (''data'', JStr d)])"
| "client_msg_fields (MemberKey h d) = (''member_key'', [(''handshake'', JStr h), (''data'', JStr d)])"
| "client_msg_fields (Enter h) = (''enter'', [(''handshake'', JStr h)])"
| "client_msg_fields (Rekey t d) = (''rekey'', [(''target'', JStr t), (''data'', JStr d)])"
| "client_msg_fields (Transfer t) = (''transfer'', [(''target'', JStr t)])"
| "client_msg_fields (Kick t) = (''kick'', [(''target'', JStr t)])"
| "client_msg_fields (Roster d) = (''roster'', [(''data'', JStr d)])"
| "client_msg_fields (FileStart t k d) =
     (''file_start'', [(''transfer'', JStr t), (''keyId'', JStr k), (''data'', JStr d)])"
| "client_msg_fields (FileChunk t i d) =
     (''file_chunk'', [(''transfer'', JStr t), (''index'', JNum i), (''data'', JStr d)])"
| "client_msg_fields (FileEnd t) = (''file_end'', [(''transfer'', JStr t)])"
| "client_msg_fields (FileAbort t) = (''file_abort'', [(''transfer'', JStr t)])"

definition client_msg_json :: "client_msg \<Rightarrow> json" where
  "client_msg_json m =
     (let (t, fields) = client_msg_fields m
      in JObj ((js ''type'', JStr (js t)) # map (\<lambda>(k, v). (js k, v)) fields))"

definition client_msg_text :: "client_msg \<Rightarrow> jsstr" where
  "client_msg_text m = stringify (client_msg_json m)"

section \<open>Incoming frames\<close>

definition string_field :: "string \<Rightarrow> json \<Rightarrow> jsstr option" where
  "string_field k j = (case member (js k) j of Some (JStr s) \<Rightarrow> Some s | _ \<Rightarrow> None)"

definition number_field :: "string \<Rightarrow> json \<Rightarrow> json option" where
  "number_field k j =
     (case member (js k) j of Some (JNum i) \<Rightarrow> Some (JNum i) | Some (JDec m e) \<Rightarrow> Some (JDec m e) | _ \<Rightarrow> None)"

definition role_of :: "json \<Rightarrow> member_role" where
  "role_of j = (if string_field ''role'' j = Some (js ''owner'') then Owner else Member)"

definition member_info_of :: "json \<Rightarrow> member_info" where
  "member_info_of j =
     \<lparr>mi_id = (case string_field ''id'' j of Some s \<Rightarrow> s | None \<Rightarrow> []),
      mi_nick = (case string_field ''nick'' j of Some s \<Rightarrow> s | None \<Rightarrow> []),
      mi_role = role_of j\<rparr>"

definition members_field :: "json \<Rightarrow> member_info list option" where
  "members_field j =
     (case member (js ''members'') j of Some (JArr xs) \<Rightarrow> Some (map member_info_of xs) | _ \<Rightarrow> None)"

definition server_msg_of :: "json \<Rightarrow> server_msg" where
  "server_msg_of j =
     \<lparr>sm_type = (case string_field ''type'' j of Some s \<Rightarrow> s | None \<Rightarrow> []),
      sm_room = string_field ''room'' j,
      sm_memberId = string_field ''memberId'' j,
      sm_members = members_field j,
      sm_nick = string_field ''nick'' j,
      sm_body = string_field ''body'' j,
      sm_reason = string_field ''reason'' j,
      sm_error = string_field ''error'' j,
      sm_token = string_field ''token'' j,
      sm_handshake = string_field ''handshake'' j,
      sm_data = string_field ''data'' j,
      sm_transfer = string_field ''transfer'' j,
      sm_keyId = string_field ''keyId'' j,
      sm_index = number_field ''index'' j\<rparr>"

text \<open>The URL of the relay on the page's origin.\<close>

definition wsURL :: "jsstr \<Rightarrow> jsstr \<Rightarrow> jsstr" where
  "wsURL protocol host =
     (let proto = (if protocol = js ''https:'' then js ''wss:'' else js ''ws:'')
      in proto @ js ''//'' @ host @ js ''/ws'')"

section \<open>Frames are read back\<close>

lemma client_msg_text_parse: "json_parse (client_msg_text m) = Inr (client_msg_json m)"
proof -
  have "wf_json (client_msg_json m)"
    by (cases m) (simp_all add: client_msg_json_def)
  then show ?thesis unfolding client_msg_text_def by (rule json_roundtrip)
qed

end
