(* ===== verification/InviteLink.thy ===== *)
theory InviteLink
  imports Crypto
begin

text \<open>
  The invite of web/src/main.ts: the ten-character code, the link that carries token and code in
  its fragment, and the parser that takes a pasted link or a bare fragment apart
  (\<open>generateCode\<close>, \<open>buildInviteLink\<close>, \<open>parseInvite\<close>), with the two standard library pieces they
  use, \<open>encodeURIComponent\<close> and \<open>URLSearchParams\<close>.
\<close>

section \<open>The code\<close>

definition code_alphabet :: jsstr where
  "code_alphabet = js ''ABCDEFGHJKLMNPQRSTUVWXYZ23456789''"

definition generateCode :: "'p prims \<Rightarrow> nat \<Rightarrow> jsstr \<times> nat" where
  "generateCode P pos =
     (let (b, pos') = random_bytes P 10 pos in
      (foldl (\<lambda>out i. out @ [code_alphabet ! (unat (b ! i) mod length code_alphabet)]) [] [0..<10], pos'))"

section \<open>encodeURIComponent and URLSearchParams\<close>

definition uri_unreserved :: "byte \<Rightarrow> bool" where
  "uri_unreserved b \<longleftrightarrow>
     (let n = unat b in
      (65 \<le> n \<and> n \<le> 90) \<or> (97 \<le> n \<and> n \<le> 122) \<or> (48 \<le> n \<and> n \<le> 57)
      \<or> n \<in> {45, 95, 46, 33, 126, 42, 39, 40, 41})"

definition upper_hex :: "nat \<Rightarrow> u16" where
  "upper_hex n = (if n < 10 then of_nat (48 + n) else of_nat (55 + n))"

definition uri_escape :: "byte \<Rightarrow> jsstr" where
  "uri_escape b =
     (if uri_unreserved b then [ucast b]
      else [37, upper_hex (unat b div 16), upper_hex (unat b mod 16)])"

definition encodeURIComponent :: "jsstr \<Rightarrow> exn + jsstr" where
  "encodeURIComponent s =
     (if well_formed s then Inr (concat (map uri_escape (text_encode s)))
      else Inl (MessageError ''URI malformed''))"

definition byte_hex :: "byte \<Rightarrow> nat option" where
  "byte_hex b =
     (let n = unat b in
      if 48 \<le> n \<and> n \<le> 57 then Some (n - 48)
      else if 65 \<le> n \<and> n \<le> 70 then Some (n - 55)
      else if 97 \<le> n \<and> n \<le> 102 then Some (n - 87)
      else None)"

fun percent_decode :: "bytes \<Rightarrow> bytes" where
  "percent_decode (p # a # b # r) =
     (case (p = 37, byte_hex a, byte_hex b) of
        (True, Some x, Some y) \<Rightarrow> of_nat (x * 16 + y) # percent_decode r
      | _ \<Rightarrow> p # percent_decode (a # b # r))"
| "percent_decode bs = bs"

text \<open>UTF-8 decoding that keeps a leading byte order mark.\<close>

definition utf8_without_bom :: "bytes \<Rightarrow> jsstr" where
  "utf8_without_bom bs = concat (map units_of (utf8_first bs))"

definition form_decode :: "bytes \<Rightarrow> jsstr" where
  "form_decode bs = utf8_without_bom (percent_decode (map (\<lambda>b. if b = 43 then 32 else b) bs))"

fun split_on :: "'a \<Rightarrow> 'a list \<Rightarrow> 'a list list" where
  "split_on c [] = [[]]"
| "split_on c (x # xs) =
     (if x = c then [] # split_on c xs
      else case split_on c xs of y # ys \<Rightarrow> (x # y) # ys | [] \<Rightarrow> [[x]])"

definition split_pair :: "bytes \<Rightarrow> bytes \<times> bytes" where
  "split_pair bs = (takeWhile (\<lambda>b. b \<noteq> 61) bs, drop 1 (dropWhile (\<lambda>b. b \<noteq> 61) bs))"

definition search_params :: "jsstr \<Rightarrow> (jsstr \<times> jsstr) list" where
  "search_params s =
     (let bs = text_encode (case s of u # t \<Rightarrow> if u = 63 then t else s | [] \<Rightarrow> []);
          parts = [p \<leftarrow> split_on 38 bs. p \<noteq> []]
      in map (\<lambda>p. (form_decode (fst (split_pair p)), form_decode (snd (split_pair p)))) parts)"

section \<open>The link\<close>

definition buildInviteLink :: "jsstr \<Rightarrow> jsstr \<Rightarrow> jsstr \<Rightarrow> exn + jsstr" where
  "buildInviteLink page token code =
     bind_result (encodeURIComponent token) (\<lambda>t.
     bind_result (encodeURIComponent code) (\<lambda>c.
       Inr (page @ js ''#t='' @ t @ js ''&c='' @ c)))"

definition parseInvite :: "jsstr \<Rightarrow> (jsstr \<times> jsstr) option" where
  "parseInvite input =
     (let hash = (if 35 \<in> set input then drop 1 (dropWhile (\<lambda>u. u \<noteq> 35) input) else input);
          p = search_params hash
      in case (map_of p (js ''t''), map_of p (js ''c'')) of
           (Some token, Some code) \<Rightarrow> if token \<noteq> [] \<and> code \<noteq> [] then Some (token, code) else None
         | _ \<Rightarrow> None)"

definition js_space :: "u16 \<Rightarrow> bool" where
  "js_space u \<longleftrightarrow>
     (let n = unat u in
      (9 \<le> n \<and> n \<le> 13) \<or> n = 32 \<or> n = 160 \<or> n = 0x1680 \<or> (0x2000 \<le> n \<and> n \<le> 0x200A)
      \<or> n \<in> {0x2028, 0x2029, 0x202F, 0x205F, 0x3000, 0xFEFF})"

definition js_trim :: "jsstr \<Rightarrow> jsstr" where
  "js_trim s = rev (dropWhile js_space (rev (dropWhile js_space s)))"

section \<open>What is built is parsed back\<close>

lemma upper_hex_byte:
  "n < 16 \<Longrightarrow> byte_hex (ucast (upper_hex n)) = Some n"
proof -
  assume n: "n < 16"
  have "\<forall>n \<in> set [0..<16]. byte_hex (ucast (upper_hex n)) = Some n" by code_simp
  with n show ?thesis by simp
qed

lemma u16_neq: "unat u \<noteq> unat v \<Longrightarrow> (u :: u16) \<noteq> v"
  by auto

definition clean_unit :: "u16 \<Rightarrow> bool" where
  "clean_unit u \<longleftrightarrow> (let n = unat u in n < 0x80 \<and> n \<notin> {38, 61, 35, 43})"

lemma upper_hex_clean: "n < 16 \<Longrightarrow> clean_unit (upper_hex n)"
proof -
  assume n: "n < 16"
  have "\<forall>n \<in> set [0..<16]. clean_unit (upper_hex n)" by code_simp
  with n show ?thesis by simp
qed

lemma uri_escape_clean:
  assumes "u \<in> set (uri_escape b)"
  shows "clean_unit u"
proof (cases "uri_unreserved b")
  case True
  with assms have "u = ucast b" by (simp add: uri_escape_def)
  with True show ?thesis by (auto simp: clean_unit_def uri_unreserved_def Let_def)
next
  case False
  have "unat b div 16 < 16" and "unat b mod 16 < 16"
    using unat_byte_less [of b] by (simp_all add: div_less_iff_less_mult)
  moreover have "clean_unit 37" by (simp add: clean_unit_def)
  ultimately show ?thesis
    using assms False upper_hex_clean by (auto simp: uri_escape_def)
qed

lemma clean_unitD:
  assumes "clean_unit u"
  shows "unat u < 0x80" "u \<noteq> 38" "u \<noteq> 61" "u \<noteq> 35" "u \<noteq> 43"
  using assms by (auto simp: clean_unit_def Let_def)

lemma percent_decode_escape:
  "percent_decode (map ucast (uri_escape b) @ r) = b # percent_decode r"
proof (cases "uri_unreserved b")
  case True
  then have "b \<noteq> 37" by (auto simp: uri_unreserved_def Let_def)
  then have "percent_decode (b # r) = b # percent_decode r"
    by (cases r rule: percent_decode.cases) (auto simp: neq_Nil_conv)
  with True show ?thesis by (simp add: uri_escape_def)
next
  case False
  have "unat b div 16 < 16" and "unat b mod 16 < 16"
    using unat_byte_less [of b] by (simp_all add: div_less_iff_less_mult)
  then have "byte_hex (ucast (upper_hex (unat b div 16))) = Some (unat b div 16)"
    and "byte_hex (ucast (upper_hex (unat b mod 16))) = Some (unat b mod 16)"
    by (simp_all add: upper_hex_byte)
  moreover have "(of_nat (unat b div 16 * 16 + unat b mod 16) :: byte) = b"
    by (simp only: div_mult_mod_eq) simp
  ultimately show ?thesis
    using False by (simp add: uri_escape_def del: of_nat_add of_nat_mult)
qed

text \<open>The encoded form of a text: what \<open>encodeURIComponent\<close> returns when it returns.\<close>

definition uri_text :: "jsstr \<Rightarrow> jsstr" where
  "uri_text s = concat (map uri_escape (text_encode s))"

lemma uri_text_clean: "u \<in> set (uri_text s) \<Longrightarrow> clean_unit u"
  by (auto simp: uri_text_def dest: uri_escape_clean)

lemma percent_decode_uri_text:
  "percent_decode (map ucast (concat (map uri_escape bs))) = bs"
proof (induction bs)
  case Nil
  then show ?case by simp
next
  case (Cons b bs)
  then show ?case by (simp add: percent_decode_escape)
qed

lemma form_decode_uri_text:
  assumes "well_formed s"
  shows "form_decode (map ucast (uri_text s)) = s"
proof -
  have "map (\<lambda>b. if b = 43 then 32 else b) (map ucast (uri_text s)) = (map ucast (uri_text s) :: bytes)"
  proof (rule map_idI)
    fix b assume "b \<in> set (map ucast (uri_text s) :: bytes)"
    then obtain u where u: "u \<in> set (uri_text s)" "b = ucast u" by auto
    then have "unat u < 0x80" "u \<noteq> 43" using uri_text_clean clean_unitD by blast+
    then have "unat b = unat u" by (simp add: u(2) unsigned_ucast_eq take_bit_nat_eq_self)
    with \<open>u \<noteq> 43\<close> have "b \<noteq> 43" by (auto simp: word_unat_eq_iff)
    then show "(if b = 43 then 32 else b) = b" by simp
  qed
  then have "form_decode (map ucast (uri_text s)) = utf8_without_bom (text_encode s)"
    by (simp add: form_decode_def uri_text_def percent_decode_uri_text del: map_map)
  moreover have "utf8_first (text_encode s) = scalars s"
    unfolding text_encode_def by (rule utf8_roundtrip_scalars) (simp add: scalars_are_scalar)
  ultimately show ?thesis
    using assms by (simp add: utf8_without_bom_def units_of_scalars)
qed

lemma split_on_append:
  "c \<notin> set xs \<Longrightarrow> split_on c (xs @ c # ys) = xs # split_on c ys"
  by (induction xs) auto

lemma split_on_none: "c \<notin> set xs \<Longrightarrow> split_on c xs = [xs]"
  by (induction xs) auto

lemma split_pair_append: "61 \<notin> set k \<Longrightarrow> split_pair (k @ 61 # v) = (k, v)"
  by (auto simp: split_pair_def takeWhile_append dropWhile_append intro: ccontr)

lemma search_params_link:
  assumes "well_formed token" and "well_formed code"
  shows "search_params (js ''t='' @ uri_text token @ js ''&c='' @ uri_text code) =
    [(js ''t'', token), (js ''c'', code)]"
proof -
  let ?t = "map ucast (uri_text token) :: bytes" and ?c = "map ucast (uri_text code) :: bytes"
  have clean: "\<And>u. u \<in> set (uri_text s) \<Longrightarrow> unat u < 0x80 \<and> u \<noteq> 38" for s
    using uri_text_clean clean_unitD by blast
  have ascii: "ascii (uri_text s)" for s
    using clean by (simp add: ascii_def)
  have no_amp: "(38 :: byte) \<notin> set (map ucast (uri_text s))" for s
  proof
    assume "(38 :: byte) \<in> set (map ucast (uri_text s))"
    then obtain u where u: "u \<in> set (uri_text s)" "(ucast u :: byte) = 38" by auto
    have "unat (ucast u :: byte) = unat u"
      using clean [OF u(1)] by (simp add: unsigned_ucast_eq take_bit_nat_eq_self)
    with u clean [OF u(1)] show False by (auto simp: word_unat_eq_iff)
  qed
  have lits: "js ''t='' = [116, 61]" "js ''&c='' = [38, 99, 61]" "js ''t'' = [116]" "js ''c'' = [99]"
    by code_simp+
  have "text_encode (js ''t='' @ uri_text token @ js ''&c='' @ uri_text code) =
      [116, 61] @ ?t @ [38] @ [99, 61] @ ?c"
    using ascii by (subst ascii_text_encode) (auto simp: lits)
  then have "text_encode (js ''t='' @ uri_text token @ js ''&c='' @ uri_text code) =
      (116 # 61 # ?t) @ 38 # (99 # 61 # ?c)" by simp
  moreover have "split_on 38 ((116 # 61 # ?t) @ 38 # (99 # 61 # ?c)) = [116 # 61 # ?t, 99 # 61 # ?c]"
    using no_amp [of token] no_amp [of code] split_on_append [of 38 "116 # 61 # ?t"]
      split_on_none [of 38 "99 # 61 # ?c"] by (auto simp del: split_on.simps)
  moreover have "split_pair (116 # 61 # ?t) = ([116], ?t)" "split_pair (99 # 61 # ?c) = ([99], ?c)"
    by (simp_all add: split_pair_def)
  moreover have "form_decode [116] = js ''t''" "form_decode [99] = js ''c''"
    by code_simp+
  ultimately show ?thesis
    using form_decode_uri_text assms by (simp add: search_params_def lits Let_def)
qed

lemma buildInviteLink_eq:
  "buildInviteLink page token code =
    (if well_formed token \<and> well_formed code
     then Inr (page @ js ''#t='' @ uri_text token @ js ''&c='' @ uri_text code)
     else Inl (MessageError ''URI malformed''))"
  by (simp add: buildInviteLink_def encodeURIComponent_def uri_text_def)

lemma length_code_alphabet: "length code_alphabet = 32"
  by (simp add: code_alphabet_def)

lemma foldl_snoc: "foldl (\<lambda>out i. out @ [f i]) acc xs = acc @ map f xs"
  by (induction xs arbitrary: acc) auto

lemma card_bytes_mod: "card {b :: byte. unat b mod 32 = k} = (if k < 32 then 8 else 0)"
proof (cases "k < 32")
  case True
  have "{b :: byte. unat b mod 32 = k} = (\<lambda>j. of_nat (k + 32 * j)) ` {..<8}" (is "?L = ?R")
  proof
    show "?L \<subseteq> ?R"
    proof
      fix b :: byte assume "b \<in> ?L"
      then have "unat b = k + 32 * (unat b div 32)" by auto
      then have "b = of_nat (k + 32 * (unat b div 32))" by (metis of_nat_unat ucast_id)
      moreover have "unat b div 32 < 8" using unat_byte_less [of b] by (simp add: div_less_iff_less_mult)
      ultimately show "b \<in> ?R" by blast
    qed
    show "?R \<subseteq> ?L"
      using True by (auto simp: unat_of_nat_byte simp del: of_nat_add of_nat_mult)
  qed
  moreover have "inj_on (\<lambda>j. of_nat (k + 32 * j) :: byte) {..<8}"
  proof (rule inj_onI)
    fix i j :: nat assume "i \<in> {..<8}" "j \<in> {..<8}"
      and "(of_nat (k + 32 * i) :: byte) = of_nat (k + 32 * j)"
    then have "unat (of_nat (k + 32 * i) :: byte) = unat (of_nat (k + 32 * j) :: byte)"
      and "k + 32 * i < 256" "k + 32 * j < 256" using True by auto
    then show "i = j" by (simp only: unat_of_nat_byte)
  qed
  ultimately show ?thesis using True by (simp add: card_image)
next
  case False
  then have none: "{b :: byte. unat b mod 32 = k} = {}"
    by auto
  show ?thesis using False by (simp add: none)
qed

section \<open>Properties\<close>

text \<open>
  C34: A link built on a page address without a fragment is parsed back to the token and the code
  it was built from; building fails only on a lone surrogate.
\<close>

theorem invite_link_roundtrip:
  assumes "well_formed token" and "token \<noteq> []" and "well_formed code" and "code \<noteq> []"
    and "35 \<notin> set page"
  shows "\<exists>link. buildInviteLink page token code = Inr link \<and> parseInvite link = Some (token, code)"
proof -
  let ?frag = "js ''t='' @ uri_text token @ js ''&c='' @ uri_text code"
  have lits: "js ''#t='' = 35 # js ''t=''" by code_simp
  have "dropWhile (\<lambda>u. u \<noteq> 35) (page @ 35 # ?frag) = 35 # ?frag"
    using assms(5) by (induction page) auto
  then have "parseInvite (page @ js ''#t='' @ uri_text token @ js ''&c='' @ uri_text code) =
      Some (token, code)"
    using assms search_params_link [OF assms(1,3)] by (simp add: parseInvite_def lits Let_def)
  then show ?thesis using assms by (simp add: buildInviteLink_eq)
qed

theorem invite_link_roundtrip_witness:
  "\<exists>link. buildInviteLink (js ''https://a.b/'') (js ''x&y=%'') (js ''K7 +#'') = Inr link
    \<and> parseInvite link = Some (js ''x&y=%'', js ''K7 +#'')"
proof (rule invite_link_roundtrip)
  show "well_formed (js ''x&y=%'')" "well_formed (js ''K7 +#'')" "35 \<notin> set (js ''https://a.b/'')"
    by code_simp+
qed simp_all

text \<open>
  C35: Every generated code has ten characters of the 32-letter alphabet without 0, O, 1 and I,
  each the letter whose index is the random byte modulo 32; each index stands for exactly eight
  byte values, so that uniform bytes give uniform letters.
\<close>

theorem generated_code:
  "fst (generateCode P pos) = map (\<lambda>i. code_alphabet ! (unat (random_byte P (pos + i)) mod 32)) [0..<10]
    \<and> set (fst (generateCode P pos)) \<subseteq> set code_alphabet
    \<and> length code_alphabet = 32 \<and> distinct code_alphabet \<and> set code_alphabet \<inter> set (js ''0O1I'') = {}
    \<and> card {b :: byte. unat b mod 32 = k} = (if k < 32 then 8 else 0)
    \<and> snd (generateCode P pos) = pos + 10"
proof -
  have code: "fst (generateCode P pos) =
      map (\<lambda>i. code_alphabet ! (unat (random_byte P (pos + i)) mod 32)) [0..<10]"
    by (simp add: generateCode_def random_bytes_def foldl_snoc length_code_alphabet)
  moreover have "set (fst (generateCode P pos)) \<subseteq> set code_alphabet"
    by (auto simp: code length_code_alphabet)
  moreover have "inj js_char" by (simp add: inj_def)
  then have "distinct code_alphabet" "set code_alphabet \<inter> set (js ''0O1I'') = {}"
    by (auto simp: code_alphabet_def js_def distinct_map inj_on_def)
  ultimately show ?thesis
    by (simp add: length_code_alphabet card_bytes_mod) (simp add: generateCode_def split_beta)
qed

end
