(* ===== verification/ClientState.thy ===== *)
theory ClientState
  imports Protocol Handshake InviteLink
begin

text \<open>
  The state of web/src/main.ts. Byte arrays that the client wipes in place and that several
  places share (room keys, the private key, peers' public keys, handshake secrets) are references
  into a store, so that \<open>wipeKey\<close> is seen through every alias, as in the program. Sockets, blob
  URLs, staged attachments, suspended uploads and the visible page are the rest of the state;
  DOM elements are reduced to what they show.
\<close>

section \<open>Data\<close>

type_synonym ref = nat

datatype ready_state = Connecting | Open | Closing | Closed

text \<open>\<open>readyState\<close> is a number in the WebSocket interface, compared with \<open>>=\<close>.\<close>

fun ready_number :: "ready_state \<Rightarrow> nat" where
  "ready_number Connecting = 0"
| "ready_number Open = 1"
| "ready_number Closing = 2"
| "ready_number Closed = 3"

instantiation ready_state :: linorder
begin

definition less_eq_ready_state :: "ready_state \<Rightarrow> ready_state \<Rightarrow> bool" where
  "less_eq_ready_state a b \<longleftrightarrow> ready_number a \<le> ready_number b"

definition less_ready_state :: "ready_state \<Rightarrow> ready_state \<Rightarrow> bool" where
  "less_ready_state a b \<longleftrightarrow> ready_number a < ready_number b"

instance
proof
  fix x y z :: ready_state
  show "(x < y) = (x \<le> y \<and> \<not> y \<le> x)"
    by (auto simp: less_eq_ready_state_def less_ready_state_def)
  show "x \<le> x" by (simp add: less_eq_ready_state_def)
  show "x \<le> y \<Longrightarrow> y \<le> z \<Longrightarrow> x \<le> z" by (simp add: less_eq_ready_state_def)
  show "x \<le> y \<Longrightarrow> y \<le> x \<Longrightarrow> x = y"
    by (cases x; cases y; simp add: less_eq_ready_state_def)
  show "x \<le> y \<or> y \<le> x" by (auto simp: less_eq_ready_state_def)
qed

end

record socket =
  so_state :: ready_state
  so_hello :: client_msg     \<comment> \<open>what its \<open>open\<close> listener sends\<close>
  so_sent :: "jsstr list"

record file_obj =
  fo_name :: jsstr
  fo_type :: jsstr
  fo_bytes :: bytes

record file_meta =
  fm_name :: jsstr
  fm_type :: jsstr
  fm_size :: int
  fm_chunks :: int

record incoming =
  in_key :: ref
  in_meta :: file_meta
  in_nick :: jsstr
  in_parts :: "bytes option list"
  in_extra :: "(int \<times> nat) list" \<comment> \<open>properties of \<open>parts\<close> at non-integer indices\<close>
  in_received :: nat

text \<open>A file message of the page: the elements of a \<open>FileMsgHandle\<close> reduced to what they show.\<close>

datatype file_state = InProgress int | ShownImage nat | ShownLink nat | FailedWith jsstr

record file_view =
  fv_nick :: jsstr
  fv_meta :: file_meta
  fv_mine :: bool
  fv_state :: file_state

datatype message_item =
    TextItem jsstr jsstr bool
  | FileItem nat \<comment> \<open>an index into the file views\<close>

datatype hs_role = HsOwner | HsJoiner

record hs_record =
  hr_hs :: handshake
  hr_role :: hs_role
  hr_joiner :: "jsstr option"
  hr_ke :: "ref option"
  hr_pending :: "jsstr option" \<comment> \<open>\<open>pendingKeyDeliver\<close>\<close>

record session =
  s_ws :: nat
  s_room :: jsstr
  s_memberId :: jsstr
  s_role :: member_role
  s_ownerId :: jsstr
  s_keys :: "ref list"
  s_pub :: bytes
  s_priv :: ref
  s_pendingInvites :: "(jsstr, jsstr) js_map"
  s_handshakes :: "(jsstr, hs_record) js_map"
  s_memberPubs :: "(jsstr, ref) js_map"
  s_knownMembers :: "jsstr list"
  s_firstOwnerPub :: "ref option"
  s_lastMembers :: "member_info list"
  s_incoming :: "(jsstr, incoming) js_map"
  s_fileMsgs :: "(jsstr, nat) js_map"
  s_objectUrls :: "nat list"

record member_row =
  mr_nick :: jsstr
  mr_owner :: bool
  mr_you :: bool
  mr_actions :: "jsstr option" \<comment> \<open>the member id of its owner controls\<close>

datatype modal_action = DoLeave | TransferAndLeave | DismissModal

text \<open>A dialog shows a text, or a text with a selection whose options have a value and a label.\<close>

datatype modal_body = TextBody jsstr | SelectBody jsstr jsstr "(jsstr \<times> jsstr) list"

record ui =
  ui_inRoom :: bool
  ui_lobbyError :: jsstr
  ui_lobbyStatus :: jsstr
  ui_roomNotice :: jsstr
  ui_stats :: "jsstr option" \<comment> \<open>\<open>None\<close>: the line is hidden\<close>
  ui_polls :: nat \<comment> \<open>requests for the counts not yet answered\<close>
  ui_roomId :: jsstr
  ui_memberCount :: nat
  ui_members :: "member_row list"
  ui_messages :: "message_item list"
  ui_inviteBtn :: bool
  ui_inviteBox :: bool
  ui_inviteLink :: jsstr
  ui_roomInput :: jsstr
  ui_preview :: "(nat option \<times> jsstr \<times> jsstr) option"
  ui_modal :: "(jsstr \<times> modal_body \<times> (jsstr \<times> modal_action) list) option"

text \<open>A suspended \<open>connect\<close>: it waits for the close of a socket, then opens the next one.\<close>

record pending_connect =
  pc_ws :: nat
  pc_hello :: client_msg
  pc_create :: bool \<comment> \<open>called by the create button, which then makes the first key\<close>

text \<open>A suspended \<open>sendFile\<close>, between two of its awaits.\<close>

datatype upload_stage = ReadingFile | AfterChunk nat

record upload =
  up_key :: ref
  up_kid :: jsstr
  up_transfer :: jsstr
  up_file :: file_obj
  up_view :: nat
  up_stage :: upload_stage

record page =
  pg_protocol :: jsstr
  pg_host :: jsstr
  pg_base :: jsstr \<comment> \<open>\<open>location.origin + location.pathname\<close>\<close>
  pg_session :: jsstr \<comment> \<open>\<open>SESSION_ID\<close>\<close>

record client =
  cl_page :: page
  cl_heap :: "bytes list"
  cl_sockets :: "socket list"
  cl_session :: "session option"
  cl_pendingJoin :: "(jsstr \<times> jsstr) option"
  cl_intentionalClose :: bool
  cl_staged :: "(file_obj \<times> nat) option"
  cl_blobs :: "(nat \<times> bytes) list" \<comment> \<open>live object URLs and the blob behind each\<close>
  cl_nextUrl :: nat
  cl_views :: "file_view list"
  cl_connects :: "pending_connect list"
  cl_uploads :: "upload list"
  cl_ui :: ui
  cl_random :: nat

section \<open>The store of byte arrays\<close>

definition deref :: "client \<Rightarrow> ref \<Rightarrow> bytes" where
  "deref s r = (if r < length (cl_heap s) then cl_heap s ! r else [])"

definition alloc :: "bytes \<Rightarrow> client \<Rightarrow> ref \<times> client" where
  "alloc b s = (length (cl_heap s), s\<lparr>cl_heap := cl_heap s @ [b]\<rparr>)"

definition wipeKey :: "ref \<Rightarrow> client \<Rightarrow> client" where
  "wipeKey r s = s\<lparr>cl_heap := (cl_heap s)[r := wiped (deref s r)]\<rparr>"

definition wipe_all :: "ref list \<Rightarrow> client \<Rightarrow> client" where
  "wipe_all rs s = foldl (\<lambda>s r. wipeKey r s) s rs"

section \<open>Updates\<close>

definition upd_session :: "(session \<Rightarrow> session) \<Rightarrow> client \<Rightarrow> client" where
  "upd_session f s = s\<lparr>cl_session := map_option f (cl_session s)\<rparr>"

definition upd_ui :: "(ui \<Rightarrow> ui) \<Rightarrow> client \<Rightarrow> client" where
  "upd_ui f s = s\<lparr>cl_ui := f (cl_ui s)\<rparr>"

definition lobbyError :: "jsstr \<Rightarrow> client \<Rightarrow> client" where
  "lobbyError t = upd_ui (\<lambda>u. u\<lparr>ui_lobbyError := t\<rparr>)"

definition lobbyStatus :: "jsstr \<Rightarrow> client \<Rightarrow> client" where
  "lobbyStatus t = upd_ui (\<lambda>u. u\<lparr>ui_lobbyStatus := t\<rparr>)"

definition roomNotice :: "jsstr \<Rightarrow> client \<Rightarrow> client" where
  "roomNotice t = upd_ui (\<lambda>u. u\<lparr>ui_roomNotice := t\<rparr>)"

definition draw :: "(nat \<Rightarrow> 'a \<times> nat) \<Rightarrow> client \<Rightarrow> 'a \<times> client" where
  "draw f s = (let (a, pos) = f (cl_random s) in (a, s\<lparr>cl_random := pos\<rparr>))"

text \<open>An absent field, or the empty string: what \<open>!msg.field\<close> tests.\<close>

definition falsy :: "jsstr option \<Rightarrow> bool" where
  "falsy x \<longleftrightarrow> (case x of None \<Rightarrow> True | Some s \<Rightarrow> s = [])"

definition or_else :: "'a option \<Rightarrow> 'a \<Rightarrow> 'a" where
  "or_else x d = (case x of None \<Rightarrow> d | Some a \<Rightarrow> a)"

section \<open>Sockets\<close>

definition socket_state :: "client \<Rightarrow> nat \<Rightarrow> ready_state" where
  "socket_state s w = (if w < length (cl_sockets s) then so_state (cl_sockets s ! w) else Closed)"

definition upd_socket :: "nat \<Rightarrow> (socket \<Rightarrow> socket) \<Rightarrow> client \<Rightarrow> client" where
  "upd_socket w f s =
     (if w < length (cl_sockets s) then s\<lparr>cl_sockets := (cl_sockets s)[w := f (cl_sockets s ! w)]\<rparr> else s)"

definition ws_send :: "nat \<Rightarrow> jsstr \<Rightarrow> client \<Rightarrow> client" where
  "ws_send w t = upd_socket w (\<lambda>k. k\<lparr>so_sent := so_sent k @ [t]\<rparr>)"

definition ws_close :: "nat \<Rightarrow> client \<Rightarrow> client" where
  "ws_close w = upd_socket w (\<lambda>k. if so_state k < Closing then k\<lparr>so_state := Closing\<rparr> else k)"

definition send :: "client_msg \<Rightarrow> client \<Rightarrow> client" where
  "send msg s =
     (case cl_session s of
        None \<Rightarrow> s
      | Some ss \<Rightarrow>
          if socket_state s (s_ws ss) = Open then ws_send (s_ws ss) (client_msg_text msg) s else s)"

section \<open>Object URLs\<close>

definition createObjectURL :: "bytes \<Rightarrow> client \<Rightarrow> nat \<times> client" where
  "createObjectURL b s =
     (cl_nextUrl s, s\<lparr>cl_blobs := cl_blobs s @ [(cl_nextUrl s, b)], cl_nextUrl := Suc (cl_nextUrl s)\<rparr>)"

definition revokeObjectURL :: "nat \<Rightarrow> client \<Rightarrow> client" where
  "revokeObjectURL u s = s\<lparr>cl_blobs := [b \<leftarrow> cl_blobs s. fst b \<noteq> u]\<rparr>"

definition trackUrl :: "nat \<Rightarrow> client \<Rightarrow> client" where
  "trackUrl url = upd_session (\<lambda>ss. ss\<lparr>s_objectUrls := s_objectUrls ss @ [url]\<rparr>)"

end
