(* ===== verification/ClientView.thy ===== *)
theory ClientView
  imports ClientState
begin

text \<open>
  The parts of web/src/main.ts that change what the page shows: the member list, chat messages,
  file messages and their progress, the staged attachment, the leave dialog, the lobby. Text is
  always set through \<open>textContent\<close>, so a shown string is the string itself.
\<close>

section \<open>Texts\<close>

definition ellipsis :: jsstr where "ellipsis = [0x2026]"
definition em_dash :: jsstr where "em_dash = [0x2014]"
definition middle_dot :: jsstr where "middle_dot = [0xB7]"

definition closeReason :: "jsstr option \<Rightarrow> jsstr" where
  "closeReason reason =
     (if reason = Some (js ''owner_left'') then js ''The owner left. This room has been destroyed.''
      else if reason = Some (js ''kicked'') then js ''You were removed from this room.''
      else if reason = Some (js ''idle_timeout'') then js ''Room closed due to inactivity.''
      else if reason = Some (js ''server_shutdown'') then js ''The server is shutting down.''
      else js ''This room has been closed.'')"

text \<open>\<open>(n / unit).toFixed(1)\<close>: the nearest tenth, the larger one of two.\<close>

definition tenths :: "int \<Rightarrow> int \<Rightarrow> int" where
  "tenths n unit = (20 * n + unit) div (2 * unit)"

definition toFixed1 :: "int \<Rightarrow> int \<Rightarrow> jsstr" where
  "toFixed1 n unit =
     (let t = tenths n unit in int_text (t div 10) @ js ''.'' @ int_text (t mod 10))"

definition formatBytes :: "int \<Rightarrow> jsstr" where
  "formatBytes n =
     (if n < 1024 then int_text n @ js '' B''
      else if n < 1024 * 1024 then toFixed1 n 1024 @ js '' KB''
      else toFixed1 n (1024 * 1024) @ js '' MB'')"

definition is_image :: "jsstr \<Rightarrow> bool" where
  "is_image t \<longleftrightarrow> take 6 t = js ''image/''"

section \<open>Members and messages\<close>

definition member_row_of :: "bool \<Rightarrow> session option \<Rightarrow> member_info \<Rightarrow> member_row" where
  "member_row_of iAmOwner ss m =
     (let me = (case ss of None \<Rightarrow> False | Some x \<Rightarrow> mi_id m = s_memberId x);
          other = (case ss of None \<Rightarrow> False | Some x \<Rightarrow> mi_id m \<noteq> s_memberId x)
      in \<lparr>mr_nick = mi_nick m, mr_owner = (mi_role m = Owner), mr_you = me,
          mr_actions = (if iAmOwner \<and> other then Some (mi_id m) else None)\<rparr>)"

definition renderMembers :: "member_info list \<Rightarrow> client \<Rightarrow> client" where
  "renderMembers members s =
     (let s1 = upd_session (\<lambda>ss. ss\<lparr>s_lastMembers := members\<rparr>) s;
          iAmOwner = (case cl_session s1 of None \<Rightarrow> False | Some ss \<Rightarrow> s_role ss = Owner)
      in upd_ui (\<lambda>u. u\<lparr>ui_memberCount := length members,
                     ui_members := map (member_row_of iAmOwner (cl_session s1)) members\<rparr>) s1)"

definition addMessage :: "jsstr \<Rightarrow> jsstr \<Rightarrow> bool \<Rightarrow> client \<Rightarrow> client" where
  "addMessage nick body mine =
     upd_ui (\<lambda>u. u\<lparr>ui_messages := ui_messages u @ [TextItem nick body mine]\<rparr>)"

section \<open>File messages\<close>

definition percent :: "int \<Rightarrow> int \<Rightarrow> int" where
  "percent count whole = max 0 (min 100 ((200 * count + whole) div (2 * whole)))"

definition upd_view :: "nat \<Rightarrow> (file_view \<Rightarrow> file_view) \<Rightarrow> client \<Rightarrow> client" where
  "upd_view h f s =
     (if h < length (cl_views s) then s\<lparr>cl_views := (cl_views s)[h := f (cl_views s ! h)]\<rparr> else s)"

definition setFileProgress :: "nat \<Rightarrow> int \<Rightarrow> int \<Rightarrow> client \<Rightarrow> client" where
  "setFileProgress h count whole =
     upd_view h (\<lambda>v. case fv_state v of
       InProgress _ \<Rightarrow> v\<lparr>fv_state := InProgress (percent count whole)\<rparr> | _ \<Rightarrow> v)"

definition startFileMessage ::
    "jsstr \<Rightarrow> jsstr \<Rightarrow> file_meta \<Rightarrow> bool \<Rightarrow> client \<Rightarrow> nat \<times> client" where
  "startFileMessage transfer nick meta mine s =
     (let h = length (cl_views s);
          s1 = s\<lparr>cl_views := cl_views s @
                 [\<lparr>fv_nick = nick, fv_meta = meta, fv_mine = mine, fv_state = InProgress 0\<rparr>]\<rparr>;
          s2 = upd_ui (\<lambda>u. u\<lparr>ui_messages := ui_messages u @ [FileItem h]\<rparr>) s1
      in (h, upd_session (\<lambda>ss. ss\<lparr>s_fileMsgs := map_set transfer h (s_fileMsgs ss)\<rparr>) s2))"

definition fileMsg :: "jsstr \<Rightarrow> client \<Rightarrow> nat option" where
  "fileMsg transfer s =
     (case cl_session s of None \<Rightarrow> None | Some ss \<Rightarrow> map_of (s_fileMsgs ss) transfer)"

definition finishFileMessage :: "jsstr \<Rightarrow> nat \<Rightarrow> client \<Rightarrow> client" where
  "finishFileMessage transfer url s =
     (case fileMsg transfer s of
        None \<Rightarrow> s
      | Some h \<Rightarrow>
          upd_view h (\<lambda>v. v\<lparr>fv_state :=
              (if is_image (fm_type (fv_meta v)) then ShownImage url else ShownLink url)\<rparr>)
            (upd_session (\<lambda>ss. ss\<lparr>s_fileMsgs := map_delete transfer (s_fileMsgs ss)\<rparr>) s))"

definition failFileMessage :: "jsstr \<Rightarrow> jsstr \<Rightarrow> client \<Rightarrow> client" where
  "failFileMessage transfer reason s =
     (case fileMsg transfer s of
        None \<Rightarrow> s
      | Some h \<Rightarrow>
          upd_view h (\<lambda>v. v\<lparr>fv_state := FailedWith reason\<rparr>)
            (upd_session (\<lambda>ss. ss\<lparr>s_fileMsgs := map_delete transfer (s_fileMsgs ss)\<rparr>) s))"

section \<open>The staged attachment\<close>

definition MAX_FILE_BYTES :: int where "MAX_FILE_BYTES = 10 * 1024 * 1024"

definition clearStaged :: "client \<Rightarrow> client" where
  "clearStaged s =
     (let s1 = (case cl_staged s of
                  None \<Rightarrow> s
                | Some (f, url) \<Rightarrow> (revokeObjectURL url s)\<lparr>cl_staged := None\<rparr>)
      in upd_ui (\<lambda>u. u\<lparr>ui_preview := None\<rparr>) s1)"

definition renderStaged :: "client \<Rightarrow> client" where
  "renderStaged s =
     (case cl_staged s of
        None \<Rightarrow> s
      | Some (f, url) \<Rightarrow>
          upd_ui (\<lambda>u. u\<lparr>ui_preview :=
            Some (if is_image (fo_type f) then Some url else None, fo_name f,
                  formatBytes (int (length (fo_bytes f))) @ js '' '' @ middle_dot
                    @ js '' staged (not sent yet)'')\<rparr>) s)"

definition onFileSelected :: "file_obj option \<Rightarrow> client \<Rightarrow> client" where
  "onFileSelected chosen s =
     (case chosen of
        None \<Rightarrow> s
      | Some f \<Rightarrow>
          if int (length (fo_bytes f)) > MAX_FILE_BYTES then
            roomNotice (js [CHR 0x22] @ fo_name f @ js [CHR 0x22] @ js '' is too large (max ''
              @ formatBytes MAX_FILE_BYTES @ js '').'') s
          else
            (let s1 = clearStaged s;
                 (url, s2) = createObjectURL (fo_bytes f) s1
             in renderStaged (s2\<lparr>cl_staged := Some (f, url)\<rparr>)))"

section \<open>Room, lobby and dialog\<close>

definition showRoom :: "client \<Rightarrow> client" where
  "showRoom = upd_ui (\<lambda>u. u\<lparr>ui_inRoom := True, ui_roomNotice := []\<rparr>)"

text \<open>The counts come from the relay; \<open>None\<close> is a failed request.\<close>

definition stats_text :: "int \<Rightarrow> int \<Rightarrow> jsstr" where
  "stats_text online rooms =
     int_text online @ js '' '' @ js (if online = 1 then ''person'' else ''people'') @ js '' online ''
     @ middle_dot @ js '' '' @ int_text rooms @ js '' active '' @ js (if rooms = 1 then ''room'' else ''rooms'')"

text \<open>
  \<open>pollStats\<close> up to its first await: only the lobby asks for the counts. The reply is an event of
  its own, and is written whatever the page shows by then.
\<close>

definition pollStats :: "client \<Rightarrow> client" where
  "pollStats s =
     (if ui_inRoom (cl_ui s) then s else upd_ui (\<lambda>u. u\<lparr>ui_polls := Suc (ui_polls u)\<rparr>) s)"

definition stats_reply :: "(int \<times> int) option \<Rightarrow> client \<Rightarrow> client" where
  "stats_reply reply s =
     (if ui_polls (cl_ui s) = 0 then s
      else upd_ui (\<lambda>u. u\<lparr>ui_polls := ui_polls u - 1,
             ui_stats := map_option (\<lambda>(online, rooms). stats_text online rooms) reply\<rparr>) s)"

definition showLobby :: "client \<Rightarrow> client" where
  "showLobby s = pollStats (upd_ui (\<lambda>u. u\<lparr>ui_inRoom := False, ui_roomInput := []\<rparr>) s)"

lemma showLobby_eq:
  "showLobby = upd_ui (\<lambda>u. u\<lparr>ui_inRoom := False, ui_roomInput := [], ui_polls := Suc (ui_polls u)\<rparr>)"
  by (simp add: fun_eq_iff showLobby_def pollStats_def upd_ui_def)

definition openModal :: "jsstr \<Rightarrow> modal_body \<Rightarrow> (jsstr \<times> modal_action) list \<Rightarrow> client \<Rightarrow> client" where
  "openModal title body buttons = upd_ui (\<lambda>u. u\<lparr>ui_modal := Some (title, body, buttons)\<rparr>)"

definition closeModal :: "client \<Rightarrow> client" where
  "closeModal = upd_ui (\<lambda>u. u\<lparr>ui_modal := None\<rparr>)"

end
