(* ===== verification/ClientKeys.thy ===== *)
theory ClientKeys
  imports ClientView
begin

text \<open>
  Key management of web/src/main.ts: the window of room keys, the rotation when members join or
  leave, the replicated roster of public keys, and the teardown that zeroes what a session held.
  A handler in which an exception can escape returns an \<open>outcome\<close>.
\<close>

definition MAX_KEPT_KEYS :: nat where "MAX_KEPT_KEYS = 5"

text \<open>Every handler starts with \<open>if (!session) return\<close>.\<close>

definition with_session :: "client \<Rightarrow> (session \<Rightarrow> client) \<Rightarrow> client" where
  "with_session s f = (case cl_session s of None \<Rightarrow> s | Some ss \<Rightarrow> f ss)"

definition with_session_out :: "client \<Rightarrow> (session \<Rightarrow> client outcome) \<Rightarrow> client outcome" where
  "with_session_out s f = (case cl_session s of None \<Rightarrow> Done s | Some ss \<Rightarrow> f ss)"

section \<open>Reading under the held keys\<close>

fun decrypt_first :: "'p prims \<Rightarrow> bytes list \<Rightarrow> jsstr \<Rightarrow> jsstr option" where
  "decrypt_first P [] body = None"
| "decrypt_first P (k # ks) body =
     (case decryptMessage P k body of Inr t \<Rightarrow> Some t | Inl _ \<Rightarrow> decrypt_first P ks body)"

definition decryptAny :: "'p prims \<Rightarrow> jsstr \<Rightarrow> client \<Rightarrow> jsstr option" where
  "decryptAny P body s =
     (case cl_session s of
        None \<Rightarrow> None
      | Some ss \<Rightarrow> decrypt_first P (map (deref s) (s_keys ss)) body)"

definition findKeyById :: "'p prims \<Rightarrow> jsstr \<Rightarrow> client \<Rightarrow> ref option" where
  "findKeyById P i s =
     (case cl_session s of
        None \<Rightarrow> None
      | Some ss \<Rightarrow> find (\<lambda>k. keyId P (deref s k) = i) (s_keys ss))"

section \<open>The key window\<close>

definition pushKey :: "ref \<Rightarrow> client \<Rightarrow> client" where
  "pushKey k s = with_session s (\<lambda>ss.
     let ks = k # s_keys ss
     in wipe_all (drop MAX_KEPT_KEYS ks)
          (upd_session (\<lambda>x. x\<lparr>s_keys := take MAX_KEPT_KEYS ks\<rparr>) s))"

text \<open>\<open>const newKey = generateRoomKey(); pushKey(newKey)\<close>\<close>

definition fresh_key :: "'p prims \<Rightarrow> client \<Rightarrow> ref \<times> client" where
  "fresh_key P s = (let (b, s1) = draw (generateRoomKey P) s in alloc b s1)"

definition rekeyMember :: "'p prims \<Rightarrow> jsstr \<Rightarrow> ref \<Rightarrow> client \<Rightarrow> client outcome" where
  "rekeyMember P memberId newKey s = with_session_out s (\<lambda>ss.
     case map_of (s_memberPubs ss) memberId of
       None \<Rightarrow> Done s
     | Some pub \<Rightarrow>
         (case sealRoomKey P (deref s (s_priv ss)) (deref s pub) (deref s newKey) (cl_random s) of
            Inl e \<Rightarrow> Throws e s
          | Inr (env, pos) \<Rightarrow> Done (send (Rekey memberId env) (s\<lparr>cl_random := pos\<rparr>))))"

section \<open>The roster\<close>

definition index_text :: "nat \<Rightarrow> jsstr" where
  "index_text n = nat_text n"

text \<open>\<open>Object.entries\<close>, which throws on \<open>null\<close>.\<close>

definition object_entries :: "json \<Rightarrow> exn + (jsstr \<times> json) list" where
  "object_entries j =
     (case j of
        JNull \<Rightarrow> Inl TypeErr
      | JObj ms \<Rightarrow> Inr ms
      | JArr xs \<Rightarrow> Inr (map (\<lambda>i. (index_text i, xs ! i)) [0..<length xs])
      | JStr u \<Rightarrow> Inr (map (\<lambda>i. (index_text i, JStr [u ! i])) [0..<length u])
      | _ \<Rightarrow> Inr [])"

text \<open>One entry of a roster: a value that is not base64url text throws and ends the loop.\<close>

definition set_member_pub :: "jsstr \<times> json \<Rightarrow> client \<Rightarrow> client outcome" where
  "set_member_pub e s =
     (case snd e of
        JStr t \<Rightarrow>
          (case b64urlToBytes t of
             Inl x \<Rightarrow> Throws x s
           | Inr pub \<Rightarrow>
               (let (r, s1) = alloc pub s
                in Done (upd_session (\<lambda>ss. ss\<lparr>s_memberPubs := map_set (fst e) r (s_memberPubs ss)\<rparr>) s1)))
      | _ \<Rightarrow> Throws TypeErr s)"

definition applyRoster :: "'p prims \<Rightarrow> jsstr \<Rightarrow> client \<Rightarrow> client" where
  "applyRoster P dat s = with_session s (\<lambda>ss.
     case decryptAny P dat s of
       None \<Rightarrow> s
     | Some json \<Rightarrow>
         if json = [] then s
         else
           (case bind_result (json_parse json) object_entries of
              Inl _ \<Rightarrow> s
            | Inr es \<Rightarrow> state_of (for_each set_member_pub es s)))"

definition roster_json :: "client \<Rightarrow> session \<Rightarrow> json" where
  "roster_json s ss =
     JObj (foldl (\<lambda>ms (i, pub). map_set i (JStr (bytesToB64url (deref s pub))) ms)
             [(s_memberId ss, JStr (bytesToB64url (s_pub ss)))] (s_memberPubs ss))"

definition broadcastRoster :: "'p prims \<Rightarrow> client \<Rightarrow> client" where
  "broadcastRoster P s = with_session s (\<lambda>ss.
     if s_role ss \<noteq> Owner then s
     else case s_keys ss of
       [] \<Rightarrow> s
     | k # _ \<Rightarrow>
         (let (env, s1) = draw (encryptMessage P (deref s k) (stringify (roster_json s ss))) s
          in send (Roster env) s1))"

section \<open>Presence\<close>

definition ownerIdOf :: "member_info list \<Rightarrow> jsstr" where
  "ownerIdOf members = (case find (\<lambda>m. mi_role m = Owner) members of None \<Rightarrow> [] | Some m \<Rightarrow> mi_id m)"

definition inviteBtn_for :: "member_role \<Rightarrow> client \<Rightarrow> client" where
  "inviteBtn_for r = upd_ui (\<lambda>u. u\<lparr>ui_inviteBtn := (r = Owner)\<rparr>)"

text \<open>
  The rotation for members that left: forget them, then make a new key and send it to everyone
  who is still there.
\<close>

definition rotate_for_leavers ::
    "'p prims \<Rightarrow> jsstr list \<Rightarrow> jsstr list \<Rightarrow> client \<Rightarrow> client outcome" where
  "rotate_for_leavers P removed current s =
     (let s1 = foldl (\<lambda>t i. upd_session (\<lambda>ss. ss\<lparr>s_knownMembers := set_delete i (s_knownMembers ss),
                   s_memberPubs := map_delete i (s_memberPubs ss)\<rparr>) t) s removed;
          (newKey, s2) = fresh_key P s1
      in for_each (\<lambda>i t. with_session_out t (\<lambda>ss.
             if i \<noteq> s_memberId ss then rekeyMember P i newKey t else Done t))
           current (pushKey newKey s2))"

text \<open>What the owner does on every presence; a new owner first takes the list over.\<close>

definition owner_duties :: "'p prims \<Rightarrow> bool \<Rightarrow> member_info list \<Rightarrow> client \<Rightarrow> client outcome" where
  "owner_duties P becameOwner members s =
     (let current = set_of_list (map mi_id members);
          s1 = (if becameOwner then upd_session (\<lambda>x. x\<lparr>s_knownMembers := current\<rparr>) s else s);
          known = (case cl_session s1 of None \<Rightarrow> [] | Some ss \<Rightarrow> s_knownMembers ss);
          removed = [i \<leftarrow> known. i \<notin> set current]
      in and_then (if removed \<noteq> [] then rotate_for_leavers P removed current s1 else Done s1)
           (\<lambda>t. Done (broadcastRoster P (upd_session (\<lambda>x. x\<lparr>s_knownMembers := current\<rparr>) t))))"

definition onPresence :: "'p prims \<Rightarrow> member_info list \<Rightarrow> client \<Rightarrow> client outcome" where
  "onPresence P members s = with_session_out s (\<lambda>ss.
     let newOwnerId = ownerIdOf members;
         becameOwner = (newOwnerId = s_memberId ss \<and> s_role ss \<noteq> Owner);
         role = (if newOwnerId = s_memberId ss then Owner else Member);
         s1 = renderMembers members (inviteBtn_for role
                (upd_session (\<lambda>x. x\<lparr>s_ownerId := newOwnerId, s_role := role\<rparr>) s))
     in if role \<noteq> Owner then Done s1 else owner_duties P becameOwner members s1)"

text \<open>A rotated key, sealed to this member by the owner the roster names.\<close>

definition onRekey :: "'p prims \<Rightarrow> server_msg \<Rightarrow> client \<Rightarrow> client" where
  "onRekey P msg s = with_session s (\<lambda>ss.
     case sm_data msg of
       None \<Rightarrow> s
     | Some d \<Rightarrow>
         (case map_of (s_memberPubs ss) (s_ownerId ss) of
            None \<Rightarrow> s
          | Some ownerPub \<Rightarrow>
              (case openRoomKey P (deref s (s_priv ss)) (deref s ownerPub) d of
                 Inl _ \<Rightarrow> s
               | Inr key \<Rightarrow> (let (r, s1) = alloc key s in pushKey r s1))))"

section \<open>Teardown\<close>

definition key_material :: "session \<Rightarrow> ref list" where
  "key_material ss =
     s_keys ss @ [s_priv ss] @ (case s_firstOwnerPub ss of None \<Rightarrow> [] | Some r \<Rightarrow> [r])
       @ concat (map (\<lambda>e. case hr_ke (snd e) of None \<Rightarrow> [] | Some r \<Rightarrow> [r]) (s_handshakes ss))"

definition wipe_session :: "session \<Rightarrow> client \<Rightarrow> client" where
  "wipe_session ss s =
     (let s1 = wipe_all (s_keys ss) s;
          s2 = wipeKey (s_priv ss) s1;
          s3 = (case s_firstOwnerPub ss of None \<Rightarrow> s2 | Some r \<Rightarrow> wipeKey r s2);
          s4 = foldl (\<lambda>t e. case hr_ke (snd e) of None \<Rightarrow> t | Some r \<Rightarrow> wipeKey r t) s3 (s_handshakes ss);
          s5 = foldl (\<lambda>t u. revokeObjectURL u t) s4 (s_objectUrls ss)
      in ws_close (s_ws ss) s5)"

definition teardown :: "bool \<Rightarrow> client \<Rightarrow> client" where
  "teardown returnToLobby s =
     (let s1 = s\<lparr>cl_session := None, cl_pendingJoin := None\<rparr>;
          s2 = (case cl_session s of None \<Rightarrow> s1 | Some ss \<Rightarrow> wipe_session ss s1);
          s3 = upd_ui (\<lambda>u. u\<lparr>ui_messages := [], ui_members := [], ui_memberCount := 0, ui_roomId := [],
                            ui_inviteBox := False, ui_inviteLink := [], ui_inviteBtn := False\<rparr>) s2;
          s4 = clearStaged s3
      in if returnToLobby then showLobby s4 else s4)"

end
