(* ===== verification/ClientJoin.thy ===== *)
theory ClientJoin
  imports ClientKeys
begin

text \<open>
  Joining a room in web/src/main.ts: invites and the owner's side of the handshake, the joiner's
  side, the exchange of public keys under the handshake secret, the delivery of the room key, and
  the welcome. The callbacks given to a \<open>HandshakeSession\<close> are run on its outputs in order.
\<close>

section \<open>Welcome and invites\<close>

definition onWelcome :: "server_msg \<Rightarrow> client \<Rightarrow> client" where
  "onWelcome msg s = with_session s (\<lambda>ss.
     let memberId = or_else (sm_memberId msg) (s_memberId ss);
         members = or_else (sm_members msg) [];
         ownerId = ownerIdOf members;
         role = (if ownerId = memberId then Owner else Member);
         room = or_else (sm_room msg) [];
         s1 = upd_session (\<lambda>x. x\<lparr>s_room := room, s_memberId := memberId, s_ownerId := ownerId, s_role := role,
                s_knownMembers := (if role = Owner then set_of_list (map mi_id members) else s_knownMembers x),
                s_memberPubs := (case s_firstOwnerPub x of
                    Some r \<Rightarrow> if ownerId \<noteq> [] then map_set ownerId r (s_memberPubs x) else s_memberPubs x
                  | None \<Rightarrow> s_memberPubs x)\<rparr>) s;
         s2 = upd_ui (\<lambda>u. u\<lparr>ui_roomId := room, ui_inviteBtn := (role = Owner), ui_lobbyStatus := []\<rparr>) s1
     in showRoom (renderMembers members s2))"

definition onInviteCreated :: "'p prims \<Rightarrow> server_msg \<Rightarrow> client \<Rightarrow> client outcome" where
  "onInviteCreated P msg s = with_session_out s (\<lambda>ss.
     case sm_token msg of
       None \<Rightarrow> Done s
     | Some token \<Rightarrow>
         if token = [] then Done s
         else
           (let (code, s1) = draw (generateCode P) s;
                s2 = upd_session (\<lambda>x. x\<lparr>s_pendingInvites := map_set token code (s_pendingInvites x)\<rparr>) s1
            in case buildInviteLink (pg_base (cl_page s)) token code of
                 Inl e \<Rightarrow> Throws e s2
               | Inr link \<Rightarrow> Done (upd_ui (\<lambda>u. u\<lparr>ui_inviteLink := link, ui_inviteBox := True\<rparr>) s2)))"

section \<open>Handshake records and their callbacks\<close>

definition upd_handshake :: "jsstr \<Rightarrow> (hs_record \<Rightarrow> hs_record) \<Rightarrow> client \<Rightarrow> client" where
  "upd_handshake hsId f = upd_session (\<lambda>ss.
     case map_of (s_handshakes ss) hsId of
       None \<Rightarrow> ss
     | Some rec \<Rightarrow> ss\<lparr>s_handshakes := map_set hsId (f rec) (s_handshakes ss)\<rparr>)"

definition find_handshake :: "jsstr \<Rightarrow> client \<Rightarrow> hs_record option" where
  "find_handshake hsId s =
     (case cl_session s of None \<Rightarrow> None | Some ss \<Rightarrow> map_of (s_handshakes ss) hsId)"

definition delete_handshake :: "jsstr \<Rightarrow> client \<Rightarrow> client" where
  "delete_handshake hsId = upd_session (\<lambda>ss. ss\<lparr>s_handshakes := map_delete hsId (s_handshakes ss)\<rparr>)"

text \<open>The three callbacks; the joiner's failure callback ends the attempt.\<close>

definition hs_confirmed :: "'p prims \<Rightarrow> jsstr \<Rightarrow> bytes \<Rightarrow> client \<Rightarrow> client" where
  "hs_confirmed P hsId ke s = with_session s (\<lambda>ss.
     let (r, s1) = alloc ke s;
         s2 = upd_handshake hsId (\<lambda>rec. rec\<lparr>hr_ke := Some r\<rparr>) s1;
         (env, s3) = draw (sealUnderKe P ke (s_pub ss)) s2
     in send (MemberKey hsId env) s3)"

definition owner_failed :: "jsstr \<Rightarrow> client \<Rightarrow> client" where
  "owner_failed hsId s = delete_handshake hsId s"

definition joiner_failed :: "client \<Rightarrow> client" where
  "joiner_failed s = teardown True (lobbyError (js ''Wrong code or handshake failed.'') s)"

definition hs_failed :: "jsstr \<Rightarrow> hs_role \<Rightarrow> client \<Rightarrow> client" where
  "hs_failed hsId role s = (case role of HsOwner \<Rightarrow> owner_failed hsId s | HsJoiner \<Rightarrow> joiner_failed s)"

lemmas hs_failed_defs = hs_failed_def owner_failed_def joiner_failed_def

definition run_callback :: "'p prims \<Rightarrow> jsstr \<Rightarrow> hs_role \<Rightarrow> hs_output \<Rightarrow> client \<Rightarrow> client" where
  "run_callback P hsId role out s =
     (case out of
        SendPake d \<Rightarrow> send (Pake hsId d) s
      | OnConfirmed ke \<Rightarrow> hs_confirmed P hsId ke s
      | OnFail reason \<Rightarrow> hs_failed hsId role s)"

definition run_callbacks :: "'p prims \<Rightarrow> jsstr \<Rightarrow> hs_role \<Rightarrow> hs_output list \<Rightarrow> client \<Rightarrow> client" where
  "run_callbacks P hsId role outs s = foldl (\<lambda>t out. run_callback P hsId role out t) s outs"

text \<open>
  \<open>new HandshakeSession(...)\<close> followed by \<open>handshakes.set\<close>: the constructor sends the point before
  the record is stored, and stores nothing when it throws (by then the scalar has been drawn).
\<close>

definition begin_handshake ::
    "'p prims \<Rightarrow> role \<Rightarrow> hs_role \<Rightarrow> jsstr option \<Rightarrow> jsstr \<Rightarrow> jsstr \<Rightarrow> client \<Rightarrow> client outcome" where
  "begin_handshake P r role joiner code hsId s =
     (case new_handshake P r code hsId (cl_random s) of
        Inl e \<Rightarrow> Throws e (s\<lparr>cl_random := cl_random s + SCALAR_BYTES + 16\<rparr>)
      | Inr ((h, outs), pos) \<Rightarrow>
          (let s1 = run_callbacks P hsId role outs (s\<lparr>cl_random := pos\<rparr>);
               rec = \<lparr>hr_hs = h, hr_role = role, hr_joiner = joiner, hr_ke = None, hr_pending = None\<rparr>
           in Done (upd_session (\<lambda>ss. ss\<lparr>s_handshakes := map_set hsId rec (s_handshakes ss)\<rparr>) s1)))"

definition onInviteRedeemed :: "'p prims \<Rightarrow> server_msg \<Rightarrow> client \<Rightarrow> client outcome" where
  "onInviteRedeemed P msg s = with_session_out s (\<lambda>ss.
     if falsy (sm_handshake msg) \<or> falsy (sm_token msg) \<or> falsy (sm_memberId msg) then Done s
     else
       (let token = or_else (sm_token msg) []; hsId = or_else (sm_handshake msg) []
        in case map_of (s_pendingInvites ss) token of
             None \<Rightarrow> Done s
           | Some code \<Rightarrow>
               if code = [] then Done s
               else begin_handshake P RoleA HsOwner (sm_memberId msg) code hsId
                      (upd_session (\<lambda>x. x\<lparr>s_pendingInvites := map_delete token (s_pendingInvites x)\<rparr>) s)))"

definition onRedeemOk :: "'p prims \<Rightarrow> server_msg \<Rightarrow> client \<Rightarrow> client outcome" where
  "onRedeemOk P msg s = with_session_out s (\<lambda>ss.
     if falsy (sm_handshake msg) then Done s
     else case cl_pendingJoin s of
       None \<Rightarrow> Done s
     | Some (token, code) \<Rightarrow>
         begin_handshake P RoleB HsJoiner None code (or_else (sm_handshake msg) [])
           (lobbyStatus (js ''Establishing a secure channel'' @ ellipsis)
             ((upd_session (\<lambda>x. x\<lparr>s_memberId := or_else (sm_memberId msg) []\<rparr>) s)\<lparr>cl_pendingJoin := None\<rparr>)))"

definition onPake :: "'p prims \<Rightarrow> server_msg \<Rightarrow> client \<Rightarrow> client outcome" where
  "onPake P msg s =
     (case (sm_handshake msg, sm_data msg) of
        (Some hsId, Some d) \<Rightarrow>
          if hsId = [] then Done s
          else
            (case find_handshake hsId s of
               None \<Rightarrow> Done s
             | Some rec \<Rightarrow>
                 (case onData P (hr_hs rec) d of
                    Inl e \<Rightarrow> Throws e s
                  | Inr (h, outs) \<Rightarrow>
                      Done (run_callbacks P hsId (hr_role rec) outs
                        (upd_handshake hsId (\<lambda>x. x\<lparr>hr_hs := h\<rparr>) s))))
      | _ \<Rightarrow> Done s)"

section \<open>Public keys and the room key\<close>

definition rotateForJoin :: "'p prims \<Rightarrow> jsstr \<Rightarrow> ref \<Rightarrow> client \<Rightarrow> client outcome" where
  "rotateForJoin P joinerId joinerPub s = with_session_out s (\<lambda>ss.
     let (newKey, s1) = fresh_key P s;
         s2 = pushKey newKey s1;
         hs = find (\<lambda>e. hr_joiner (snd e) = Some joinerId) (s_handshakes ss);
         deliver = (\<lambda>t. case hs of
             None \<Rightarrow> Done t
           | Some (hsId, rec) \<Rightarrow>
               if hsId = [] then Done t
               else case sealRoomKey P (deref t (s_priv ss)) (deref t joinerPub) (deref t newKey) (cl_random t) of
                 Inl e \<Rightarrow> Throws e t
               | Inr (env, pos) \<Rightarrow> Done (send (KeyDeliver hsId env) (t\<lparr>cl_random := pos\<rparr>)));
         others = [i \<leftarrow> s_knownMembers ss. i \<noteq> s_memberId ss \<and> i \<noteq> joinerId]
     in and_then (deliver s2) (\<lambda>t.
        and_then (for_each (\<lambda>i. rekeyMember P i newKey) others t) (\<lambda>t2.
          Done (upd_session (\<lambda>x. x\<lparr>s_knownMembers := set_add joinerId (s_knownMembers x)\<rparr>) t2))))"

definition finishJoin :: "'p prims \<Rightarrow> jsstr \<Rightarrow> hs_record \<Rightarrow> jsstr \<Rightarrow> client \<Rightarrow> client" where
  "finishJoin P hsId rec dat s = with_session s (\<lambda>ss.
     case s_firstOwnerPub ss of
       None \<Rightarrow> s
     | Some ownerPub \<Rightarrow>
         (case openRoomKey P (deref s (s_priv ss)) (deref s ownerPub) dat of
            Inl _ \<Rightarrow> teardown True (lobbyError (js ''Failed to receive the room key.'') s)
          | Inr roomKey \<Rightarrow>
              (let (r, s1) = alloc roomKey s;
                   s2 = pushKey r s1;
                   s3 = (case hr_ke rec of None \<Rightarrow> s2 | Some ke \<Rightarrow> wipeKey ke s2)
               in send (Enter hsId) (delete_handshake hsId s3))))"

text \<open>What each role does with the public key it has opened.\<close>

definition accept_peer_key :: "'p prims \<Rightarrow> jsstr \<Rightarrow> hs_record \<Rightarrow> bytes \<Rightarrow> client \<Rightarrow> client outcome" where
  "accept_peer_key P hsId rec peerPub s =
     (let (r, s1) = alloc peerPub s in
      case hr_role rec of
        HsOwner \<Rightarrow>
          (let joinerId = or_else (hr_joiner rec) []
           in and_then
                (rotateForJoin P joinerId r
                  (upd_session (\<lambda>x. x\<lparr>s_memberPubs := map_set joinerId r (s_memberPubs x)\<rparr>) s1))
                (\<lambda>t. Done (delete_handshake hsId t)))
      | HsJoiner \<Rightarrow>
          (let s2 = upd_session (\<lambda>x. x\<lparr>s_firstOwnerPub := Some r\<rparr>) s1
           in if falsy (hr_pending rec) then Done s2
              else Done (finishJoin P hsId rec (or_else (hr_pending rec) []) s2)))"

definition onMemberKey :: "'p prims \<Rightarrow> server_msg \<Rightarrow> client \<Rightarrow> client outcome" where
  "onMemberKey P msg s = with_session_out s (\<lambda>ss.
     if falsy (sm_handshake msg) \<or> sm_data msg = None then Done s
     else
       (let hsId = or_else (sm_handshake msg) []; d = or_else (sm_data msg) []
        in case map_of (s_handshakes ss) hsId of
             None \<Rightarrow> Done s
           | Some rec \<Rightarrow>
               (case hr_ke rec of
                  None \<Rightarrow> Done s
                | Some ke \<Rightarrow>
                    (case openUnderKe P (deref s ke) d of
                       Inl _ \<Rightarrow> Done s
                     | Inr peerPub \<Rightarrow> accept_peer_key P hsId rec peerPub s))))"

definition onKeyDeliver :: "'p prims \<Rightarrow> server_msg \<Rightarrow> client \<Rightarrow> client" where
  "onKeyDeliver P msg s = with_session s (\<lambda>ss.
     case (sm_handshake msg, sm_data msg) of
       (Some hsId, Some d) \<Rightarrow>
         if hsId = [] then s
         else
           (case map_of (s_handshakes ss) hsId of
              None \<Rightarrow> s
            | Some rec \<Rightarrow>
                (case s_firstOwnerPub ss of
                   None \<Rightarrow> upd_handshake hsId (\<lambda>x. x\<lparr>hr_pending := Some d\<rparr>) s
                 | Some _ \<Rightarrow> finishJoin P hsId rec d s))
     | _ \<Rightarrow> s)"

end
