(* ===== verification/ClientFiles.thy ===== *)
theory ClientFiles
  imports ClientJoin
begin

text \<open>
  Encrypted file transfer in web/src/main.ts. An upload is a suspended \<open>sendFile\<close>: it keeps the
  reference of the room key that was current when it started and seals one chunk each time it is
  resumed. A download collects chunks by index until all have arrived.
\<close>

definition CHUNK_SIZE :: nat where "CHUNK_SIZE = 64 * 1024"

section \<open>Sending\<close>

definition hex_pair :: "byte \<Rightarrow> jsstr" where
  "hex_pair b = [hex_digit (unat b div 16), hex_digit (unat b mod 16)]"

definition randomId :: "'p prims \<Rightarrow> nat \<Rightarrow> jsstr \<times> nat" where
  "randomId P pos = (let (b, pos') = random_bytes P 16 pos in (concat (map hex_pair b), pos'))"

text \<open>\<open>Math.max(1, Math.ceil(length / CHUNK_SIZE))\<close> and \<open>buf.subarray(i * CHUNK_SIZE, ...)\<close>\<close>

definition chunk_total :: "bytes \<Rightarrow> nat" where
  "chunk_total buf = max 1 ((length buf + CHUNK_SIZE - 1) div CHUNK_SIZE)"

definition chunk_of :: "bytes \<Rightarrow> nat \<Rightarrow> bytes" where
  "chunk_of buf i = take CHUNK_SIZE (drop (i * CHUNK_SIZE) buf)"

definition meta_json :: "file_meta \<Rightarrow> json" where
  "meta_json m = JObj [(js ''name'', JStr (fm_name m)), (js ''type'', JStr (fm_type m)),
                       (js ''size'', JNum (fm_size m)), (js ''chunks'', JNum (fm_chunks m))]"

definition file_meta_for :: "file_obj \<Rightarrow> file_meta" where
  "file_meta_for f = \<lparr>fm_name = fo_name f, fm_type = fo_type f, fm_size = int (length (fo_bytes f)),
                      fm_chunks = int (chunk_total (fo_bytes f))\<rparr>"

text \<open>Up to the first await: the key is captured before the file is read.\<close>

definition sendFile :: "'p prims \<Rightarrow> file_obj \<Rightarrow> client \<Rightarrow> client" where
  "sendFile P file s = with_session s (\<lambda>ss.
     case s_keys ss of
       [] \<Rightarrow> s
     | key # _ \<Rightarrow>
         (let kid = keyId P (deref s key);
              (transfer, s1) = draw (randomId P) s
          in s1\<lparr>cl_uploads := cl_uploads s1 @
               [\<lparr>up_key = key, up_kid = kid, up_transfer = transfer, up_file = file, up_view = 0,
                 up_stage = ReadingFile\<rparr>]\<rparr>))"

text \<open>The body of the loop up to its await.\<close>

definition send_chunk :: "'p prims \<Rightarrow> upload \<Rightarrow> nat \<Rightarrow> client \<Rightarrow> client" where
  "send_chunk P up i s =
     (let buf = fo_bytes (up_file up);
          (env, s1) = draw (sealBytes P (deref s (up_key up)) (chunk_of buf i)) s;
          s2 = send (FileChunk (up_transfer up) (int i) env) s1
      in setFileProgress (up_view up) (int (i + 1)) (int (chunk_total buf)) s2)"

text \<open>One resumption; \<open>None\<close> when the call has returned.\<close>

definition resume_upload :: "'p prims \<Rightarrow> upload \<Rightarrow> client \<Rightarrow> upload option \<times> client" where
  "resume_upload P up s =
     (let buf = fo_bytes (up_file up) in
      case up_stage up of
        ReadingFile \<Rightarrow>
          (let meta = file_meta_for (up_file up);
               (h, s1) = startFileMessage (up_transfer up) (js ''you'') meta True s;
               (env, s2) = draw (encryptMessage P (deref s1 (up_key up)) (stringify (meta_json meta))) s1;
               s3 = send (FileStart (up_transfer up) (up_kid up) env) s2;
               up1 = up\<lparr>up_view := h, up_stage := AfterChunk 0\<rparr>
           in (Some up1, send_chunk P up1 0 s3))
      | AfterChunk i \<Rightarrow>
          if cl_session s = None then (None, s)
          else if i + 1 < chunk_total buf then
            (Some (up\<lparr>up_stage := AfterChunk (i + 1)\<rparr>), send_chunk P up (i + 1) s)
          else
            (let s1 = send (FileEnd (up_transfer up)) s;
                 (url, s2) = createObjectURL buf s1
             in (None, finishFileMessage (up_transfer up) url (trackUrl url s2))))"

definition resume_nth :: "'p prims \<Rightarrow> nat \<Rightarrow> client \<Rightarrow> client" where
  "resume_nth P n s =
     (if n < length (cl_uploads s) then
        (let (next, s1) = resume_upload P (cl_uploads s ! n) s
         in s1\<lparr>cl_uploads := (case next of
               Some up \<Rightarrow> (cl_uploads s1)[n := up]
             | None \<Rightarrow> take n (cl_uploads s1) @ drop (Suc n) (cl_uploads s1))\<rparr>)
      else s)"

section \<open>Receiving\<close>

text \<open>
  The metadata a peer sends. Its number of chunks decides: an integer from 1 to 100000 is
  accepted, a non-integer in that range makes \<open>new Array\<close> throw, anything else is ignored (a
  number written as a string or a boolean is outside the declared type and ignored here). The
  other fields are only shown.
\<close>

definition chunk_count :: "json \<Rightarrow> (exn + int) option" where
  "chunk_count j =
     (case member (js ''chunks'') j of
        Some (JNum n) \<Rightarrow> if n < 1 \<or> n > 100000 then None else Some (Inr n)
      | Some (JDec m k) \<Rightarrow> if m < 10 ^ k \<or> m > 100000 * 10 ^ k then None else Some (Inl RangeErr)
      | _ \<Rightarrow> None)"

definition meta_of :: "json \<Rightarrow> int \<Rightarrow> file_meta" where
  "meta_of j n =
     \<lparr>fm_name = dom_string (member (js ''name'') j),
      fm_type = (case member (js ''type'') j of Some (JStr t) \<Rightarrow> t | _ \<Rightarrow> []),
      fm_size = (case member (js ''size'') j of Some (JNum k) \<Rightarrow> k | _ \<Rightarrow> 0),
      fm_chunks = n\<rparr>"

definition onFileStart :: "'p prims \<Rightarrow> server_msg \<Rightarrow> client \<Rightarrow> client outcome" where
  "onFileStart P msg s = with_session_out s (\<lambda>ss.
     if falsy (sm_transfer msg) \<or> falsy (sm_keyId msg) \<or> sm_data msg = None then Done s
     else case findKeyById P (or_else (sm_keyId msg) []) s of
       None \<Rightarrow> Done s
     | Some key \<Rightarrow>
         (case bind_result (decryptMessage P (deref s key) (or_else (sm_data msg) [])) json_parse of
            Inl _ \<Rightarrow> Done s
          | Inr j \<Rightarrow>
              if j = JNull then Throws TypeErr s
              else case chunk_count j of
                None \<Rightarrow> Done s
              | Some (Inl e) \<Rightarrow> Throws e s
              | Some (Inr n) \<Rightarrow>
                  (let transfer = or_else (sm_transfer msg) [];
                       nick = or_else (sm_nick msg) (js ''?'');
                       meta = meta_of j n;
                       inc = \<lparr>in_key = key, in_meta = meta, in_nick = nick,
                              in_parts = replicate (nat n) None, in_extra = [], in_received = 0\<rparr>
                   in Done (snd (startFileMessage transfer nick meta False
                        (upd_session (\<lambda>x. x\<lparr>s_incoming := map_set transfer inc (s_incoming x)\<rparr>) s))))))"

definition incoming_of :: "jsstr \<Rightarrow> client \<Rightarrow> incoming option" where
  "incoming_of transfer s =
     (case cl_session s of None \<Rightarrow> None | Some ss \<Rightarrow> map_of (s_incoming ss) transfer)"

definition delete_incoming :: "jsstr \<Rightarrow> client \<Rightarrow> client" where
  "delete_incoming transfer = upd_session (\<lambda>ss. ss\<lparr>s_incoming := map_delete transfer (s_incoming ss)\<rparr>)"

definition finishIncoming :: "jsstr \<Rightarrow> client \<Rightarrow> client" where
  "finishIncoming transfer s =
     (case incoming_of transfer s of
        None \<Rightarrow> s
      | Some inc \<Rightarrow>
          (let blob = concat (map (\<lambda>p. case p of Some b \<Rightarrow> b | None \<Rightarrow> text_encode (js ''undefined'')) (in_parts inc));
               (url, s1) = createObjectURL blob (delete_incoming transfer s)
           in finishFileMessage transfer url (trackUrl url s1)))"

text \<open>
  Where a chunk goes: the slot of an integer index, or (second case) the property of a
  non-integer one; \<open>None\<close> when the index is out of range or taken.
\<close>

definition place_chunk :: "json option \<Rightarrow> bytes \<Rightarrow> incoming \<Rightarrow> incoming option" where
  "place_chunk idx chunk inc =
     (case idx of
        Some (JNum i) \<Rightarrow>
          if i < 0 \<or> i \<ge> fm_chunks (in_meta inc) \<or> in_parts inc ! nat i \<noteq> None then None
          else Some (inc\<lparr>in_parts := (in_parts inc)[nat i := Some chunk], in_received := in_received inc + 1\<rparr>)
      | Some (JDec m k) \<Rightarrow>
          if m < 0 \<or> m \<ge> fm_chunks (in_meta inc) * 10 ^ k
            \<or> list_ex (\<lambda>(m', k'). m * 10 ^ k' = m' * 10 ^ k) (in_extra inc) then None
          else Some (inc\<lparr>in_extra := (m, k) # in_extra inc, in_received := in_received inc + 1\<rparr>)
      | _ \<Rightarrow> None)"

definition onFileChunk :: "'p prims \<Rightarrow> server_msg \<Rightarrow> client \<Rightarrow> client" where
  "onFileChunk P msg s =
     (let transfer = or_else (sm_transfer msg) [] in
      case (incoming_of transfer s, sm_data msg) of
        (Some inc, Some d) \<Rightarrow>
          (case openBytes P (deref s (in_key inc)) d of
             Inl _ \<Rightarrow> s
           | Inr chunk \<Rightarrow>
               (case place_chunk (sm_index msg) chunk inc of
                  None \<Rightarrow> s
                | Some inc1 \<Rightarrow>
                    (let s1 = upd_session (\<lambda>ss. ss\<lparr>s_incoming := map_set transfer inc1 (s_incoming ss)\<rparr>) s;
                         s2 = (case fileMsg transfer s1 of
                                 None \<Rightarrow> s1
                               | Some h \<Rightarrow> setFileProgress h (int (in_received inc1)) (fm_chunks (in_meta inc1)) s1)
                     in if int (in_received inc1) = fm_chunks (in_meta inc1) then finishIncoming transfer s2
                        else s2)))
      | _ \<Rightarrow> s)"

definition onFileEnd :: "server_msg \<Rightarrow> client \<Rightarrow> client" where
  "onFileEnd msg s =
     (let transfer = or_else (sm_transfer msg) [] in
      if transfer \<noteq> [] \<and> incoming_of transfer s \<noteq> None
      then failFileMessage transfer (js ''transfer interrupted'') (delete_incoming transfer s)
      else s)"

definition onFileAbort :: "server_msg \<Rightarrow> client \<Rightarrow> client" where
  "onFileAbort msg s =
     (if falsy (sm_transfer msg) then s
      else (let transfer = or_else (sm_transfer msg) []
            in failFileMessage transfer (js ''transfer aborted'') (delete_incoming transfer s)))"

end
