(* ===== verification/Client.thy ===== *)
theory Client
  imports ClientFiles
begin

text \<open>
  The event loop of web/src/main.ts: the connection lifecycle, the dispatch of incoming frames,
  the user's actions, and the step function that runs one event. Everything between two awaits is
  one step; the functions that suspend (\<open>connect\<close>, \<open>sendFile\<close>) continue in a later step.
\<close>

section \<open>Errors and close\<close>

definition handleError :: "server_msg \<Rightarrow> client \<Rightarrow> client" where
  "handleError msg s =
     (if sm_reason msg = Some (js ''file_rejected'') then
        (let s1 = (if falsy (sm_transfer msg) then s
                   else failFileMessage (or_else (sm_transfer msg) []) (or_else (sm_error msg) (js ''rejected''))
                          (delete_incoming (or_else (sm_transfer msg) []) s))
         in roomNotice (js ''Attachment rejected: '' @ or_else (sm_error msg) (js ''too large'') @ js ''.'') s1)
      else if sm_reason msg = Some (js ''already_in_room'') then
        teardown False (lobbyStatus []
          (lobbyError (js ''This tab is already in a room '' @ em_dash @ js '' leave it before joining another.'') s))
      else
        (let text = or_else (sm_error msg) (js ''Error'') in
         if (case cl_session s of None \<Rightarrow> False | Some ss \<Rightarrow> s_room ss \<noteq> []) then roomNotice text s
         else teardown False (lobbyStatus [] (lobbyError text s))))"

definition in_room :: "client \<Rightarrow> bool" where
  "in_room s = (case cl_session s of None \<Rightarrow> False | Some ss \<Rightarrow> s_room ss \<noteq> [])"

definition onClose :: "client \<Rightarrow> client" where
  "onClose s =
     (let s1 = (if in_room s \<and> \<not> cl_intentionalClose s then
                  lobbyError (js ''Connection lost '' @ em_dash @ js '' the room has ended. Rejoin with a new invite.'')
                    (teardown True s)
                else if \<not> in_room s then teardown False s
                else s)
      in s1\<lparr>cl_intentionalClose := False\<rparr>)"

section \<open>Connecting\<close>

text \<open>\<open>new WebSocket\<close> and the fresh session; the create button then makes the first room key.\<close>

definition open_session :: "'p prims \<Rightarrow> client_msg \<Rightarrow> bool \<Rightarrow> client \<Rightarrow> client" where
  "open_session P hello create s =
     (let w = length (cl_sockets s);
          s1 = s\<lparr>cl_sockets := cl_sockets s @ [\<lparr>so_state = Connecting, so_hello = hello, so_sent = []\<rparr>]\<rparr>;
          (kp, s2) = draw (generateKeyPair P) s1;
          (priv, s3) = alloc (kp_priv kp) s2;
          s4 = s3\<lparr>cl_session := Some
            \<lparr>s_ws = w, s_room = [], s_memberId = [], s_role = Member, s_ownerId = [], s_keys = [],
             s_pub = kp_pub kp, s_priv = priv, s_pendingInvites = [], s_handshakes = [],
             s_memberPubs = [], s_knownMembers = [], s_firstOwnerPub = None, s_lastMembers = [],
             s_incoming = [], s_fileMsgs = [], s_objectUrls = []\<rparr>\<rparr>
      in if create then
           (let (k, s5) = fresh_key P s4 in upd_session (\<lambda>ss. ss\<lparr>s_keys := [k]\<rparr>) s5)
         else s4)"

text \<open>
  Without a session the next socket opens at once; with one, its teardown closes the old socket
  and the call waits for that close (or for the timer).
\<close>

definition connect :: "'p prims \<Rightarrow> client_msg \<Rightarrow> bool \<Rightarrow> client \<Rightarrow> client" where
  "connect P hello create s =
     (let s1 = lobbyError [] s in
      case cl_session s1 of
        None \<Rightarrow> open_session P hello create s1
      | Some ss \<Rightarrow>
          (let s2 = teardown False s1
           in s2\<lparr>cl_connects := cl_connects s2 @
                [\<lparr>pc_ws = s_ws ss, pc_hello = hello, pc_create = create\<rparr>]\<rparr>))"

definition resume_connect :: "'p prims \<Rightarrow> pending_connect \<Rightarrow> client \<Rightarrow> client" where
  "resume_connect P pc s = open_session P (pc_hello pc) (pc_create pc) s"

text \<open>The close event of a socket: its first listener is \<open>onClose\<close>, then waiting calls go on.\<close>

definition socket_closed :: "'p prims \<Rightarrow> nat \<Rightarrow> client \<Rightarrow> client" where
  "socket_closed P w s =
     (let s1 = onClose (upd_socket w (\<lambda>k. k\<lparr>so_state := Closed\<rparr>) s);
          ready = [pc \<leftarrow> cl_connects s1. pc_ws pc = w];
          s2 = s1\<lparr>cl_connects := [pc \<leftarrow> cl_connects s1. pc_ws pc \<noteq> w]\<rparr>
      in foldl (\<lambda>t pc. resume_connect P pc t) s2 ready)"

definition connect_timeout :: "'p prims \<Rightarrow> nat \<Rightarrow> client \<Rightarrow> client" where
  "connect_timeout P n s =
     (if n < length (cl_connects s) then
        resume_connect P (cl_connects s ! n)
          (s\<lparr>cl_connects := take n (cl_connects s) @ drop (Suc n) (cl_connects s)\<rparr>)
      else s)"

definition socket_opened :: "nat \<Rightarrow> client \<Rightarrow> client" where
  "socket_opened w s =
     (if socket_state s w = Connecting then
        ws_send w (client_msg_text (so_hello (cl_sockets s ! w))) (upd_socket w (\<lambda>k. k\<lparr>so_state := Open\<rparr>) s)
      else s)"

definition socket_error :: "client \<Rightarrow> client" where
  "socket_error s = (if in_room s then s else lobbyError (js ''Connection failed.'') s)"

definition recoverIfSocketDead :: "client \<Rightarrow> client" where
  "recoverIfSocketDead s =
     (case cl_session s of
        None \<Rightarrow> s
      | Some ss \<Rightarrow>
          if socket_state s (s_ws ss) \<ge> Closing then onClose (s\<lparr>cl_intentionalClose := False\<rparr>) else s)"

section \<open>Incoming frames\<close>

definition dispatch :: "'p prims \<Rightarrow> server_msg \<Rightarrow> client \<Rightarrow> client outcome" where
  "dispatch P msg s =
     (let t = sm_type msg in
      if t = js ''welcome'' then Done (onWelcome msg s)
      else if t = js ''presence'' then onPresence P (or_else (sm_members msg) []) s
      else if t = js ''chat'' then
        Done (addMessage (or_else (sm_nick msg) (js ''?''))
          (or_else (decryptAny P (or_else (sm_body msg) []) s) (js ''[unable to decrypt]'')) False s)
      else if t = js ''invite_created'' then onInviteCreated P msg s
      else if t = js ''invite_redeemed'' then onInviteRedeemed P msg s
      else if t = js ''redeem_ok'' then onRedeemOk P msg s
      else if t = js ''pake'' then onPake P msg s
      else if t = js ''member_key'' then onMemberKey P msg s
      else if t = js ''key_deliver'' then Done (onKeyDeliver P msg s)
      else if t = js ''rekey'' then Done (onRekey P msg s)
      else if t = js ''roster'' then Done (applyRoster P (or_else (sm_data msg) []) s)
      else if t = js ''file_start'' then onFileStart P msg s
      else if t = js ''file_chunk'' then Done (onFileChunk P msg s)
      else if t = js ''file_end'' then Done (onFileEnd msg s)
      else if t = js ''file_abort'' then Done (onFileAbort msg s)
      else if t = js ''room_closed'' then
        Done (lobbyError (closeReason (sm_reason msg)) (teardown True (s\<lparr>cl_intentionalClose := True\<rparr>)))
      else if t = js ''error'' then Done (handleError msg s)
      else Done s)"

definition onMessage :: "'p prims \<Rightarrow> jsstr \<Rightarrow> client \<Rightarrow> client outcome" where
  "onMessage P dat s =
     (case json_parse dat of
        Inl _ \<Rightarrow> Done s
      | Inr j \<Rightarrow> if j = JNull then Throws TypeErr s else dispatch P (server_msg_of j) s)"

section \<open>The user's actions\<close>

definition create_clicked :: "'p prims \<Rightarrow> jsstr \<Rightarrow> client \<Rightarrow> client" where
  "create_clicked P nick s = connect P (Create (js_trim nick) (pg_session (cl_page s))) True s"

definition join_submitted :: "'p prims \<Rightarrow> jsstr \<Rightarrow> jsstr \<Rightarrow> client \<Rightarrow> client" where
  "join_submitted P link nick s =
     (case parseInvite (js_trim link) of
        None \<Rightarrow> lobbyError (js ''That invite link is invalid or missing its code.'') s
      | Some (token, code) \<Rightarrow>
          connect P (Redeem token (js_trim nick) (pg_session (cl_page s))) False
            (lobbyStatus (js ''Redeeming invite'' @ ellipsis) (s\<lparr>cl_pendingJoin := Some (token, code)\<rparr>)))"

definition member_action :: "bool \<Rightarrow> bool \<Rightarrow> jsstr \<Rightarrow> client \<Rightarrow> client" where
  "member_action make_owner confirmed target s = with_session s (\<lambda>ss.
     if s_role ss \<noteq> Owner then s
     else if make_owner then (if confirmed then send (Transfer target) s else s)
     else send (Kick target) s)"

definition copy_invite :: "bool \<Rightarrow> client \<Rightarrow> client" where
  "copy_invite ok s =
     (if ok then roomNotice (js ''Invite link copied '' @ em_dash @ js '' share it privately; it works once.'') s else s)"

definition message_submitted :: "'p prims \<Rightarrow> jsstr \<Rightarrow> client \<Rightarrow> client" where
  "message_submitted P body s = with_session s (\<lambda>ss.
     case s_keys ss of
       [] \<Rightarrow> s
     | k # _ \<Rightarrow>
         (let s1 = (if js_trim body = [] then s
                    else (let (env, t) = draw (encryptMessage P (deref s k) body) s
                          in addMessage (js ''you'') body True (send (Msg env) t)))
          in case cl_staged s1 of
               None \<Rightarrow> s1
             | Some (f, url) \<Rightarrow> sendFile P f (clearStaged s1)))"

definition doLeave :: "client \<Rightarrow> client" where
  "doLeave s = teardown True (send Leave (s\<lparr>cl_intentionalClose := True\<rparr>))"

definition onLeaveClicked :: "client \<Rightarrow> client" where
  "onLeaveClicked s = with_session s (\<lambda>ss.
     if s_role ss \<noteq> Owner then doLeave s
     else
       (let others = [m \<leftarrow> s_lastMembers ss. mi_id m \<noteq> s_memberId ss] in
        if others = [] then
          openModal (js ''Leave room?'')
            (TextBody (js ''You're the owner and the only member. Leaving closes this room.''))
            [(js ''Cancel'', DismissModal), (js ''Close room & leave'', DoLeave)] s
        else
          openModal (js ''Leave room?'')
            (SelectBody
              (js ''You're the owner. Recommended: transfer ownership before leaving so the room stays open. Destroying it removes everyone.'')
              (js ''Transfer ownership to:'') (map (\<lambda>m. (mi_id m, mi_nick m)) others))
            [(js ''Transfer & leave'', TransferAndLeave), (js ''Destroy room & leave'', DoLeave),
             (js ''Cancel'', DismissModal)] s))"

text \<open>A click on a button of the dialog, with the member selected in it.\<close>

definition modal_clicked :: "modal_action \<Rightarrow> jsstr \<Rightarrow> client \<Rightarrow> client" where
  "modal_clicked action selected s =
     (let s1 = closeModal s in
      case action of
        DismissModal \<Rightarrow> s1
      | DoLeave \<Rightarrow> doLeave s1
      | TransferAndLeave \<Rightarrow> doLeave (if selected \<noteq> [] then send (Transfer selected) s1 else s1))"

definition bootstrapFromHash :: "jsstr \<Rightarrow> client \<Rightarrow> client outcome" where
  "bootstrapFromHash hash s =
     (if hash = [] then Done s
      else case parseInvite hash of
        None \<Rightarrow> Done s
      | Some (token, code) \<Rightarrow>
          (case buildInviteLink (pg_base (cl_page s)) token code of
             Inl e \<Rightarrow> Throws e s
           | Inr link \<Rightarrow>
               Done (lobbyStatus (js ''Invite detected '' @ em_dash @ js '' enter a nickname and Join.'')
                 (upd_ui (\<lambda>u. u\<lparr>ui_roomInput := link\<rparr>) s))))"

section \<open>Events\<close>

datatype client_event =
    SocketOpened nat
  | SocketMessage nat jsstr
  | SocketClosed nat
  | SocketFailed nat
  | ConnectTimeout nat
  | UploadReady nat
  | StatsTimer
  | StatsReply "(int \<times> int) option"
  | PageVisible
  | PageUnload
  | CreateClicked jsstr
  | JoinSubmitted jsstr jsstr
  | InviteClicked
  | FileSelected "file_obj option"
  | RemoveStaged
  | MemberAction bool bool jsstr
  | CopyInvite bool
  | MessageSubmitted jsstr
  | LeaveClicked
  | ModalClicked modal_action jsstr

definition handle_event :: "'p prims \<Rightarrow> client_event \<Rightarrow> client \<Rightarrow> client outcome" where
  "handle_event P e s =
     (case e of
        SocketOpened w \<Rightarrow> Done (socket_opened w s)
      | SocketMessage w t \<Rightarrow> if socket_state s w = Open then onMessage P t s else Done s
      | SocketClosed w \<Rightarrow> if socket_state s w = Closed then Done s else Done (socket_closed P w s)
      | SocketFailed w \<Rightarrow> Done (socket_error s)
      | ConnectTimeout n \<Rightarrow> Done (connect_timeout P n s)
      | UploadReady n \<Rightarrow> Done (resume_nth P n s)
      | StatsTimer \<Rightarrow> Done (pollStats s)
      | StatsReply r \<Rightarrow> Done (stats_reply r s)
      | PageVisible \<Rightarrow> Done (recoverIfSocketDead s)
      | PageUnload \<Rightarrow> Done (send Leave s)
      | CreateClicked nick \<Rightarrow> Done (create_clicked P nick s)
      | JoinSubmitted link nick \<Rightarrow> Done (join_submitted P link nick s)
      | InviteClicked \<Rightarrow> Done (send Invite s)
      | FileSelected f \<Rightarrow> Done (onFileSelected f s)
      | RemoveStaged \<Rightarrow> Done (clearStaged s)
      | MemberAction mk ok target \<Rightarrow> Done (member_action mk ok target s)
      | CopyInvite ok \<Rightarrow> Done (copy_invite ok s)
      | MessageSubmitted body \<Rightarrow> Done (message_submitted P body s)
      | LeaveClicked \<Rightarrow> Done (onLeaveClicked s)
      | ModalClicked a sel \<Rightarrow> Done (modal_clicked a sel s))"

text \<open>The browser reports an uncaught exception and goes on with the state reached.\<close>

definition client_step :: "'p prims \<Rightarrow> client_event \<Rightarrow> client \<Rightarrow> client" where
  "client_step P e s = state_of (handle_event P e s)"

definition initial_client :: "page \<Rightarrow> client" where
  "initial_client pg =
     \<lparr>cl_page = pg, cl_heap = [], cl_sockets = [], cl_session = None, cl_pendingJoin = None,
      cl_intentionalClose = False, cl_staged = None, cl_blobs = [], cl_nextUrl = 0, cl_views = [],
      cl_connects = [], cl_uploads = [],
      cl_ui = \<lparr>ui_inRoom = False, ui_lobbyError = [], ui_lobbyStatus = [], ui_roomNotice = [],
               ui_stats = None, ui_polls = 0, ui_roomId = [], ui_memberCount = 0, ui_members = [], ui_messages = [],
               ui_inviteBtn = False, ui_inviteBox = False, ui_inviteLink = [], ui_roomInput = [],
               ui_preview = None, ui_modal = None\<rparr>,
      cl_random = 0\<rparr>"

text \<open>Loading the page draws the tab's session id and asks for the counts.\<close>

definition new_session_id :: "'p prims \<Rightarrow> nat \<Rightarrow> jsstr \<times> nat" where
  "new_session_id P pos = (let (b, pos') = random_bytes P 16 pos in (concat (map hex_pair b), pos'))"

definition load_page :: "'p prims \<Rightarrow> page \<Rightarrow> client" where
  "load_page P pg =
     (let (sid, pos) = new_session_id P 0
      in pollStats ((initial_client (pg\<lparr>pg_session := sid\<rparr>))\<lparr>cl_random := pos\<rparr>))"

end
