(* ===== verification/ClientInvariant.thy ===== *)
theory ClientInvariant
  imports Client
begin

text \<open>
  A well-formedness invariant of the client's state, kept by every event: references point into
  the store, room keys have 32 bytes and at most five are held, maps have distinct keys, a
  download's counter agrees with the chunks it has, and live object URLs are distinct.
\<close>

named_theorems wf_rules \<open>operations that keep the client well-formed\<close>

section \<open>The invariant\<close>

definition incoming_ok :: "incoming \<Rightarrow> bool" where
  "incoming_ok inc \<longleftrightarrow>
     1 \<le> fm_chunks (in_meta inc) \<and> fm_chunks (in_meta inc) \<le> 100000
     \<and> length (in_parts inc) = nat (fm_chunks (in_meta inc))
     \<and> in_received inc = length (filter (\<lambda>p. p \<noteq> None) (in_parts inc)) + length (in_extra inc)
     \<and> int (in_received inc) < fm_chunks (in_meta inc)"

text \<open>A reference into the store that is not one of the room keys.\<close>

definition other_ref :: "nat list \<Rightarrow> ref list \<Rightarrow> ref \<Rightarrow> bool" where
  "other_ref sh ks r \<longleftrightarrow> r < length sh \<and> r \<notin> set ks"

definition session_ok :: "nat list \<Rightarrow> nat \<Rightarrow> session \<Rightarrow> bool" where
  "session_ok sh v ss \<longleftrightarrow>
     (\<forall>r \<in> set (s_keys ss). r < length sh \<and> sh ! r = KEY_LEN)
     \<and> length (s_keys ss) \<le> MAX_KEPT_KEYS \<and> distinct (s_keys ss)
     \<and> other_ref sh (s_keys ss) (s_priv ss) \<and> sh ! s_priv ss = 32
     \<and> values_sat (other_ref sh (s_keys ss)) (s_memberPubs ss)
     \<and> (\<forall>r. s_firstOwnerPub ss = Some r \<longrightarrow> other_ref sh (s_keys ss) r)
     \<and> values_sat (\<lambda>rec. \<forall>r. hr_ke rec = Some r \<longrightarrow> other_ref sh (s_keys ss) r) (s_handshakes ss)
     \<and> values_sat (\<lambda>inc. in_key inc < length sh \<and> incoming_ok inc) (s_incoming ss)
     \<and> values_sat (\<lambda>h. h < v) (s_fileMsgs ss)
     \<and> distinct (map fst (s_handshakes ss)) \<and> distinct (map fst (s_memberPubs ss))
     \<and> distinct (s_knownMembers ss)"

definition shape :: "client \<Rightarrow> nat list" where
  "shape s = map length (cl_heap s)"

definition client_ok :: "client \<Rightarrow> bool" where
  "client_ok s \<longleftrightarrow>
     (\<forall>ss. cl_session s = Some ss \<longrightarrow> session_ok (shape s) (length (cl_views s)) ss)
     \<and> (\<forall>up \<in> set (cl_uploads s). up_key up < length (cl_heap s))
     \<and> distinct (map fst (cl_blobs s)) \<and> (\<forall>u \<in> fst ` set (cl_blobs s). u < cl_nextUrl s)"

lemma initial_client_ok: "client_ok (initial_client pg)"
  by (simp add: client_ok_def initial_client_def)

section \<open>Updates of the state\<close>

lemma other_ref_mono: "other_ref sh ks r \<Longrightarrow> other_ref (sh @ added) ks r"
  by (simp add: other_ref_def)

lemma other_ref_fresh:
  "\<forall>r \<in> set ks. r < length sh \<and> Q r \<Longrightarrow> other_ref (sh @ [x]) ks (length sh)"
  by (auto simp: other_ref_def)

lemma session_ok_mono:
  assumes "session_ok sh v ss" and "v \<le> v'"
  shows "session_ok (sh @ added) v' ss"
  using assms unfolding session_ok_def
  by (auto simp: nth_append other_ref_def intro: trans_less_add1 less_le_trans elim!: values_sat_mono)

text \<open>A fresh reference \<open>k\<close> in front of the keys, the list then cut to a prefix.\<close>

lemma other_ref_push:
  "other_ref sh ks r \<Longrightarrow> r \<noteq> k \<Longrightarrow> other_ref sh (take n (k # ks)) r"
  by (auto simp: other_ref_def dest: in_set_takeD)

lemma session_ok_push:
  assumes ok: "session_ok sh v ss" and k: "k < length sh" "sh ! k = KEY_LEN" "k \<notin> set (s_keys ss)"
    and others: "k \<noteq> s_priv ss" "values_sat (\<lambda>r. r \<noteq> k) (s_memberPubs ss)"
      "s_firstOwnerPub ss \<noteq> Some k" "values_sat (\<lambda>rec. hr_ke rec \<noteq> Some k) (s_handshakes ss)"
  shows "session_ok sh v (ss\<lparr>s_keys := take MAX_KEPT_KEYS (k # s_keys ss)\<rparr>)"
proof -
  have "values_sat (other_ref sh (take MAX_KEPT_KEYS (k # s_keys ss))) (s_memberPubs ss)"
    using ok others(2) by (auto simp: session_ok_def values_sat_def intro: other_ref_push)
  moreover have "values_sat (\<lambda>rec. \<forall>r. hr_ke rec = Some r \<longrightarrow>
      other_ref sh (take MAX_KEPT_KEYS (k # s_keys ss)) r) (s_handshakes ss)"
    using ok others(4) by (auto simp: session_ok_def values_sat_def intro: other_ref_push)
  moreover have "\<forall>r. s_firstOwnerPub ss = Some r \<longrightarrow> other_ref sh (take MAX_KEPT_KEYS (k # s_keys ss)) r"
    using ok others(3) by (auto simp: session_ok_def intro: other_ref_push)
  moreover have "other_ref sh (take MAX_KEPT_KEYS (k # s_keys ss)) (s_priv ss)"
    using ok others(1) by (auto simp: session_ok_def intro: other_ref_push)
  moreover have "distinct (take MAX_KEPT_KEYS (k # s_keys ss))"
    using ok k(3) by (intro distinct_take) (simp add: session_ok_def)
  moreover have "\<forall>r \<in> set (take MAX_KEPT_KEYS (k # s_keys ss)). r < length sh \<and> sh ! r = KEY_LEN"
    using ok k(1,2) by (auto simp: session_ok_def dest!: in_set_takeD)
  ultimately show ?thesis using ok by (simp add: session_ok_def)
qed

text \<open>What was in the store before the last allocation is not the new reference.\<close>

lemma session_ok_old:
  assumes "session_ok sh v ss"
  shows "length sh \<notin> set (s_keys ss)" "s_priv ss < length sh"
    "values_sat (\<lambda>r. r < length sh) (s_memberPubs ss)"
    "s_firstOwnerPub ss \<noteq> Some (length sh)"
    "values_sat (\<lambda>rec. hr_ke rec \<noteq> Some (length sh)) (s_handshakes ss)"
    "values_sat (\<lambda>r. r \<noteq> length sh) (s_memberPubs ss)" "length sh \<noteq> s_priv ss"
  using assms by (auto simp: session_ok_def other_ref_def values_sat_def)

lemma client_ok_session: "client_ok s \<Longrightarrow> cl_session s = Some ss \<Longrightarrow> session_ok (shape s) (length (cl_views s)) ss"
  by (simp add: client_ok_def)

lemma ok_upd_session [wf_rules]:
  assumes "client_ok s"
    and "\<And>ss. cl_session s = Some ss \<Longrightarrow> session_ok (shape s) (length (cl_views s)) ss \<Longrightarrow>
      session_ok (shape s) (length (cl_views s)) (f ss)"
  shows "client_ok (upd_session f s)"
  using assms by (auto simp: client_ok_def upd_session_def shape_def)

lemma ok_upd_ui [wf_rules]: "client_ok s \<Longrightarrow> client_ok (upd_ui f s)"
  by (simp add: client_ok_def upd_ui_def shape_def)

lemma ok_texts [wf_rules]:
  "client_ok s \<Longrightarrow> client_ok (lobbyError t s)"
  "client_ok s \<Longrightarrow> client_ok (lobbyStatus t s)"
  "client_ok s \<Longrightarrow> client_ok (roomNotice t s)"
  "client_ok s \<Longrightarrow> client_ok (addMessage a b m s)"
  "client_ok s \<Longrightarrow> client_ok (showRoom s)"
  "client_ok s \<Longrightarrow> client_ok (showLobby s)"
  "client_ok s \<Longrightarrow> client_ok (openModal a c d s)"
  "client_ok s \<Longrightarrow> client_ok (closeModal s)"
  "client_ok s \<Longrightarrow> client_ok (inviteBtn_for r s)"
  by (simp_all add: lobbyError_def lobbyStatus_def roomNotice_def addMessage_def showRoom_def
      showLobby_eq openModal_def closeModal_def inviteBtn_for_def ok_upd_ui)

lemma ok_fields [wf_rules]:
  "client_ok s \<Longrightarrow> client_ok (s\<lparr>cl_random := p\<rparr>)"
  "client_ok s \<Longrightarrow> client_ok (s\<lparr>cl_pendingJoin := j\<rparr>)"
  "client_ok s \<Longrightarrow> client_ok (s\<lparr>cl_intentionalClose := b\<rparr>)"
  "client_ok s \<Longrightarrow> client_ok (s\<lparr>cl_staged := st\<rparr>)"
  "client_ok s \<Longrightarrow> client_ok (s\<lparr>cl_connects := cs\<rparr>)"
  "client_ok s \<Longrightarrow> client_ok (s\<lparr>cl_sockets := ks\<rparr>)"
  "client_ok s \<Longrightarrow> client_ok (s\<lparr>cl_session := None, cl_pendingJoin := j\<rparr>)"
  by (simp_all add: client_ok_def shape_def)

lemma ok_socket [wf_rules]:
  "client_ok s \<Longrightarrow> client_ok (upd_socket w f s)"
  "client_ok s \<Longrightarrow> client_ok (ws_send w t s)"
  "client_ok s \<Longrightarrow> client_ok (ws_close w s)"
  by (simp_all add: upd_socket_def ws_send_def ws_close_def ok_fields)

lemma ok_send [wf_rules]: "client_ok s \<Longrightarrow> client_ok (send m s)"
  by (simp add: send_def ok_socket split: option.split)

lemma shape_wipe [simp]: "shape (wipeKey r s) = shape s"
  by (auto simp: shape_def wipeKey_def map_update deref_def wiped_def list_update_same_conv
      list_update_beyond simp del: list_update_nonempty intro: list_update_id nth_equalityI)

lemma wipe_fields [simp]:
  "cl_session (wipeKey r s) = cl_session s" "cl_views (wipeKey r s) = cl_views s"
  "cl_uploads (wipeKey r s) = cl_uploads s" "cl_blobs (wipeKey r s) = cl_blobs s"
  "cl_nextUrl (wipeKey r s) = cl_nextUrl s" "length (cl_heap (wipeKey r s)) = length (cl_heap s)"
  by (simp_all add: wipeKey_def)

lemma ok_wipe [wf_rules]: "client_ok s \<Longrightarrow> client_ok (wipeKey r s)"
  by (simp add: client_ok_def)

lemma ok_wipe_all [wf_rules]: "client_ok s \<Longrightarrow> client_ok (wipe_all rs s)"
  unfolding wipe_all_def by (induction rs arbitrary: s) (simp_all add: ok_wipe)

lemma ok_alloc:
  assumes "alloc b s = (r, s')" and "client_ok s"
  shows "client_ok s'" and "shape s' = shape s @ [length b]" and "r = length (shape s)"
    and "cl_session s' = cl_session s" and "cl_views s' = cl_views s"
    and "cl_session s = Some ss \<Longrightarrow> other_ref (shape s') (s_keys ss) r"
proof -
  have s': "s' = s\<lparr>cl_heap := cl_heap s @ [b]\<rparr>" and r: "r = length (cl_heap s)"
    using assms(1) by (simp_all add: alloc_def)
  show "shape s' = shape s @ [length b]" "r = length (shape s)" "cl_session s' = cl_session s"
    "cl_views s' = cl_views s"
    by (simp_all add: s' r shape_def)
  show "cl_session s = Some ss \<Longrightarrow> other_ref (shape s') (s_keys ss) r"
    using client_ok_session [OF assms(2)]
    by (auto simp: s' r shape_def session_ok_def other_ref_def)
  show "client_ok s'"
    using assms(2) session_ok_mono [of "shape s" "length (cl_views s)" _ "length (cl_views s)" "[length b]"]
    by (auto simp: client_ok_def s' shape_def less_Suc_eq)
qed

lemma ok_draw:
  assumes "draw f s = (a, s')" and "client_ok s"
  shows "client_ok s'" and "shape s' = shape s" and "cl_session s' = cl_session s"
    and "cl_views s' = cl_views s"
  using assms by (auto simp: draw_def split_beta Let_def ok_fields shape_def)

lemma ok_createObjectURL:
  assumes "createObjectURL b s = (u, s')" and "client_ok s"
  shows "client_ok s'" and "shape s' = shape s" and "cl_session s' = cl_session s"
    and "cl_views s' = cl_views s"
  using assms
  by (auto simp: createObjectURL_def client_ok_def shape_def less_Suc_eq image_iff, fastforce+)

lemma ok_revoke [wf_rules]: "client_ok s \<Longrightarrow> client_ok (revokeObjectURL u s)"
  by (auto simp: client_ok_def revokeObjectURL_def shape_def distinct_map_filter)

lemma ok_trackUrl [wf_rules]: "client_ok s \<Longrightarrow> client_ok (trackUrl u s)"
  unfolding trackUrl_def by (rule ok_upd_session) (auto simp: session_ok_def)

lemma ok_with_session:
  assumes "client_ok s" and "\<And>ss. cl_session s = Some ss \<Longrightarrow> client_ok (f ss)"
  shows "client_ok (with_session s f)"
  using assms by (simp add: with_session_def split: option.split)

lemma ok_with_session_out:
  assumes "client_ok s" and "\<And>ss. cl_session s = Some ss \<Longrightarrow> client_ok (state_of (f ss))"
  shows "client_ok (state_of (with_session_out s f))"
  using assms by (simp add: with_session_out_def split: option.split)

section \<open>The page\<close>

lemma ok_renderMembers [wf_rules]: "client_ok s \<Longrightarrow> client_ok (renderMembers ms s)"
  unfolding renderMembers_def Let_def
  by (intro ok_upd_ui ok_upd_session) (auto simp: session_ok_def)

lemma ok_upd_view [wf_rules]: "client_ok s \<Longrightarrow> client_ok (upd_view h f s)"
  by (auto simp: client_ok_def upd_view_def shape_def)

lemma ok_setFileProgress [wf_rules]: "client_ok s \<Longrightarrow> client_ok (setFileProgress h a b s)"
  unfolding setFileProgress_def by (rule ok_upd_view)

lemma ok_startFileMessage:
  assumes "startFileMessage t n m mine s = (h, s')" and "client_ok s"
  shows "client_ok s'" and "shape s' = shape s"
proof -
  let ?v = "\<lparr>fv_nick = n, fv_meta = m, fv_mine = mine, fv_state = InProgress 0\<rparr>"
  let ?s1 = "upd_ui (\<lambda>u. u\<lparr>ui_messages := ui_messages u @ [FileItem h]\<rparr>) (s\<lparr>cl_views := cl_views s @ [?v]\<rparr>)"
  have h: "h = length (cl_views s)"
    and s': "s' = upd_session (\<lambda>ss. ss\<lparr>s_fileMsgs := map_set t h (s_fileMsgs ss)\<rparr>) ?s1"
    using assms(1) by (auto simp: startFileMessage_def Let_def)
  have "client_ok (s\<lparr>cl_views := cl_views s @ [?v]\<rparr>)"
    using assms(2) session_ok_mono [of "shape s" "length (cl_views s)" _ "Suc (length (cl_views s))" "[]"]
    by (auto simp: client_ok_def shape_def)
  then have "client_ok ?s1" by (rule ok_upd_ui)
  then show "client_ok s'" unfolding s'
  proof (rule ok_upd_session)
    fix ss assume "session_ok (shape ?s1) (length (cl_views ?s1)) ss"
    moreover have "h < length (cl_views ?s1)" by (simp add: h upd_ui_def)
    ultimately show "session_ok (shape ?s1) (length (cl_views ?s1))
        (ss\<lparr>s_fileMsgs := map_set t h (s_fileMsgs ss)\<rparr>)"
      by (simp add: session_ok_def)
  qed
  show "shape s' = shape s" by (simp add: s' shape_def upd_session_def upd_ui_def)
qed

lemma ok_file_message_end [wf_rules]:
  "client_ok s \<Longrightarrow> client_ok (finishFileMessage t u s)"
  "client_ok s \<Longrightarrow> client_ok (failFileMessage t r s)"
  unfolding finishFileMessage_def failFileMessage_def
  by (auto split: option.split intro!: ok_upd_view ok_upd_session
      simp: session_ok_def)

lemma ok_clearStaged [wf_rules]: "client_ok s \<Longrightarrow> client_ok (clearStaged s)"
  unfolding clearStaged_def Let_def
  by (intro ok_upd_ui) (auto split: option.split intro: ok_revoke ok_fields)

lemma ok_renderStaged [wf_rules]: "client_ok s \<Longrightarrow> client_ok (renderStaged s)"
  unfolding renderStaged_def by (auto split: option.split intro: ok_upd_ui)

lemma ok_onFileSelected [wf_rules]: "client_ok s \<Longrightarrow> client_ok (onFileSelected f s)"
  unfolding onFileSelected_def Let_def
  by (auto split: option.split prod.split intro!: ok_renderStaged ok_fields ok_texts
      dest: ok_createObjectURL(1) intro: ok_clearStaged)

section \<open>Keys\<close>

text \<open>Pushing a key that was allocated after everything else.\<close>

lemma ok_pushKey:
  assumes "client_ok s" and "shape s = sh @ [KEY_LEN]" and "k = length sh"
    and "\<And>ss. cl_session s = Some ss \<Longrightarrow> session_ok sh (length (cl_views s)) ss"
  shows "client_ok (pushKey k s)"
  unfolding pushKey_def
proof (rule ok_with_session [OF assms(1)])
  fix ss assume ss: "cl_session s = Some ss"
  have now: "session_ok (shape s) (length (cl_views s)) ss" using assms(1) ss by (rule client_ok_session)
  have "session_ok (shape s) (length (cl_views s)) (ss\<lparr>s_keys := take MAX_KEPT_KEYS (k # s_keys ss)\<rparr>)"
    using session_ok_old [OF assms(4) [OF ss]]
    by (intro session_ok_push [OF now]) (simp_all add: assms(2,3) nth_append)
  then show "client_ok (let ks = k # s_keys ss in wipe_all (drop MAX_KEPT_KEYS ks)
      (upd_session (\<lambda>x. x\<lparr>s_keys := take MAX_KEPT_KEYS ks\<rparr>) s))"
    unfolding Let_def using ss by (intro ok_wipe_all ok_upd_session assms(1)) simp
qed

lemma ok_fresh_key:
  assumes "fresh_key P s = (r, s')" and "client_ok s"
  shows "client_ok s'" and "r < length (shape s')" and "shape s' ! r = KEY_LEN"
    and "cl_session s' = cl_session s" and "r = length (shape s)"
    and "shape s' = shape s @ [KEY_LEN]" and "cl_views s' = cl_views s"
proof -
  obtain b s1 where d: "draw (generateRoomKey P) s = (b, s1)" by (cases "draw (generateRoomKey P) s")
  then have a: "alloc b s1 = (r, s')" using assms(1) by (simp add: fresh_key_def)
  have "length b = KEY_LEN"
    using d by (auto simp: draw_def generateRoomKey_def random_bytes_def split_beta Let_def)
  then show "client_ok s'" "r < length (shape s')" "shape s' ! r = KEY_LEN" "cl_session s' = cl_session s"
    "r = length (shape s)" "shape s' = shape s @ [KEY_LEN]" "cl_views s' = cl_views s"
    using ok_alloc [OF a ok_draw(1) [OF d assms(2)]] ok_draw [OF d assms(2)] by simp_all
qed

lemma ok_rekeyMember [wf_rules]: "client_ok s \<Longrightarrow> client_ok (state_of (rekeyMember P m k s))"
  unfolding rekeyMember_def
  by (rule ok_with_session_out) (auto split: option.split sum.split intro: ok_send ok_fields)

lemma ok_set_member_pub [wf_rules]: "client_ok s \<Longrightarrow> client_ok (state_of (set_member_pub e s))"
proof -
  assume ok: "client_ok s"
  show ?thesis
  proof (cases "snd e")
    case (JStr t)
    show ?thesis
    proof (cases "b64urlToBytes t")
      case (Inl x)
      with JStr ok show ?thesis by (simp add: set_member_pub_def)
    next
      case (Inr pub)
      obtain r s1 where a: "alloc pub s = (r, s1)" by (cases "alloc pub s")
      have "client_ok (upd_session (\<lambda>ss. ss\<lparr>s_memberPubs := map_set (fst e) r (s_memberPubs ss)\<rparr>) s1)"
        using ok_alloc [OF a ok]
        by (intro ok_upd_session) (auto simp: session_ok_def distinct_map_set)
      with JStr Inr a show ?thesis by (simp add: set_member_pub_def)
    qed
  qed (simp_all add: set_member_pub_def ok)
qed

lemma ok_applyRoster [wf_rules]: "client_ok s \<Longrightarrow> client_ok (applyRoster P d s)"
  unfolding applyRoster_def
  by (rule ok_with_session)
    (auto split: option.split sum.split intro!: outcome_invariant_for_each ok_set_member_pub)

lemma ok_broadcastRoster [wf_rules]: "client_ok s \<Longrightarrow> client_ok (broadcastRoster P s)"
  unfolding broadcastRoster_def
  by (rule ok_with_session)
    (auto split: list.split prod.split intro!: ok_send dest: ok_draw(1) simp: Let_def)

lemma fresh_ref_not_key:
  "client_ok s \<Longrightarrow> cl_session s = Some ss \<Longrightarrow> length (shape s) \<notin> set (s_keys ss)"
  by (auto dest!: client_ok_session simp: session_ok_def)

lemma ok_alloc_push:
  assumes "alloc b s = (r, s')" and "client_ok s" and "length b = KEY_LEN"
  shows "client_ok (pushKey r s')"
  using ok_alloc [OF assms(1,2)] assms(3)
  by (intro ok_pushKey) (auto intro: client_ok_session [OF assms(2)])

lemma ok_fresh_push:
  assumes "fresh_key P s = (r, s')" and "client_ok s"
  shows "client_ok (pushKey r s')"
  using ok_fresh_key [OF assms] by (intro ok_pushKey) (auto intro: client_ok_session [OF assms(2)])

lemma ok_onRekey [wf_rules]:
  assumes "client_ok s"
  shows "client_ok (onRekey P msg s)"
  unfolding onRekey_def
proof (rule ok_with_session [OF assms])
  fix ss
  have "client_ok (let (r, s1) = alloc key s in pushKey r s1)" if "length key = KEY_LEN" for key
    using ok_alloc_push [OF _ assms that] by (auto split: prod.split)
  then show "client_ok (case sm_data msg of None \<Rightarrow> s | Some d \<Rightarrow>
      (case map_of (s_memberPubs ss) (s_ownerId ss) of None \<Rightarrow> s
       | Some ownerPub \<Rightarrow>
           (case openRoomKey P (deref s (s_priv ss)) (deref s ownerPub) d of Inl _ \<Rightarrow> s
            | Inr key \<Rightarrow> let (r, s1) = alloc key s in pushKey r s1)))"
    using assms by (auto split: option.split sum.split dest: openRoomKey_length)
qed

lemma ok_rotate_for_leavers [wf_rules]:
  assumes "client_ok s"
  shows "client_ok (state_of (rotate_for_leavers P removed current s))"
proof -
  define s1 where "s1 = foldl (\<lambda>t i. upd_session (\<lambda>ss. ss\<lparr>s_knownMembers := set_delete i (s_knownMembers ss),
      s_memberPubs := map_delete i (s_memberPubs ss)\<rparr>) t) s removed"
  have "client_ok s1"
    unfolding s1_def
    by (rule foldl_preserves [where I = client_ok, OF assms])
      (auto intro!: ok_upd_session simp: session_ok_def distinct_map_delete set_delete_def)
  obtain k s2 where k: "fresh_key P s1 = (k, s2)" by (cases "fresh_key P s1")
  then have "client_ok (pushKey k s2)"
    using ok_fresh_push \<open>client_ok s1\<close> by blast
  then show ?thesis
    unfolding rotate_for_leavers_def Let_def s1_def [symmetric] k prod.case
  proof (rule outcome_invariant_for_each [where I = client_ok, rotated])
    fix i t assume t: "client_ok t"
    show "client_ok (state_of (with_session_out t (\<lambda>ss.
        if i \<noteq> s_memberId ss then rekeyMember P i k t else Done t)))"
      by (rule ok_with_session_out [OF t]) (simp add: t ok_rekeyMember)
  qed
qed

lemma ok_known:
  assumes "client_ok s" and "distinct current"
  shows "client_ok (upd_session (\<lambda>x. x\<lparr>s_knownMembers := current\<rparr>) s)"
  by (rule ok_upd_session [OF assms(1)]) (simp add: session_ok_def assms(2))

lemma ok_owner_duties [wf_rules]:
  assumes "client_ok s"
  shows "client_ok (state_of (owner_duties P b ms s))"
proof -
  let ?s1 = "if b then upd_session (\<lambda>x. x\<lparr>s_knownMembers := set_of_list (map mi_id ms)\<rparr>) s else s"
  have s1: "client_ok ?s1" using ok_known [OF assms distinct_set_of_list] assms by simp
  show ?thesis
    unfolding owner_duties_def Let_def
  proof (rule outcome_invariant_and_then)
    fix t assume "client_ok t"
    then show "client_ok (state_of (Done (broadcastRoster P
        (upd_session (\<lambda>x. x\<lparr>s_knownMembers := set_of_list (map mi_id ms)\<rparr>) t))))"
      by (simp add: ok_broadcastRoster ok_known)
  qed (use ok_rotate_for_leavers [OF s1] s1 in \<open>auto split: if_split\<close>)
qed

lemma ok_onPresence [wf_rules]:
  assumes "client_ok s"
  shows "client_ok (state_of (onPresence P ms s))"
proof -
  have "client_ok (renderMembers ms (inviteBtn_for r (upd_session (\<lambda>x. x\<lparr>s_ownerId := i, s_role := r\<rparr>) s)))"
    for r i
    by (intro ok_renderMembers ok_texts ok_upd_session assms) (simp add: session_ok_def)
  then show ?thesis
    unfolding onPresence_def Let_def
    by (intro ok_with_session_out assms) (simp add: ok_owner_duties)
qed

lemma ok_wipe_session [wf_rules]:
  assumes "client_ok s"
  shows "client_ok (wipe_session ss s)"
proof -
  have hs: "client_ok (foldl (\<lambda>t e. case hr_ke (snd e) of None \<Rightarrow> t | Some r \<Rightarrow> wipeKey r t) s es)"
    if "client_ok s" for s and es :: "(jsstr \<times> hs_record) list"
    by (rule foldl_preserves [where I = client_ok, OF that]) (auto split: option.split intro: ok_wipe)
  have urls: "client_ok (foldl (\<lambda>t u. revokeObjectURL u t) s us)" if "client_ok s" for s us
    by (rule foldl_preserves [where I = client_ok, OF that]) (rule ok_revoke)
  show ?thesis
    unfolding wipe_session_def Let_def
    by (intro ok_socket urls hs) (auto split: option.split intro!: ok_wipe ok_wipe_all assms)
qed

lemma ok_teardown [wf_rules]: "client_ok s \<Longrightarrow> client_ok (teardown b s)"
  unfolding teardown_def Let_def
  by (auto split: option.split intro!: ok_texts ok_clearStaged ok_upd_ui ok_wipe_session ok_fields)

section \<open>Joining\<close>

lemma ok_onWelcome [wf_rules]:
  assumes "client_ok s"
  shows "client_ok (onWelcome msg s)"
  unfolding onWelcome_def Let_def
  by (intro ok_with_session assms ok_texts ok_renderMembers ok_upd_ui ok_upd_session)
    (auto simp: session_ok_def distinct_map_set split: option.split)

lemma ok_onInviteCreated [wf_rules]:
  assumes "client_ok s"
  shows "client_ok (state_of (onInviteCreated P msg s))"
  unfolding onInviteCreated_def Let_def
  by (intro ok_with_session_out assms)
    (auto split: option.split sum.split prod.split intro!: ok_upd_ui ok_upd_session assms
      simp: session_ok_def dest: ok_draw(1) [OF _ assms])

lemma ok_upd_handshake:
  assumes "client_ok s"
    and "\<And>rec r ss. cl_session s = Some ss \<Longrightarrow> hr_ke (f rec) = Some r \<Longrightarrow>
      hr_ke rec = Some r \<or> other_ref (shape s) (s_keys ss) r"
  shows "client_ok (upd_handshake i f s)"
  unfolding upd_handshake_def
proof (rule ok_upd_session [OF assms(1)])
  fix ss assume ss: "cl_session s = Some ss" and ok: "session_ok (shape s) (length (cl_views s)) ss"
  show "session_ok (shape s) (length (cl_views s))
      (case map_of (s_handshakes ss) i of None \<Rightarrow> ss
       | Some rec \<Rightarrow> ss\<lparr>s_handshakes := map_set i (f rec) (s_handshakes ss)\<rparr>)"
  proof (cases "map_of (s_handshakes ss) i")
    case None
    with ok show ?thesis by simp
  next
    case (Some rec)
    have "\<forall>r. hr_ke rec = Some r \<longrightarrow> other_ref (shape s) (s_keys ss) r"
      by (rule values_sat_get [OF _ Some]) (use ok in \<open>simp add: session_ok_def\<close>)
    with ok Some assms(2) [OF ss, of rec] show ?thesis
      by (auto simp: session_ok_def distinct_map_set)
  qed
qed

lemma ok_delete_handshake [wf_rules]: "client_ok s \<Longrightarrow> client_ok (delete_handshake i s)"
  unfolding delete_handshake_def
  by (rule ok_upd_session) (auto simp: session_ok_def distinct_map_delete)

lemma ok_hs_confirmed [wf_rules]:
  assumes "client_ok s"
  shows "client_ok (hs_confirmed P i ke s)"
  unfolding hs_confirmed_def
proof (rule ok_with_session [OF assms])
  fix ss
  obtain r s1 where a: "alloc ke s = (r, s1)" by (cases "alloc ke s")
  have "client_ok (upd_handshake i (\<lambda>rec. rec\<lparr>hr_ke := Some r\<rparr>) s1)"
    using ok_alloc [OF a assms] by (intro ok_upd_handshake) auto
  then show "client_ok (let (r, s1) = alloc ke s; s2 = upd_handshake i (\<lambda>rec. rec\<lparr>hr_ke := Some r\<rparr>) s1;
      (env, s3) = draw (sealUnderKe P ke (s_pub ss)) s2 in send (MemberKey i env) s3)"
    by (auto simp: a Let_def split: prod.split intro!: ok_send dest: ok_draw(1))
qed

lemma ok_run_callbacks [wf_rules]: "client_ok s \<Longrightarrow> client_ok (run_callbacks P i role outs s)"
  unfolding run_callbacks_def
proof (induction outs arbitrary: s)
  case Nil
  then show ?case by simp
next
  case (Cons out outs)
  have "client_ok (run_callback P i role out s)"
    using Cons.prems
    by (auto simp: run_callback_def hs_failed_defs split: hs_output.split hs_role.split
        intro!: ok_send ok_hs_confirmed ok_delete_handshake ok_teardown ok_texts)
  with Cons.IH show ?case by simp
qed

lemma ok_begin_handshake [wf_rules]:
  assumes "client_ok s"
  shows "client_ok (state_of (begin_handshake P r role j code i s))"
  unfolding begin_handshake_def Let_def
  by (auto split: sum.split prod.split intro!: ok_fields assms ok_upd_session ok_run_callbacks
      simp: session_ok_def distinct_map_set)

lemma ok_onInviteRedeemed [wf_rules]:
  assumes "client_ok s"
  shows "client_ok (state_of (onInviteRedeemed P msg s))"
  unfolding onInviteRedeemed_def Let_def
  by (intro ok_with_session_out assms)
    (auto split: option.split intro!: assms ok_begin_handshake ok_upd_session simp: session_ok_def)

lemma ok_onRedeemOk [wf_rules]:
  assumes "client_ok s"
  shows "client_ok (state_of (onRedeemOk P msg s))"
  unfolding onRedeemOk_def Let_def
  by (intro ok_with_session_out assms)
    (auto split: option.split intro!: assms ok_begin_handshake ok_upd_session ok_texts ok_fields
      simp: session_ok_def)

lemma ok_onPake [wf_rules]:
  assumes "client_ok s"
  shows "client_ok (state_of (onPake P msg s))"
  unfolding onPake_def
  by (auto split: option.split sum.split prod.split intro!: assms ok_run_callbacks ok_upd_handshake)

lemma ok_rotateForJoin [wf_rules]:
  assumes "client_ok s"
  shows "client_ok (state_of (rotateForJoin P j pub s))"
  unfolding rotateForJoin_def
proof (rule ok_with_session_out [OF assms])
  fix ss
  obtain k s1 where k: "fresh_key P s = (k, s1)" by (cases "fresh_key P s")
  let ?hs = "find (\<lambda>e. hr_joiner (snd e) = Some j) (s_handshakes ss)"
  let ?deliver = "\<lambda>t. case ?hs of None \<Rightarrow> Done t
      | Some (hsId, rec) \<Rightarrow> if hsId = [] then Done t
          else case sealRoomKey P (deref t (s_priv ss)) (deref t pub) (deref t k) (cl_random t) of
            Inl e \<Rightarrow> Throws e t
          | Inr (env, pos) \<Rightarrow> Done (send (KeyDeliver hsId env) (t\<lparr>cl_random := pos\<rparr>))"
  let ?others = "[i \<leftarrow> s_knownMembers ss. i \<noteq> s_memberId ss \<and> i \<noteq> j]"
  have push: "client_ok (pushKey k s1)" using ok_fresh_push [OF k assms] .
  have deliver: "client_ok (state_of (?deliver (pushKey k s1)))"
    using push by (auto split: option.split prod.split sum.split intro!: ok_send ok_fields)
  have rekeys: "client_ok (state_of (for_each (\<lambda>i. rekeyMember P i k) ?others t))" if "client_ok t" for t
    by (rule outcome_invariant_for_each [where I = client_ok, OF _ that]) (rule ok_rekeyMember)
  have last: "client_ok (state_of (Done (upd_session (\<lambda>x. x\<lparr>s_knownMembers := set_add j (s_knownMembers x)\<rparr>) t)))"
    if "client_ok t" for t
    using ok_upd_session [OF that] by (simp add: session_ok_def)
  show "client_ok (state_of (let (newKey, s1) = fresh_key P s; s2 = pushKey newKey s1;
         hs = find (\<lambda>e. hr_joiner (snd e) = Some j) (s_handshakes ss);
         deliver = (\<lambda>t. case hs of
             None \<Rightarrow> Done t
           | Some (hsId, rec) \<Rightarrow>
               if hsId = [] then Done t
               else case sealRoomKey P (deref t (s_priv ss)) (deref t pub) (deref t newKey) (cl_random t) of
                 Inl e \<Rightarrow> Throws e t
               | Inr (env, pos) \<Rightarrow> Done (send (KeyDeliver hsId env) (t\<lparr>cl_random := pos\<rparr>)));
         others = [i \<leftarrow> s_knownMembers ss. i \<noteq> s_memberId ss \<and> i \<noteq> j]
     in and_then (deliver s2) (\<lambda>t.
        and_then (for_each (\<lambda>i. rekeyMember P i newKey) others t) (\<lambda>t2.
          Done (upd_session (\<lambda>x. x\<lparr>s_knownMembers := set_add j (s_knownMembers x)\<rparr>) t2)))))"
    unfolding k Let_def prod.case
    by (rule outcome_invariant_and_then [where I = client_ok, OF deliver])
      (rule outcome_invariant_and_then [where I = client_ok, OF rekeys last])
qed

lemma ok_finishJoin [wf_rules]:
  assumes "client_ok s"
  shows "client_ok (finishJoin P i rec d s)"
  unfolding finishJoin_def
proof (rule ok_with_session [OF assms])
  fix ss
  have join: "client_ok (let (r, s1) = alloc key s; s2 = pushKey r s1;
      s3 = (case hr_ke rec of None \<Rightarrow> s2 | Some ke \<Rightarrow> wipeKey ke s2)
      in send (Enter i) (delete_handshake i s3))" if "length key = KEY_LEN" for key
    using ok_alloc_push [OF _ assms that]
    by (auto simp: Let_def split: prod.split option.split intro!: ok_send ok_delete_handshake ok_wipe)
  show "client_ok (case s_firstOwnerPub ss of None \<Rightarrow> s
     | Some ownerPub \<Rightarrow>
         (case openRoomKey P (deref s (s_priv ss)) (deref s ownerPub) d of
            Inl _ \<Rightarrow> teardown True (lobbyError (js ''Failed to receive the room key.'') s)
          | Inr roomKey \<Rightarrow>
              (let (r, s1) = alloc roomKey s; s2 = pushKey r s1;
                   s3 = (case hr_ke rec of None \<Rightarrow> s2 | Some ke \<Rightarrow> wipeKey ke s2)
               in send (Enter i) (delete_handshake i s3))))"
    using assms join [OF openRoomKey_length]
    by (cases "s_firstOwnerPub ss")
      (auto split: sum.split intro: ok_teardown ok_texts)
qed

lemma ok_onKeyDeliver [wf_rules]:
  assumes "client_ok s"
  shows "client_ok (onKeyDeliver P msg s)"
  unfolding onKeyDeliver_def
  by (rule ok_with_session [OF assms])
    (auto split: option.split intro!: assms ok_upd_handshake ok_finishJoin)

lemma ok_accept_peer_key [wf_rules]:
  assumes "client_ok s"
  shows "client_ok (state_of (accept_peer_key P i rec pub s))"
proof -
  obtain r s1 where a: "alloc pub s = (r, s1)" by (cases "alloc pub s")
  have "client_ok (upd_session (\<lambda>x. x\<lparr>s_memberPubs := map_set j r (s_memberPubs x)\<rparr>) s1)" for j
    using ok_alloc [OF a assms] by (intro ok_upd_session) (simp_all add: session_ok_def distinct_map_set)
  then have owner: "client_ok (state_of (and_then (rotateForJoin P j r
      (upd_session (\<lambda>x. x\<lparr>s_memberPubs := map_set j r (s_memberPubs x)\<rparr>) s1))
      (\<lambda>t. Done (delete_handshake i t))))" for j
    by (rule outcome_invariant_and_then [where I = client_ok, OF ok_rotateForJoin])
      (simp add: ok_delete_handshake)
  have "client_ok (upd_session (\<lambda>x. x\<lparr>s_firstOwnerPub := Some r\<rparr>) s1)"
    using ok_alloc [OF a assms] by (intro ok_upd_session) (simp_all add: session_ok_def)
  with owner show ?thesis
    by (simp add: accept_peer_key_def a Let_def ok_finishJoin split: hs_role.split)
qed

lemma ok_onMemberKey [wf_rules]:
  assumes "client_ok s"
  shows "client_ok (state_of (onMemberKey P msg s))"
  unfolding onMemberKey_def
  by (rule ok_with_session_out [OF assms])
    (simp add: Let_def assms ok_accept_peer_key split: option.split sum.split)

section \<open>Files\<close>

lemma ok_sendFile [wf_rules]:
  assumes "client_ok s"
  shows "client_ok (sendFile P f s)"
  unfolding sendFile_def
proof (rule ok_with_session [OF assms])
  fix ss assume ss: "cl_session s = Some ss"
  show "client_ok (case s_keys ss of [] \<Rightarrow> s
     | key # _ \<Rightarrow>
         (let kid = keyId P (deref s key); (transfer, s1) = draw (randomId P) s
          in s1\<lparr>cl_uploads := cl_uploads s1 @
               [\<lparr>up_key = key, up_kid = kid, up_transfer = transfer, up_file = f, up_view = 0,
                 up_stage = ReadingFile\<rparr>]\<rparr>))"
  proof (cases "s_keys ss")
    case Nil
    with assms show ?thesis by simp
  next
    case (Cons key ks)
    obtain t s1 where d: "draw (randomId P) s = (t, s1)" by (cases "draw (randomId P) s")
    have "key < length (cl_heap s1)"
      using client_ok_session [OF assms ss] Cons ok_draw(2) [OF d assms]
      by (simp add: session_ok_def shape_def)  (metis length_map)
    with Cons d ok_draw(1) [OF d assms] show ?thesis
      by (auto simp: client_ok_def shape_def)
  qed
qed

lemma ok_send_chunk [wf_rules]: "client_ok s \<Longrightarrow> client_ok (send_chunk P up i s)"
  by (auto simp: send_chunk_def Let_def split: prod.split intro!: ok_setFileProgress ok_send dest: ok_draw(1))

lemma ok_resume_upload:
  assumes "client_ok s"
  shows "client_ok (snd (resume_upload P up s))"
proof (cases "up_stage up")
  case ReadingFile
  obtain h s1 where m: "startFileMessage (up_transfer up) (js ''you'') (file_meta_for (up_file up)) True s = (h, s1)"
    by (cases "startFileMessage (up_transfer up) (js ''you'') (file_meta_for (up_file up)) True s")
  obtain env s2 where d: "draw (encryptMessage P (deref s1 (up_key up))
      (stringify (meta_json (file_meta_for (up_file up))))) s1 = (env, s2)"
    by (cases "draw (encryptMessage P (deref s1 (up_key up))
      (stringify (meta_json (file_meta_for (up_file up))))) s1")
  have "client_ok s2" using ok_draw(1) [OF d ok_startFileMessage(1) [OF m assms]] .
  then show ?thesis
    by (simp add: resume_upload_def ReadingFile Let_def m d ok_send_chunk ok_send)
next
  case (AfterChunk i)
  have finished: "client_ok (finishFileMessage t u (trackUrl u s2))"
    if "createObjectURL b (send (FileEnd t) s) = (u, s2)" for t b u s2
    using ok_createObjectURL(1) [OF that ok_send [OF assms]] by (intro ok_file_message_end ok_trackUrl)
  show ?thesis
    using finished assms
    by (auto simp: resume_upload_def AfterChunk Let_def ok_send_chunk split: prod.split)
qed

lemma up_key_setFileProgress [simp]: "cl_uploads (upd_ui f s) = cl_uploads s"
  by (simp add: upd_ui_def)

lemma resume_upload_keeps:
  "cl_uploads (snd (resume_upload P up s)) = cl_uploads s"
  "length (cl_heap (snd (resume_upload P up s))) = length (cl_heap s)"
  by (auto simp: resume_upload_def send_chunk_def startFileMessage_def setFileProgress_def upd_view_def
      finishFileMessage_def trackUrl_def upd_session_def upd_ui_def send_def ws_send_def upd_socket_def
      createObjectURL_def draw_def Let_def split_beta split: upload_stage.split option.split)

lemma resume_upload_key: "fst (resume_upload P up s) = Some up' \<Longrightarrow> up_key up' = up_key up"
  by (auto simp: resume_upload_def Let_def split_beta split: upload_stage.splits if_splits)

lemma ok_uploads:
  "client_ok s \<Longrightarrow> \<forall>up \<in> set ups. up_key up < length (cl_heap s) \<Longrightarrow> client_ok (s\<lparr>cl_uploads := ups\<rparr>)"
  by (simp add: client_ok_def shape_def)

lemma ok_resume_nth [wf_rules]:
  assumes "client_ok s"
  shows "client_ok (resume_nth P n s)"
proof (cases "n < length (cl_uploads s)")
  case True
  let ?up = "cl_uploads s ! n"
  obtain nxt s1 where r: "resume_upload P ?up s = (nxt, s1)" by (cases "resume_upload P ?up s")
  have ok: "client_ok s1" using ok_resume_upload [OF assms, of P ?up] r by simp
  have keep: "cl_uploads s1 = cl_uploads s" "length (cl_heap s1) = length (cl_heap s)"
    using resume_upload_keeps [of P ?up s] r by simp_all
  have "?up \<in> set (cl_uploads s)" using True by simp
  then have "up_key ?up < length (cl_heap s)" using assms by (simp add: client_ok_def)
  moreover have "up_key up' = up_key ?up" if "nxt = Some up'" for up'
    using resume_upload_key [of P ?up s up'] r that by simp
  ultimately have next_key: "up_key up' < length (cl_heap s1)" if "nxt = Some up'" for up'
    using that keep by metis
  have all: "\<forall>up \<in> set (cl_uploads s1). up_key up < length (cl_heap s1)"
    using assms keep by (simp add: client_ok_def)
  show ?thesis
  proof (cases nxt)
    case None
    have "set (take n (cl_uploads s1) @ drop (Suc n) (cl_uploads s1)) \<subseteq> set (cl_uploads s1)"
      by (auto dest: in_set_takeD in_set_dropD)
    with all have "\<forall>up \<in> set (take n (cl_uploads s1) @ drop (Suc n) (cl_uploads s1)).
        up_key up < length (cl_heap s1)" by blast
    from ok_uploads [OF ok this] None True r show ?thesis by (simp add: resume_nth_def)
  next
    case (Some up')
    have "set ((cl_uploads s1)[n := up']) \<subseteq> insert up' (set (cl_uploads s1))"
      by (rule set_update_subset_insert)
    with all next_key [OF Some] have "\<forall>up \<in> set ((cl_uploads s1)[n := up']).
        up_key up < length (cl_heap s1)" by blast
    from ok_uploads [OF ok this] Some True r show ?thesis by (simp add: resume_nth_def)
  qed
next
  case False
  with assms show ?thesis by (simp add: resume_nth_def)
qed

lemma find_in: "find Q xs = Some x \<Longrightarrow> x \<in> set xs \<and> Q x"
  by (metis find_Some_iff nth_mem)

lemma ok_delete_incoming [wf_rules]: "client_ok s \<Longrightarrow> client_ok (delete_incoming t s)"
  unfolding delete_incoming_def by (rule ok_upd_session) (simp_all add: session_ok_def)

lemma chunk_count_range: "chunk_count j = Some (Inr n) \<Longrightarrow> 1 \<le> n \<and> n \<le> 100000"
  by (auto simp: chunk_count_def split: option.splits json.splits if_splits)

lemma ok_onFileStart [wf_rules]:
  assumes "client_ok s"
  shows "client_ok (state_of (onFileStart P msg s))"
  unfolding onFileStart_def
proof (rule ok_with_session_out [OF assms])
  fix ss assume ss: "cl_session s = Some ss"
  have found: "client_ok (snd (startFileMessage t nick m False
      (upd_session (\<lambda>x. x\<lparr>s_incoming := map_set t inc (s_incoming x)\<rparr>) s)))"
    if key: "findKeyById P i s = Some (in_key inc)" and inc: "incoming_ok inc" for t nick m i inc
  proof -
    have "in_key inc \<in> set (s_keys ss)"
      using key ss by (auto simp: findKeyById_def dest: find_in)
    then have "in_key inc < length (shape s)"
      using client_ok_session [OF assms ss] by (simp add: session_ok_def)
    then have "client_ok (upd_session (\<lambda>x. x\<lparr>s_incoming := map_set t inc (s_incoming x)\<rparr>) s)"
      using inc by (intro ok_upd_session [OF assms]) (simp add: session_ok_def)
    then show ?thesis
      using ok_startFileMessage(1) [OF prod.collapse [symmetric]] by blast
  qed
  have fresh: "incoming_ok \<lparr>in_key = k, in_meta = meta_of j n, in_nick = nick,
      in_parts = replicate (nat n) None, in_extra = [], in_received = 0\<rparr>"
    if "chunk_count j = Some (Inr n)" for k j n nick
    using chunk_count_range [OF that] by (simp add: incoming_ok_def meta_of_def)
  show "client_ok (state_of (if falsy (sm_transfer msg) \<or> falsy (sm_keyId msg) \<or> sm_data msg = None then Done s
     else case findKeyById P (or_else (sm_keyId msg) []) s of
       None \<Rightarrow> Done s
     | Some key \<Rightarrow>
         (case bind_result (decryptMessage P (deref s key) (or_else (sm_data msg) [])) json_parse of
            Inl _ \<Rightarrow> Done s
          | Inr j \<Rightarrow>
              if j = JNull then Throws TypeErr s
              else case chunk_count j of
                None \<Rightarrow> Done s
              | Some (Inl e) \<Rightarrow> Throws e s
              | Some (Inr n) \<Rightarrow>
                  (let transfer = or_else (sm_transfer msg) [];
                       nick = or_else (sm_nick msg) (js ''?'');
                       meta = meta_of j n;
                       inc = \<lparr>in_key = key, in_meta = meta, in_nick = nick,
                              in_parts = replicate (nat n) None, in_extra = [], in_received = 0\<rparr>
                   in Done (snd (startFileMessage transfer nick meta False
                        (upd_session (\<lambda>x. x\<lparr>s_incoming := map_set transfer inc (s_incoming x)\<rparr>) s)))))))"
    using assms by (auto simp: Let_def intro!: found fresh split: option.split sum.split)
qed

lemma filter_count_update:
  assumes "i < length xs" and "xs ! i = None"
  shows "length (filter (\<lambda>p. p \<noteq> None) (xs[i := Some c])) = Suc (length (filter (\<lambda>p. p \<noteq> None) xs))"
proof -
  have "xs = take i xs @ None # drop (Suc i) xs"
    using assms by (metis id_take_nth_drop)
  then have "length (filter (\<lambda>p. p \<noteq> None) xs) =
      length (filter (\<lambda>p. p \<noteq> None) (take i xs)) + length (filter (\<lambda>p. p \<noteq> None) (drop (Suc i) xs))"
    by (metis (mono_tags, lifting) filter.simps(2) filter_append length_append)
  moreover have "xs[i := Some c] = take i xs @ Some c # drop (Suc i) xs"
    using assms(1) by (rule upd_conv_take_nth_drop)
  ultimately show ?thesis by simp
qed

text \<open>A placed chunk keeps everything but, when it was the last, the strict bound.\<close>

lemma place_chunk_ok:
  assumes "place_chunk idx c inc = Some inc1" and "incoming_ok inc"
  shows "in_key inc1 = in_key inc \<and> in_meta inc1 = in_meta inc
    \<and> in_received inc1 = Suc (in_received inc)
    \<and> (int (in_received inc1) \<noteq> fm_chunks (in_meta inc1) \<longrightarrow> incoming_ok inc1)"
proof -
  from assms(1) consider (slot) i where "idx = Some (JNum i)" "0 \<le> i" "i < fm_chunks (in_meta inc)"
      "in_parts inc ! nat i = None"
      "inc1 = inc\<lparr>in_parts := (in_parts inc)[nat i := Some c], in_received := in_received inc + 1\<rparr>"
    | (extra) m k where "inc1 = inc\<lparr>in_extra := (m, k) # in_extra inc, in_received := in_received inc + 1\<rparr>"
    by (auto simp: place_chunk_def split: option.splits json.splits if_splits)
  then show ?thesis
  proof cases
    case slot
    then have "nat i < length (in_parts inc)" using assms(2) by (simp add: incoming_ok_def)
    from filter_count_update [OF this slot(4)] slot assms(2) show ?thesis
      by (auto simp: incoming_ok_def)
  next
    case extra
    with assms(2) show ?thesis by (auto simp: incoming_ok_def)
  qed
qed

lemma ok_finishIncoming [wf_rules]:
  assumes "client_ok s"
  shows "client_ok (finishIncoming t s)"
proof -
  have finished: "client_ok (finishFileMessage t u (trackUrl u s1))"
    if "createObjectURL b (delete_incoming t s) = (u, s1)" for u s1 b
    using ok_createObjectURL(1) [OF that ok_delete_incoming [OF assms]]
    by (intro ok_file_message_end ok_trackUrl)
  then show ?thesis
    using assms by (auto simp: finishIncoming_def Let_def split: option.split prod.split)
qed

text \<open>
  The last chunk leaves its record in the map only until \<open>finishIncoming\<close> removes it, so the
  completed state is related to one without the record.
\<close>

lemma map_delete_set: "map_delete t (map_set t v m) = map_delete t m"
  by (induction t v m rule: map_set.induct) (auto simp: map_delete_def)

lemma finish_after_set:
  assumes "client_ok s"
  shows "client_ok (finishIncoming t (setFileProgress h a b
      (upd_session (\<lambda>ss. ss\<lparr>s_incoming := map_set t inc (s_incoming ss)\<rparr>) s)))"
    and "client_ok (finishIncoming t
      (upd_session (\<lambda>ss. ss\<lparr>s_incoming := map_set t inc (s_incoming ss)\<rparr>) s))"
proof -
  have del: "client_ok (delete_incoming t (setFileProgress h a b
        (upd_session (\<lambda>ss. ss\<lparr>s_incoming := map_set t inc (s_incoming ss)\<rparr>) s)))"
      "client_ok (delete_incoming t (upd_session (\<lambda>ss. ss\<lparr>s_incoming := map_set t inc (s_incoming ss)\<rparr>) s))"
    for inc
  proof -
    have "delete_incoming t (upd_session (\<lambda>ss. ss\<lparr>s_incoming := map_set t inc (s_incoming ss)\<rparr>) s)
        = delete_incoming t s"
      by (cases "cl_session s")
        (simp_all add: delete_incoming_def upd_session_def map_delete_set)
    moreover have "delete_incoming t (setFileProgress h a b x) = setFileProgress h a b (delete_incoming t x)" for x
      by (cases x) (simp add: delete_incoming_def setFileProgress_def upd_view_def upd_session_def
          split: file_state.split)
    ultimately show "client_ok (delete_incoming t (setFileProgress h a b
        (upd_session (\<lambda>ss. ss\<lparr>s_incoming := map_set t inc (s_incoming ss)\<rparr>) s)))"
      "client_ok (delete_incoming t (upd_session (\<lambda>ss. ss\<lparr>s_incoming := map_set t inc (s_incoming ss)\<rparr>) s))"
      using assms by (simp_all add: ok_setFileProgress ok_delete_incoming)
  qed
  have finish: "client_ok (finishIncoming t x)" if "client_ok (delete_incoming t x)"
    and "cl_session x \<noteq> None \<and> incoming_of t x \<noteq> None \<or> client_ok x" for x
  proof (cases "incoming_of t x")
    case None
    with that(2) show ?thesis by (simp add: finishIncoming_def)
  next
    case (Some inc)
    have "client_ok (finishFileMessage t u (trackUrl u s1))"
      if "createObjectURL b (delete_incoming t x) = (u, s1)" for u s1 b
      using ok_createObjectURL(1) [OF that \<open>client_ok (delete_incoming t x)\<close>]
      by (intro ok_file_message_end ok_trackUrl)
    with Some show ?thesis by (auto simp: finishIncoming_def Let_def split: prod.split)
  qed
  show "client_ok (finishIncoming t (setFileProgress h a b
      (upd_session (\<lambda>ss. ss\<lparr>s_incoming := map_set t inc (s_incoming ss)\<rparr>) s)))"
    using assms by (intro finish del, cases "cl_session s")
      (auto simp: incoming_of_def setFileProgress_def upd_view_def upd_session_def js_map.lookup_put
        client_ok_def shape_def)
  show "client_ok (finishIncoming t
      (upd_session (\<lambda>ss. ss\<lparr>s_incoming := map_set t inc (s_incoming ss)\<rparr>) s))"
    using assms by (intro finish del, cases "cl_session s")
      (auto simp: incoming_of_def upd_session_def js_map.lookup_put client_ok_def shape_def)
qed

lemma ok_onFileChunk [wf_rules]:
  assumes "client_ok s"
  shows "client_ok (onFileChunk P msg s)"
proof -
  have placed: "client_ok (upd_session (\<lambda>ss. ss\<lparr>s_incoming := map_set t inc1 (s_incoming ss)\<rparr>) s)"
    if at: "incoming_of t s = Some inc" "place_chunk idx c inc = Some inc1"
      "int (in_received inc1) \<noteq> fm_chunks (in_meta inc1)" for t inc idx c inc1
  proof -
    obtain ss where ss: "cl_session s = Some ss" and get: "map_of (s_incoming ss) t = Some inc"
      using at(1) by (auto simp: incoming_of_def split: option.splits)
    have "in_key inc < length (shape s) \<and> incoming_ok inc"
      by (rule values_sat_get [OF _ get]) (use client_ok_session [OF assms ss] in \<open>simp add: session_ok_def\<close>)
    with place_chunk_ok [OF at(2)] at(3) show ?thesis
      by (intro ok_upd_session [OF assms]) (simp add: session_ok_def)
  qed
  show ?thesis
    unfolding onFileChunk_def Let_def
    by (auto split: option.split sum.split intro: assms finish_after_set placed ok_setFileProgress)
qed

lemma ok_onFileEnd [wf_rules]: "client_ok s \<Longrightarrow> client_ok (onFileEnd msg s)"
  by (simp add: onFileEnd_def Let_def ok_file_message_end ok_delete_incoming)

lemma ok_onFileAbort [wf_rules]: "client_ok s \<Longrightarrow> client_ok (onFileAbort msg s)"
  by (simp add: onFileAbort_def Let_def ok_file_message_end ok_delete_incoming)

section \<open>The event loop\<close>

lemma ok_handleError [wf_rules]: "client_ok s \<Longrightarrow> client_ok (handleError msg s)"
  by (simp add: handleError_def Let_def ok_texts ok_file_message_end ok_delete_incoming ok_teardown)

lemma ok_onClose [wf_rules]: "client_ok s \<Longrightarrow> client_ok (onClose s)"
  unfolding onClose_def Let_def by (intro ok_fields) (simp add: ok_texts ok_teardown)

lemma ok_open_session [wf_rules]:
  assumes "client_ok s"
  shows "client_ok (open_session P hello create s)"
proof -
  let ?w = "length (cl_sockets s)"
  let ?s1 = "s\<lparr>cl_sockets := cl_sockets s @ [\<lparr>so_state = Connecting, so_hello = hello, so_sent = []\<rparr>]\<rparr>"
  obtain kp s2 where d: "draw (generateKeyPair P) ?s1 = (kp, s2)" by (cases "draw (generateKeyPair P) ?s1")
  obtain priv s3 where a: "alloc (kp_priv kp) s2 = (priv, s3)" by (cases "alloc (kp_priv kp) s2")
  have len: "length (kp_priv kp) = 32"
    using d by (auto simp: draw_def generateKeyPair_def random_bytes_def split_beta Let_def)
  let ?new = "\<lparr>s_ws = ?w, s_room = [], s_memberId = [], s_role = Member, s_ownerId = [], s_keys = [],
             s_pub = kp_pub kp, s_priv = priv, s_pendingInvites = [], s_handshakes = [],
             s_memberPubs = [], s_knownMembers = [], s_firstOwnerPub = None, s_lastMembers = [],
             s_incoming = [], s_fileMsgs = [], s_objectUrls = []\<rparr>"
  have s2: "client_ok s2" using ok_draw(1) [OF d ok_fields(6) [OF assms]] .
  have "session_ok (shape s3) (length (cl_views s3)) ?new"
    using ok_alloc(2,3) [OF a s2] len by (simp add: session_ok_def other_ref_def)
  then have s4: "client_ok (s3\<lparr>cl_session := Some ?new\<rparr>)"
    using ok_alloc(1) [OF a s2] by (simp add: client_ok_def shape_def)
  have create: "client_ok (upd_session (\<lambda>ss. ss\<lparr>s_keys := [k]\<rparr>) s5)"
    if "fresh_key P (s3\<lparr>cl_session := Some ?new\<rparr>) = (k, s5)" for k s5
  proof -
    have "shape (s3\<lparr>cl_session := Some ?new\<rparr>) = shape s3" by (simp add: shape_def)
    moreover have "priv < length (shape s3)" using ok_alloc(2,3) [OF a s2] by simp
    ultimately have "k \<noteq> priv" using ok_fresh_key(5) [OF that s4] by simp
    then show ?thesis
      using ok_fresh_key [OF that s4]
      by (intro ok_upd_session) (auto simp: session_ok_def other_ref_def MAX_KEPT_KEYS_def)
  qed
  show ?thesis
    using s4 create by (simp add: open_session_def Let_def d a split: prod.split)
qed

lemma ok_connect [wf_rules]: "client_ok s \<Longrightarrow> client_ok (connect P hello create s)"
  unfolding connect_def Let_def
  by (auto split: option.split intro!: ok_open_session ok_texts ok_fields ok_teardown)

lemma ok_resume_connect [wf_rules]: "client_ok s \<Longrightarrow> client_ok (resume_connect P pc s)"
  by (simp add: resume_connect_def ok_open_session)

lemma ok_socket_closed [wf_rules]:
  assumes "client_ok s"
  shows "client_ok (socket_closed P w s)"
  unfolding socket_closed_def Let_def
  by (rule foldl_preserves [where I = client_ok]) (simp_all add: assms ok_fields ok_onClose ok_socket ok_resume_connect)

lemma ok_socket_events [wf_rules]:
  "client_ok s \<Longrightarrow> client_ok (connect_timeout P n s)"
  "client_ok s \<Longrightarrow> client_ok (socket_opened w s)"
  "client_ok s \<Longrightarrow> client_ok (socket_error s)"
  "client_ok s \<Longrightarrow> client_ok (recoverIfSocketDead s)"
  by (auto simp: connect_timeout_def socket_opened_def socket_error_def recoverIfSocketDead_def
      split: option.split intro!: ok_resume_connect ok_fields ok_socket ok_texts ok_onClose)

lemma ok_dispatch [wf_rules]: "client_ok s \<Longrightarrow> client_ok (state_of (dispatch P msg s))"
  unfolding dispatch_def Let_def
  by (simp add: wf_rules)

lemma ok_onMessage [wf_rules]: "client_ok s \<Longrightarrow> client_ok (state_of (onMessage P d s))"
  by (simp add: onMessage_def ok_dispatch split: sum.split)

lemma ok_message_submitted [wf_rules]:
  assumes "client_ok s"
  shows "client_ok (message_submitted P body s)"
proof -
  have sent: "client_ok (addMessage n body True (send (Msg env) t))"
    if "draw f s = (env, t)" for f :: "nat \<Rightarrow> jsstr \<times> nat" and env t n
    using ok_draw(1) [OF that assms] by (simp add: wf_rules)
  show ?thesis
    unfolding message_submitted_def Let_def
    by (rule ok_with_session [OF assms])
      (auto simp: assms split: list.split option.split prod.split
        intro!: ok_sendFile ok_clearStaged intro: sent)
qed

lemma ok_doLeave [wf_rules]: "client_ok s \<Longrightarrow> client_ok (doLeave s)"
  by (simp add: doLeave_def wf_rules)

lemma ok_user [wf_rules]:
  "client_ok s \<Longrightarrow> client_ok (create_clicked P nick s)"
  "client_ok s \<Longrightarrow> client_ok (join_submitted P link nick s)"
  "client_ok s \<Longrightarrow> client_ok (member_action mk ok target s)"
  "client_ok s \<Longrightarrow> client_ok (copy_invite ok s)"
  "client_ok s \<Longrightarrow> client_ok (onLeaveClicked s)"
  "client_ok s \<Longrightarrow> client_ok (modal_clicked a sel s)"
  "client_ok s \<Longrightarrow> client_ok (pollStats s)"
  "client_ok s \<Longrightarrow> client_ok (stats_reply r s)"
  by (auto simp: create_clicked_def join_submitted_def member_action_def copy_invite_def
      onLeaveClicked_def modal_clicked_def pollStats_def stats_reply_def Let_def wf_rules
      split: option.split modal_action.split intro!: ok_with_session)

lemma client_step_ok: "client_ok s \<Longrightarrow> client_ok (client_step P e s)"
  unfolding client_step_def handle_event_def
  by (cases e) (simp_all add: wf_rules)

interpretation client_system: invariant_system "client_step P" client_ok for P
  by unfold_locales (rule client_step_ok)

end
