(* ===== verification/ClientFacts.thy ===== *)
theory ClientFacts
  imports ClientInvariant
begin

text \<open>
  Frame facts for the client's operations: which fields of the state each one leaves alone, what
  the store holds after a wipe or an allocation, and what a \<open>send\<close> adds to the socket.
\<close>

section \<open>Fields an operation leaves alone\<close>

lemma upd_ui_keeps [simp]:
  "cl_page (upd_ui f s) = cl_page s"
  "cl_heap (upd_ui f s) = cl_heap s"
  "cl_sockets (upd_ui f s) = cl_sockets s"
  "cl_session (upd_ui f s) = cl_session s"
  "cl_pendingJoin (upd_ui f s) = cl_pendingJoin s"
  "cl_intentionalClose (upd_ui f s) = cl_intentionalClose s"
  "cl_staged (upd_ui f s) = cl_staged s"
  "cl_blobs (upd_ui f s) = cl_blobs s"
  "cl_nextUrl (upd_ui f s) = cl_nextUrl s"
  "cl_views (upd_ui f s) = cl_views s"
  "cl_connects (upd_ui f s) = cl_connects s"
  "cl_uploads (upd_ui f s) = cl_uploads s"
  "cl_random (upd_ui f s) = cl_random s"
  by (simp_all add: upd_ui_def)

lemma upd_session_keeps [simp]:
  "cl_page (upd_session f s) = cl_page s"
  "cl_heap (upd_session f s) = cl_heap s"
  "cl_sockets (upd_session f s) = cl_sockets s"
  "cl_pendingJoin (upd_session f s) = cl_pendingJoin s"
  "cl_intentionalClose (upd_session f s) = cl_intentionalClose s"
  "cl_staged (upd_session f s) = cl_staged s"
  "cl_blobs (upd_session f s) = cl_blobs s"
  "cl_nextUrl (upd_session f s) = cl_nextUrl s"
  "cl_views (upd_session f s) = cl_views s"
  "cl_connects (upd_session f s) = cl_connects s"
  "cl_uploads (upd_session f s) = cl_uploads s"
  "cl_ui (upd_session f s) = cl_ui s"
  "cl_random (upd_session f s) = cl_random s"
  by (simp_all add: upd_session_def)

lemma lobbyError_keeps [simp]:
  "cl_page (lobbyError t s) = cl_page s"
  "cl_heap (lobbyError t s) = cl_heap s"
  "cl_sockets (lobbyError t s) = cl_sockets s"
  "cl_session (lobbyError t s) = cl_session s"
  "cl_pendingJoin (lobbyError t s) = cl_pendingJoin s"
  "cl_intentionalClose (lobbyError t s) = cl_intentionalClose s"
  "cl_staged (lobbyError t s) = cl_staged s"
  "cl_blobs (lobbyError t s) = cl_blobs s"
  "cl_nextUrl (lobbyError t s) = cl_nextUrl s"
  "cl_views (lobbyError t s) = cl_views s"
  "cl_connects (lobbyError t s) = cl_connects s"
  "cl_uploads (lobbyError t s) = cl_uploads s"
  "cl_random (lobbyError t s) = cl_random s"
  by (simp_all add: lobbyError_def)

lemma lobbyStatus_keeps [simp]:
  "cl_page (lobbyStatus t s) = cl_page s"
  "cl_heap (lobbyStatus t s) = cl_heap s"
  "cl_sockets (lobbyStatus t s) = cl_sockets s"
  "cl_session (lobbyStatus t s) = cl_session s"
  "cl_pendingJoin (lobbyStatus t s) = cl_pendingJoin s"
  "cl_intentionalClose (lobbyStatus t s) = cl_intentionalClose s"
  "cl_staged (lobbyStatus t s) = cl_staged s"
  "cl_blobs (lobbyStatus t s) = cl_blobs s"
  "cl_nextUrl (lobbyStatus t s) = cl_nextUrl s"
  "cl_views (lobbyStatus t s) = cl_views s"
  "cl_connects (lobbyStatus t s) = cl_connects s"
  "cl_uploads (lobbyStatus t s) = cl_uploads s"
  "cl_random (lobbyStatus t s) = cl_random s"
  by (simp_all add: lobbyStatus_def)

lemma addMessage_keeps [simp]:
  "cl_page (addMessage n b m s) = cl_page s"
  "cl_heap (addMessage n b m s) = cl_heap s"
  "cl_sockets (addMessage n b m s) = cl_sockets s"
  "cl_session (addMessage n b m s) = cl_session s"
  "cl_pendingJoin (addMessage n b m s) = cl_pendingJoin s"
  "cl_intentionalClose (addMessage n b m s) = cl_intentionalClose s"
  "cl_staged (addMessage n b m s) = cl_staged s"
  "cl_blobs (addMessage n b m s) = cl_blobs s"
  "cl_nextUrl (addMessage n b m s) = cl_nextUrl s"
  "cl_views (addMessage n b m s) = cl_views s"
  "cl_connects (addMessage n b m s) = cl_connects s"
  "cl_uploads (addMessage n b m s) = cl_uploads s"
  "cl_random (addMessage n b m s) = cl_random s"
  by (simp_all add: addMessage_def)

lemma showLobby_keeps [simp]:
  "cl_page (showLobby s) = cl_page s"
  "cl_heap (showLobby s) = cl_heap s"
  "cl_sockets (showLobby s) = cl_sockets s"
  "cl_session (showLobby s) = cl_session s"
  "cl_pendingJoin (showLobby s) = cl_pendingJoin s"
  "cl_intentionalClose (showLobby s) = cl_intentionalClose s"
  "cl_staged (showLobby s) = cl_staged s"
  "cl_blobs (showLobby s) = cl_blobs s"
  "cl_nextUrl (showLobby s) = cl_nextUrl s"
  "cl_views (showLobby s) = cl_views s"
  "cl_connects (showLobby s) = cl_connects s"
  "cl_uploads (showLobby s) = cl_uploads s"
  "cl_random (showLobby s) = cl_random s"
  by (simp_all add: showLobby_eq)

lemma inviteBtn_keeps [simp]:
  "cl_page (inviteBtn_for r s) = cl_page s"
  "cl_heap (inviteBtn_for r s) = cl_heap s"
  "cl_sockets (inviteBtn_for r s) = cl_sockets s"
  "cl_session (inviteBtn_for r s) = cl_session s"
  "cl_pendingJoin (inviteBtn_for r s) = cl_pendingJoin s"
  "cl_intentionalClose (inviteBtn_for r s) = cl_intentionalClose s"
  "cl_staged (inviteBtn_for r s) = cl_staged s"
  "cl_blobs (inviteBtn_for r s) = cl_blobs s"
  "cl_nextUrl (inviteBtn_for r s) = cl_nextUrl s"
  "cl_views (inviteBtn_for r s) = cl_views s"
  "cl_connects (inviteBtn_for r s) = cl_connects s"
  "cl_uploads (inviteBtn_for r s) = cl_uploads s"
  "cl_random (inviteBtn_for r s) = cl_random s"
  by (simp_all add: inviteBtn_for_def)

lemma renderMembers_keeps [simp]:
  "cl_page (renderMembers ms s) = cl_page s"
  "cl_heap (renderMembers ms s) = cl_heap s"
  "cl_sockets (renderMembers ms s) = cl_sockets s"
  "cl_pendingJoin (renderMembers ms s) = cl_pendingJoin s"
  "cl_intentionalClose (renderMembers ms s) = cl_intentionalClose s"
  "cl_staged (renderMembers ms s) = cl_staged s"
  "cl_blobs (renderMembers ms s) = cl_blobs s"
  "cl_nextUrl (renderMembers ms s) = cl_nextUrl s"
  "cl_views (renderMembers ms s) = cl_views s"
  "cl_connects (renderMembers ms s) = cl_connects s"
  "cl_uploads (renderMembers ms s) = cl_uploads s"
  "cl_random (renderMembers ms s) = cl_random s"
  by (simp_all add: renderMembers_def Let_def)

lemma upd_socket_keeps [simp]:
  "cl_page (upd_socket w f s) = cl_page s"
  "cl_heap (upd_socket w f s) = cl_heap s"
  "cl_session (upd_socket w f s) = cl_session s"
  "cl_pendingJoin (upd_socket w f s) = cl_pendingJoin s"
  "cl_intentionalClose (upd_socket w f s) = cl_intentionalClose s"
  "cl_staged (upd_socket w f s) = cl_staged s"
  "cl_blobs (upd_socket w f s) = cl_blobs s"
  "cl_nextUrl (upd_socket w f s) = cl_nextUrl s"
  "cl_views (upd_socket w f s) = cl_views s"
  "cl_connects (upd_socket w f s) = cl_connects s"
  "cl_uploads (upd_socket w f s) = cl_uploads s"
  "cl_ui (upd_socket w f s) = cl_ui s"
  "cl_random (upd_socket w f s) = cl_random s"
  by (simp_all add: upd_socket_def)

lemma ws_send_keeps [simp]:
  "cl_page (ws_send w t s) = cl_page s"
  "cl_heap (ws_send w t s) = cl_heap s"
  "cl_session (ws_send w t s) = cl_session s"
  "cl_pendingJoin (ws_send w t s) = cl_pendingJoin s"
  "cl_intentionalClose (ws_send w t s) = cl_intentionalClose s"
  "cl_staged (ws_send w t s) = cl_staged s"
  "cl_blobs (ws_send w t s) = cl_blobs s"
  "cl_nextUrl (ws_send w t s) = cl_nextUrl s"
  "cl_views (ws_send w t s) = cl_views s"
  "cl_connects (ws_send w t s) = cl_connects s"
  "cl_uploads (ws_send w t s) = cl_uploads s"
  "cl_ui (ws_send w t s) = cl_ui s"
  "cl_random (ws_send w t s) = cl_random s"
  by (simp_all add: ws_send_def)

lemma ws_close_keeps [simp]:
  "cl_page (ws_close w s) = cl_page s"
  "cl_heap (ws_close w s) = cl_heap s"
  "cl_session (ws_close w s) = cl_session s"
  "cl_pendingJoin (ws_close w s) = cl_pendingJoin s"
  "cl_intentionalClose (ws_close w s) = cl_intentionalClose s"
  "cl_staged (ws_close w s) = cl_staged s"
  "cl_blobs (ws_close w s) = cl_blobs s"
  "cl_nextUrl (ws_close w s) = cl_nextUrl s"
  "cl_views (ws_close w s) = cl_views s"
  "cl_connects (ws_close w s) = cl_connects s"
  "cl_uploads (ws_close w s) = cl_uploads s"
  "cl_ui (ws_close w s) = cl_ui s"
  "cl_random (ws_close w s) = cl_random s"
  by (simp_all add: ws_close_def)

lemma send_keeps [simp]:
  "cl_page (send m s) = cl_page s"
  "cl_heap (send m s) = cl_heap s"
  "cl_session (send m s) = cl_session s"
  "cl_pendingJoin (send m s) = cl_pendingJoin s"
  "cl_intentionalClose (send m s) = cl_intentionalClose s"
  "cl_staged (send m s) = cl_staged s"
  "cl_blobs (send m s) = cl_blobs s"
  "cl_nextUrl (send m s) = cl_nextUrl s"
  "cl_views (send m s) = cl_views s"
  "cl_connects (send m s) = cl_connects s"
  "cl_uploads (send m s) = cl_uploads s"
  "cl_ui (send m s) = cl_ui s"
  "cl_random (send m s) = cl_random s"
  by (simp_all add: send_def split: option.split)

lemma wipeKey_keeps [simp]:
  "cl_page (wipeKey r s) = cl_page s"
  "cl_sockets (wipeKey r s) = cl_sockets s"
  "cl_session (wipeKey r s) = cl_session s"
  "cl_pendingJoin (wipeKey r s) = cl_pendingJoin s"
  "cl_intentionalClose (wipeKey r s) = cl_intentionalClose s"
  "cl_staged (wipeKey r s) = cl_staged s"
  "cl_blobs (wipeKey r s) = cl_blobs s"
  "cl_nextUrl (wipeKey r s) = cl_nextUrl s"
  "cl_views (wipeKey r s) = cl_views s"
  "cl_connects (wipeKey r s) = cl_connects s"
  "cl_uploads (wipeKey r s) = cl_uploads s"
  "cl_ui (wipeKey r s) = cl_ui s"
  "cl_random (wipeKey r s) = cl_random s"
  by (simp_all add: wipeKey_def)

lemma revoke_keeps [simp]:
  "cl_page (revokeObjectURL u s) = cl_page s"
  "cl_heap (revokeObjectURL u s) = cl_heap s"
  "cl_sockets (revokeObjectURL u s) = cl_sockets s"
  "cl_session (revokeObjectURL u s) = cl_session s"
  "cl_pendingJoin (revokeObjectURL u s) = cl_pendingJoin s"
  "cl_intentionalClose (revokeObjectURL u s) = cl_intentionalClose s"
  "cl_staged (revokeObjectURL u s) = cl_staged s"
  "cl_nextUrl (revokeObjectURL u s) = cl_nextUrl s"
  "cl_views (revokeObjectURL u s) = cl_views s"
  "cl_connects (revokeObjectURL u s) = cl_connects s"
  "cl_uploads (revokeObjectURL u s) = cl_uploads s"
  "cl_ui (revokeObjectURL u s) = cl_ui s"
  "cl_random (revokeObjectURL u s) = cl_random s"
  by (simp_all add: revokeObjectURL_def)

lemma trackUrl_keeps [simp]:
  "cl_page (trackUrl u s) = cl_page s"
  "cl_heap (trackUrl u s) = cl_heap s"
  "cl_sockets (trackUrl u s) = cl_sockets s"
  "cl_pendingJoin (trackUrl u s) = cl_pendingJoin s"
  "cl_intentionalClose (trackUrl u s) = cl_intentionalClose s"
  "cl_staged (trackUrl u s) = cl_staged s"
  "cl_blobs (trackUrl u s) = cl_blobs s"
  "cl_nextUrl (trackUrl u s) = cl_nextUrl s"
  "cl_views (trackUrl u s) = cl_views s"
  "cl_connects (trackUrl u s) = cl_connects s"
  "cl_uploads (trackUrl u s) = cl_uploads s"
  "cl_ui (trackUrl u s) = cl_ui s"
  "cl_random (trackUrl u s) = cl_random s"
  by (simp_all add: trackUrl_def)

lemma upd_view_keeps [simp]:
  "cl_page (upd_view h f s) = cl_page s"
  "cl_heap (upd_view h f s) = cl_heap s"
  "cl_sockets (upd_view h f s) = cl_sockets s"
  "cl_session (upd_view h f s) = cl_session s"
  "cl_pendingJoin (upd_view h f s) = cl_pendingJoin s"
  "cl_intentionalClose (upd_view h f s) = cl_intentionalClose s"
  "cl_staged (upd_view h f s) = cl_staged s"
  "cl_blobs (upd_view h f s) = cl_blobs s"
  "cl_nextUrl (upd_view h f s) = cl_nextUrl s"
  "cl_connects (upd_view h f s) = cl_connects s"
  "cl_uploads (upd_view h f s) = cl_uploads s"
  "cl_ui (upd_view h f s) = cl_ui s"
  "cl_random (upd_view h f s) = cl_random s"
  by (simp_all add: upd_view_def)

lemma setFileProgress_keeps [simp]:
  "cl_page (setFileProgress h a b s) = cl_page s"
  "cl_heap (setFileProgress h a b s) = cl_heap s"
  "cl_sockets (setFileProgress h a b s) = cl_sockets s"
  "cl_session (setFileProgress h a b s) = cl_session s"
  "cl_pendingJoin (setFileProgress h a b s) = cl_pendingJoin s"
  "cl_intentionalClose (setFileProgress h a b s) = cl_intentionalClose s"
  "cl_staged (setFileProgress h a b s) = cl_staged s"
  "cl_blobs (setFileProgress h a b s) = cl_blobs s"
  "cl_nextUrl (setFileProgress h a b s) = cl_nextUrl s"
  "cl_connects (setFileProgress h a b s) = cl_connects s"
  "cl_uploads (setFileProgress h a b s) = cl_uploads s"
  "cl_ui (setFileProgress h a b s) = cl_ui s"
  "cl_random (setFileProgress h a b s) = cl_random s"
  by (simp_all add: setFileProgress_def)

lemma delete_incoming_keeps [simp]:
  "cl_page (delete_incoming t s) = cl_page s"
  "cl_heap (delete_incoming t s) = cl_heap s"
  "cl_sockets (delete_incoming t s) = cl_sockets s"
  "cl_pendingJoin (delete_incoming t s) = cl_pendingJoin s"
  "cl_intentionalClose (delete_incoming t s) = cl_intentionalClose s"
  "cl_staged (delete_incoming t s) = cl_staged s"
  "cl_blobs (delete_incoming t s) = cl_blobs s"
  "cl_nextUrl (delete_incoming t s) = cl_nextUrl s"
  "cl_views (delete_incoming t s) = cl_views s"
  "cl_connects (delete_incoming t s) = cl_connects s"
  "cl_uploads (delete_incoming t s) = cl_uploads s"
  "cl_ui (delete_incoming t s) = cl_ui s"
  "cl_random (delete_incoming t s) = cl_random s"
  by (simp_all add: delete_incoming_def)

lemma delete_handshake_keeps [simp]:
  "cl_page (delete_handshake t s) = cl_page s"
  "cl_heap (delete_handshake t s) = cl_heap s"
  "cl_sockets (delete_handshake t s) = cl_sockets s"
  "cl_pendingJoin (delete_handshake t s) = cl_pendingJoin s"
  "cl_intentionalClose (delete_handshake t s) = cl_intentionalClose s"
  "cl_staged (delete_handshake t s) = cl_staged s"
  "cl_blobs (delete_handshake t s) = cl_blobs s"
  "cl_nextUrl (delete_handshake t s) = cl_nextUrl s"
  "cl_views (delete_handshake t s) = cl_views s"
  "cl_connects (delete_handshake t s) = cl_connects s"
  "cl_uploads (delete_handshake t s) = cl_uploads s"
  "cl_ui (delete_handshake t s) = cl_ui s"
  "cl_random (delete_handshake t s) = cl_random s"
  by (simp_all add: delete_handshake_def)

lemma clearStaged_keeps [simp]:
  "cl_page (clearStaged s) = cl_page s"
  "cl_heap (clearStaged s) = cl_heap s"
  "cl_sockets (clearStaged s) = cl_sockets s"
  "cl_session (clearStaged s) = cl_session s"
  "cl_pendingJoin (clearStaged s) = cl_pendingJoin s"
  "cl_intentionalClose (clearStaged s) = cl_intentionalClose s"
  "cl_nextUrl (clearStaged s) = cl_nextUrl s"
  "cl_views (clearStaged s) = cl_views s"
  "cl_connects (clearStaged s) = cl_connects s"
  "cl_uploads (clearStaged s) = cl_uploads s"
  "cl_random (clearStaged s) = cl_random s"
  by (simp_all add: clearStaged_def Let_def split: option.split prod.split)

lemma wipe_all_keeps [simp]:
  "cl_page (wipe_all rs s) = cl_page s"
  "cl_sockets (wipe_all rs s) = cl_sockets s"
  "cl_session (wipe_all rs s) = cl_session s"
  "cl_pendingJoin (wipe_all rs s) = cl_pendingJoin s"
  "cl_intentionalClose (wipe_all rs s) = cl_intentionalClose s"
  "cl_staged (wipe_all rs s) = cl_staged s"
  "cl_blobs (wipe_all rs s) = cl_blobs s"
  "cl_nextUrl (wipe_all rs s) = cl_nextUrl s"
  "cl_views (wipe_all rs s) = cl_views s"
  "cl_connects (wipe_all rs s) = cl_connects s"
  "cl_uploads (wipe_all rs s) = cl_uploads s"
  "cl_ui (wipe_all rs s) = cl_ui s"
  "cl_random (wipe_all rs s) = cl_random s"
  unfolding wipe_all_def by (induction rs arbitrary: s) simp_all

section \<open>The store\<close>

lemma deref_cong: "cl_heap s = cl_heap t \<Longrightarrow> deref s = deref t"
  by (simp add: fun_eq_iff deref_def)

lemma deref_keeps [simp]:
  "deref (upd_ui f1 s) = deref s"
  "deref (upd_session f2 s) = deref s"
  "deref (lobbyError t1 s) = deref s"
  "deref (lobbyStatus t1 s) = deref s"
  "deref (addMessage n1 b1 m1 s) = deref s"
  "deref (showLobby s) = deref s"
  "deref (inviteBtn_for r1 s) = deref s"
  "deref (renderMembers ms s) = deref s"
  "deref (upd_socket w f3 s) = deref s"
  "deref (ws_send w t1 s) = deref s"
  "deref (ws_close w s) = deref s"
  "deref (send m2 s) = deref s"
  "deref (revokeObjectURL u s) = deref s"
  "deref (trackUrl u s) = deref s"
  "deref (upd_view h1 f4 s) = deref s"
  "deref (setFileProgress h1 a1 c1 s) = deref s"
  "deref (delete_incoming t1 s) = deref s"
  "deref (delete_handshake t1 s) = deref s"
  "deref (clearStaged s) = deref s"
  "deref (s\<lparr>cl_page := x0\<rparr>) = deref s"
  "deref (s\<lparr>cl_sockets := x1\<rparr>) = deref s"
  "deref (s\<lparr>cl_session := x2\<rparr>) = deref s"
  "deref (s\<lparr>cl_pendingJoin := x3\<rparr>) = deref s"
  "deref (s\<lparr>cl_intentionalClose := x4\<rparr>) = deref s"
  "deref (s\<lparr>cl_staged := x5\<rparr>) = deref s"
  "deref (s\<lparr>cl_blobs := x6\<rparr>) = deref s"
  "deref (s\<lparr>cl_nextUrl := x7\<rparr>) = deref s"
  "deref (s\<lparr>cl_views := x8\<rparr>) = deref s"
  "deref (s\<lparr>cl_connects := x9\<rparr>) = deref s"
  "deref (s\<lparr>cl_uploads := x10\<rparr>) = deref s"
  "deref (s\<lparr>cl_ui := x11\<rparr>) = deref s"
  "deref (s\<lparr>cl_random := x12\<rparr>) = deref s"
  by (rule deref_cong, simp)+

lemma wiped_wiped [simp]: "wiped (wiped b) = wiped b"
  by (simp add: wiped_def)

lemma length_wiped [simp]: "length (wiped b) = length b"
  by (simp add: wiped_def)

lemma wiped_empty [simp]: "wiped [] = []"
  by (simp add: wiped_def)

lemma deref_wipeKey: "deref (wipeKey r s) q = (if q = r then wiped (deref s r) else deref s q)"
  by (simp add: deref_def wipeKey_def)

lemma deref_wipe_all: "deref (wipe_all rs s) q = (if q \<in> set rs then wiped (deref s q) else deref s q)"
  unfolding wipe_all_def
proof (induction rs arbitrary: s)
  case Nil
  then show ?case by simp
next
  case (Cons r rs)
  then show ?case by (simp add: deref_wipeKey)
qed

lemma alloc_eq:
  assumes "alloc b s = (r, s')"
  shows "r = length (cl_heap s)" and "s' = s\<lparr>cl_heap := cl_heap s @ [b]\<rparr>"
    and "deref s' r = b" and "q < length (cl_heap s) \<Longrightarrow> deref s' q = deref s q"
    and "q \<noteq> r \<Longrightarrow> deref s' q = deref s q"
  using assms by (auto simp: alloc_def deref_def nth_append)

lemma draw_eq: "draw f s = (fst (f (cl_random s)), s\<lparr>cl_random := snd (f (cl_random s))\<rparr>)"
  by (simp add: draw_def split_beta)

lemma fresh_key_eq:
  "fresh_key P s = (length (cl_heap s),
    s\<lparr>cl_random := cl_random s + KEY_LEN,
      cl_heap := cl_heap s @ [fst (generateRoomKey P (cl_random s))]\<rparr>)"
  by (simp add: fresh_key_def draw_eq alloc_def generateRoomKey_def)

lemma session_upd_session [simp]: "cl_session (upd_session f s) = map_option f (cl_session s)"
  by (simp add: upd_session_def)

section \<open>What is sent\<close>

definition sent_on :: "client \<Rightarrow> nat \<Rightarrow> jsstr list" where
  "sent_on s w = (if w < length (cl_sockets s) then so_sent (cl_sockets s ! w) else [])"

definition connected :: "session \<Rightarrow> client \<Rightarrow> bool" where
  "connected ss s \<longleftrightarrow> cl_session s = Some ss \<and> s_ws ss < length (cl_sockets s)
     \<and> so_state (cl_sockets s ! s_ws ss) = Open"

lemma send_connected:
  assumes "connected ss s"
  shows "send m s = s\<lparr>cl_sockets := (cl_sockets s)[s_ws ss := (cl_sockets s ! s_ws ss)
      \<lparr>so_sent := so_sent (cl_sockets s ! s_ws ss) @ [client_msg_text m]\<rparr>]\<rparr>"
  using assms by (simp add: connected_def send_def socket_state_def ws_send_def upd_socket_def)

lemma sent_send:
  assumes "connected ss s"
  shows "sent_on (send m s) (s_ws ss) = sent_on s (s_ws ss) @ [client_msg_text m]"
    and "connected ss (send m s)"
  unfolding send_connected [OF assms] using assms by (simp_all add: sent_on_def connected_def)

lemma sent_on_cong: "cl_sockets s = cl_sockets t \<Longrightarrow> sent_on s w = sent_on t w"
  by (simp add: sent_on_def)

end
