(* ===== verification/KeyProperties.thy ===== *)
theory KeyProperties
  imports ClientFacts
begin

text \<open>
  Key management of the client: the window of room keys, zeroing on teardown, the rotation when
  members leave and its effect at the members that stay, and the replicated roster.
\<close>

section \<open>Wiping\<close>

lemma wipe_all_append: "wipe_all (xs @ ys) s = wipe_all ys (wipe_all xs s)"
  by (simp add: wipe_all_def)

lemma wipe_all_simps [simp]: "wipe_all [] s = s" "wipe_all (r # rs) s = wipe_all rs (wipeKey r s)"
  by (simp_all add: wipe_all_def)

lemma wipe_handshakes:
  "foldl (\<lambda>t e. case hr_ke (snd e) of None \<Rightarrow> t | Some r \<Rightarrow> wipeKey r t) s es =
    wipe_all (concat (map (\<lambda>e. case hr_ke (snd e) of None \<Rightarrow> [] | Some r \<Rightarrow> [r]) es)) s"
  by (induction es arbitrary: s) (auto simp: wipe_all_append split: option.split)

lemma wipe_session_eq:
  "wipe_session ss s = ws_close (s_ws ss)
    (foldl (\<lambda>t u. revokeObjectURL u t) (wipe_all (key_material ss) s) (s_objectUrls ss))"
  by (simp add: wipe_session_def key_material_def wipe_handshakes wipe_all_append Let_def split: option.split)

lemma revoke_all:
  "cl_blobs (foldl (\<lambda>t u. revokeObjectURL u t) s us) = [b \<leftarrow> cl_blobs s. fst b \<notin> set us]"
  "cl_heap (foldl (\<lambda>t u. revokeObjectURL u t) s us) = cl_heap s"
  "cl_sockets (foldl (\<lambda>t u. revokeObjectURL u t) s us) = cl_sockets s"
  "cl_session (foldl (\<lambda>t u. revokeObjectURL u t) s us) = cl_session s"
  "cl_staged (foldl (\<lambda>t u. revokeObjectURL u t) s us) = cl_staged s"
  "cl_pendingJoin (foldl (\<lambda>t u. revokeObjectURL u t) s us) = cl_pendingJoin s"
proof (induction us arbitrary: s)
  case (Cons u us)
  {
    case 1 show ?case by (simp add: Cons) (auto simp: revokeObjectURL_def intro: filter_cong)
  next
    case 2 show ?case by (simp add: Cons)
  next
    case 3 show ?case by (simp add: Cons)
  next
    case 4 show ?case by (simp add: Cons)
  next
    case 5 show ?case by (simp add: Cons)
  next
    case 6 show ?case by (simp add: Cons)
  }
qed simp_all

lemma socket_state_close: "Closing \<le> socket_state (ws_close w s) w"
  by (auto simp: ws_close_def upd_socket_def socket_state_def less_eq_ready_state_def less_ready_state_def)

lemma clearStaged_blobs:
  "cl_blobs (clearStaged s) =
    (case cl_staged s of None \<Rightarrow> cl_blobs s | Some (f, u) \<Rightarrow> [b \<leftarrow> cl_blobs s. fst b \<noteq> u])"
  "cl_staged (clearStaged s) = None"
  by (auto simp: clearStaged_def Let_def revokeObjectURL_def split: option.split prod.split)

text \<open>What a teardown leaves of a session.\<close>

lemma teardown_session:
  assumes "cl_session s = Some ss"
  shows "cl_session (teardown b s) = None" "cl_pendingJoin (teardown b s) = None"
    "deref (teardown b s) q =
      (if q \<in> set (key_material ss) then wiped (deref s q) else deref s q)"
    "Closing \<le> socket_state (teardown b s) (s_ws ss)"
    "cl_staged (teardown b s) = None"
    "u \<in> fst ` set (cl_blobs (teardown b s)) \<Longrightarrow>
      u \<notin> set (s_objectUrls ss) \<and> (\<forall>f. cl_staged s \<noteq> Some (f, u))"
    "ui_messages (cl_ui (teardown b s)) = []"
proof -
  let ?s1 = "s\<lparr>cl_session := None, cl_pendingJoin := None\<rparr>"
  let ?s2 = "wipe_session ss ?s1"
  have heap: "cl_heap (teardown b s) = cl_heap ?s2" "cl_sockets (teardown b s) = cl_sockets ?s2"
    "cl_session (teardown b s) = cl_session ?s2" "cl_pendingJoin (teardown b s) = cl_pendingJoin ?s2"
    using assms by (simp_all add: teardown_def Let_def)
  have blobs: "cl_blobs (teardown b s) =
      (case cl_staged s of None \<Rightarrow> cl_blobs ?s2 | Some (f, u) \<Rightarrow> [x \<leftarrow> cl_blobs ?s2. fst x \<noteq> u])"
    "cl_staged (teardown b s) = None"
    using assms
    by (simp_all add: teardown_def Let_def clearStaged_blobs wipe_session_eq revoke_all
        split: option.split)
  show "cl_session (teardown b s) = None" "cl_pendingJoin (teardown b s) = None"
    by (simp_all add: heap wipe_session_eq revoke_all)
  show "cl_staged (teardown b s) = None" by (rule blobs(2))
  have "cl_heap ?s2 = cl_heap (wipe_all (key_material ss) ?s1)"
    by (simp add: wipe_session_eq revoke_all)
  then have "deref (teardown b s) = deref (wipe_all (key_material ss) ?s1)"
    using heap(1) by (intro deref_cong) simp
  moreover have "deref ?s1 = deref s" by (rule deref_cong) simp
  ultimately show "deref (teardown b s) q =
      (if q \<in> set (key_material ss) then wiped (deref s q) else deref s q)"
    by (simp add: deref_wipe_all)
  have "socket_state (teardown b s) = socket_state ?s2"
    by (simp add: fun_eq_iff socket_state_def heap(2))
  then show "Closing \<le> socket_state (teardown b s) (s_ws ss)"
    by (simp add: wipe_session_eq socket_state_close)
  show "u \<in> fst ` set (cl_blobs (teardown b s)) \<Longrightarrow>
      u \<notin> set (s_objectUrls ss) \<and> (\<forall>f. cl_staged s \<noteq> Some (f, u))"
    by (auto simp: blobs wipe_session_eq revoke_all split: option.splits)
  show "ui_messages (cl_ui (teardown b s)) = []"
    by (simp add: teardown_def Let_def showLobby_eq clearStaged_def upd_ui_def revokeObjectURL_def
        split: option.split prod.split)
qed

section \<open>The key window\<close>

lemma pushKey_session:
  assumes "cl_session s = Some ss"
  shows "cl_session (pushKey k s) = Some (ss\<lparr>s_keys := take MAX_KEPT_KEYS (k # s_keys ss)\<rparr>)"
    and "deref (pushKey k s) q =
      (if q \<in> set (drop MAX_KEPT_KEYS (k # s_keys ss)) then wiped (deref s q) else deref s q)"
    and "cl_sockets (pushKey k s) = cl_sockets s" and "cl_random (pushKey k s) = cl_random s"
  using assms by (simp_all add: pushKey_def with_session_def deref_wipe_all Let_def)

lemma dropped_in_tail: "q \<in> set (drop MAX_KEPT_KEYS (k # ks)) \<Longrightarrow> q \<in> set ks"
  by (auto simp: MAX_KEPT_KEYS_def dest: in_set_dropD)

lemma kept_not_dropped:
  assumes "distinct ks" and "q \<in> set (take n ks)"
  shows "q \<notin> set (drop n ks)"
  using assms set_take_disj_set_drop_if_distinct [of ks n n] by auto

text \<open>A new key in front of the window: its bytes are the fresh ones, the other kept keys keep theirs.\<close>

lemma fresh_push:
  assumes ok: "client_ok s" and ss: "cl_session s = Some ss" and new: "fresh_key P s = (k, s1)"
  shows "cl_session (pushKey k s1) = Some (ss\<lparr>s_keys := take MAX_KEPT_KEYS (k # s_keys ss)\<rparr>)"
    and "deref (pushKey k s1) k = fst (generateRoomKey P (cl_random s))"
    and "q < length (cl_heap s) \<Longrightarrow> q \<notin> set (drop MAX_KEPT_KEYS (k # s_keys ss)) \<Longrightarrow>
      deref (pushKey k s1) q = deref s q"
    and "q \<in> set (drop MAX_KEPT_KEYS (k # s_keys ss)) \<Longrightarrow>
      deref (pushKey k s1) q = replicate KEY_LEN 0"
    and "cl_sockets (pushKey k s1) = cl_sockets s" and "cl_random (pushKey k s1) = cl_random s + KEY_LEN"
    and "k \<notin> set (s_keys ss)"
proof -
  have k: "k = length (cl_heap s)"
    and s1: "s1 = s\<lparr>cl_random := cl_random s + KEY_LEN,
        cl_heap := cl_heap s @ [fst (generateRoomKey P (cl_random s))]\<rparr>"
    using new by (simp_all add: fresh_key_eq)
  have ss1: "cl_session s1 = Some ss" by (simp add: s1 ss)
  have fresh: "k \<notin> set (s_keys ss)"
    using fresh_ref_not_key [OF ok ss] k by (simp add: shape_def)
  then show "k \<notin> set (s_keys ss)" .
  have d1: "deref s1 q = (if q = k then fst (generateRoomKey P (cl_random s)) else deref s q)" for q
    by (auto simp: s1 k deref_def nth_append)
  show "cl_session (pushKey k s1) = Some (ss\<lparr>s_keys := take MAX_KEPT_KEYS (k # s_keys ss)\<rparr>)"
    by (rule pushKey_session(1) [OF ss1])
  show "deref (pushKey k s1) k = fst (generateRoomKey P (cl_random s))"
    using dropped_in_tail [of k k "s_keys ss"] fresh by (auto simp: pushKey_session(2) [OF ss1] d1)
  show "q < length (cl_heap s) \<Longrightarrow> q \<notin> set (drop MAX_KEPT_KEYS (k # s_keys ss)) \<Longrightarrow>
      deref (pushKey k s1) q = deref s q"
    by (simp add: pushKey_session(2) [OF ss1] d1 k)
  show "deref (pushKey k s1) q = replicate KEY_LEN 0"
    if q: "q \<in> set (drop MAX_KEPT_KEYS (k # s_keys ss))"
  proof -
    have "q \<in> set (s_keys ss)" using dropped_in_tail [OF q] .
    then have "q < length (shape s) \<and> shape s ! q = KEY_LEN"
      using client_ok_session [OF ok ss] by (simp add: session_ok_def)
    then have "length (deref s q) = KEY_LEN" and "q \<noteq> k" by (auto simp: deref_def shape_def k)
    with q show ?thesis by (simp add: pushKey_session(2) [OF ss1] d1 wiped_def)
  qed
  show "cl_sockets (pushKey k s1) = cl_sockets s" "cl_random (pushKey k s1) = cl_random s + KEY_LEN"
    unfolding pushKey_session(3,4) [OF ss1] by (simp_all add: s1)
qed

section \<open>Sending a key to the members\<close>

text \<open>A frame that carries the key \<open>k\<close> to member \<open>i\<close>, sealed to the public key on file.\<close>

definition rekeys :: "'p prims \<Rightarrow> (ref \<Rightarrow> bytes) \<Rightarrow> session \<Rightarrow> ref \<Rightarrow> jsstr \<Rightarrow> client_msg \<Rightarrow> bool" where
  "rekeys P d ss k i f \<longleftrightarrow>
     (\<exists>pub pos env pos'. map_of (s_memberPubs ss) i = Some pub
        \<and> sealRoomKey P (d (s_priv ss)) (d pub) (d k) pos = Inr (env, pos') \<and> f = Rekey i env)"

lemma rekeyMember_done:
  assumes "connected ss s" and "rekeyMember P i k s = Done t"
  shows "connected ss t" and "deref t = deref s"
    and "if map_of (s_memberPubs ss) i = None then sent_on t (s_ws ss) = sent_on s (s_ws ss)
      else \<exists>f. rekeys P (deref s) ss k i f \<and> sent_on t (s_ws ss) = sent_on s (s_ws ss) @ [client_msg_text f]"
proof -
  have ss: "cl_session s = Some ss" using assms(1) by (simp add: connected_def)
  have "connected ss t \<and> deref t = deref s \<and>
    (if map_of (s_memberPubs ss) i = None then sent_on t (s_ws ss) = sent_on s (s_ws ss)
      else \<exists>f. rekeys P (deref s) ss k i f \<and> sent_on t (s_ws ss) = sent_on s (s_ws ss) @ [client_msg_text f])"
  proof (cases "map_of (s_memberPubs ss) i")
    case None
    with assms ss show ?thesis by (simp add: rekeyMember_def with_session_out_def)
  next
    case (Some pub)
    obtain env pos where seal: "sealRoomKey P (deref s (s_priv ss)) (deref s pub) (deref s k) (cl_random s) = Inr (env, pos)"
      and t: "t = send (Rekey i env) (s\<lparr>cl_random := pos\<rparr>)"
      using assms(2) ss Some
      by (auto simp: rekeyMember_def with_session_out_def split: sum.splits prod.splits)
    have "connected ss (s\<lparr>cl_random := pos\<rparr>)" using assms(1) by (simp add: connected_def)
    from sent_send [OF this] have "connected ss t"
      and "sent_on t (s_ws ss) = sent_on s (s_ws ss) @ [client_msg_text (Rekey i env)]"
      by (simp_all add: t sent_on_def)
    moreover have "deref t = deref s" by (simp add: t)
    ultimately show ?thesis
      using Some seal unfolding rekeys_def by auto
  qed
  then show "connected ss t" "deref t = deref s"
    "if map_of (s_memberPubs ss) i = None then sent_on t (s_ws ss) = sent_on s (s_ws ss)
      else \<exists>f. rekeys P (deref s) ss k i f \<and> sent_on t (s_ws ss) = sent_on s (s_ws ss) @ [client_msg_text f]"
    by simp_all
qed

lemma rekey_loop:
  assumes "connected ss s" and "for_each (\<lambda>i. rekeyMember P i k) ids s = Done t"
  shows "connected ss t \<and> deref t = deref s
    \<and> (\<exists>fs. sent_on t (s_ws ss) = sent_on s (s_ws ss) @ map client_msg_text fs
        \<and> list_all2 (rekeys P (deref s) ss k) [i \<leftarrow> ids. map_of (s_memberPubs ss) i \<noteq> None] fs)"
  using assms
proof (induction ids arbitrary: s)
  case Nil
  then show ?case by simp
next
  case (Cons i ids)
  obtain u where u: "rekeyMember P i k s = Done u" and rest: "for_each (\<lambda>i. rekeyMember P i k) ids u = Done t"
    using Cons.prems(2) by (cases "rekeyMember P i k s") auto
  note step = rekeyMember_done [OF Cons.prems(1) u]
  obtain fs where t: "connected ss t" "deref t = deref u"
    and fs: "sent_on t (s_ws ss) = sent_on u (s_ws ss) @ map client_msg_text fs"
      "list_all2 (rekeys P (deref u) ss k) [i \<leftarrow> ids. map_of (s_memberPubs ss) i \<noteq> None] fs"
    using Cons.IH [OF step(1) rest] by blast
  show ?case
  proof (cases "map_of (s_memberPubs ss) i")
    case None
    with step t fs show ?thesis by auto
  next
    case (Some pub)
    then obtain f where f: "rekeys P (deref s) ss k i f"
      "sent_on u (s_ws ss) = sent_on s (s_ws ss) @ [client_msg_text f]"
      using step(3) by auto
    have "sent_on t (s_ws ss) = sent_on s (s_ws ss) @ map client_msg_text (f # fs)"
      using fs(1) f(2) by simp
    moreover have "list_all2 (rekeys P (deref s) ss k) [i \<leftarrow> i # ids. map_of (s_memberPubs ss) i \<noteq> None] (f # fs)"
      using fs(2) f(1) Some step(2) by simp
    ultimately show ?thesis using t step(2) by metis
  qed
qed

lemma rekeyMember_session: "cl_session (state_of (rekeyMember P i k s)) = cl_session s"
  by (simp add: rekeyMember_def with_session_out_def split: option.split sum.split prod.split)

lemma rekey_loop_filter:
  assumes "cl_session s = Some ss"
  shows "for_each (\<lambda>i t. with_session_out t (\<lambda>x. if i \<noteq> s_memberId x then rekeyMember P i k t else Done t)) ids s =
    for_each (\<lambda>i. rekeyMember P i k) [i \<leftarrow> ids. i \<noteq> s_memberId ss] s"
  using assms
proof (induction ids arbitrary: s)
  case Nil
  then show ?case by simp
next
  case (Cons i ids)
  show ?case
  proof (cases "i = s_memberId ss")
    case True
    with Cons show ?thesis by (simp add: with_session_out_def)
  next
    case False
    then show ?thesis
      using Cons rekeyMember_session [of P i k s]
      by (cases "rekeyMember P i k s") (simp_all add: with_session_out_def)
  qed
qed

lemma connected_cong:
  "connected ss s \<Longrightarrow> cl_session t = Some ss' \<Longrightarrow> s_ws ss' = s_ws ss \<Longrightarrow> cl_sockets t = cl_sockets s \<Longrightarrow>
    connected ss' t"
  by (simp add: connected_def)

lemma connected_session: "connected ss s \<Longrightarrow> cl_session s = Some ss"
  by (simp add: connected_def)

section \<open>Rotation when members leave\<close>

text \<open>The session without the members that left.\<close>

definition forget :: "jsstr list \<Rightarrow> session \<Rightarrow> session" where
  "forget removed ss = ss\<lparr>s_knownMembers := foldl (\<lambda>k i. set_delete i k) (s_knownMembers ss) removed,
     s_memberPubs := foldl (\<lambda>m i. map_delete i m) (s_memberPubs ss) removed\<rparr>"

lemma forget_lookup:
  "map_of (s_memberPubs (forget removed ss)) i =
    (if i \<in> set removed then None else map_of (s_memberPubs ss) i)"
  by (simp add: forget_def js_map.lookup_dels)

lemma forget_fields [simp]:
  "s_ws (forget r ss) = s_ws ss" "s_memberId (forget r ss) = s_memberId ss" "s_keys (forget r ss) = s_keys ss"
  "s_priv (forget r ss) = s_priv ss" "s_pub (forget r ss) = s_pub ss" "s_role (forget r ss) = s_role ss"
  "s_ownerId (forget r ss) = s_ownerId ss"
  by (simp_all add: forget_def)

lemma forget_all:
  "cl_session s = Some ss \<Longrightarrow>
    foldl (\<lambda>t i. upd_session (\<lambda>x. x\<lparr>s_knownMembers := set_delete i (s_knownMembers x),
      s_memberPubs := map_delete i (s_memberPubs x)\<rparr>) t) s removed = s\<lparr>cl_session := Some (forget removed ss)\<rparr>"
proof (induction removed arbitrary: s ss)
  case Nil
  then show ?case by (simp add: forget_def)
next
  case (Cons i removed)
  let ?ss1 = "ss\<lparr>s_knownMembers := set_delete i (s_knownMembers ss), s_memberPubs := map_delete i (s_memberPubs ss)\<rparr>"
  have "forget removed ?ss1 = forget (i # removed) ss" by (simp add: forget_def)
  with Cons show ?case by (simp add: upd_session_def)
qed

lemma forget_ok:
  assumes "client_ok s" and "cl_session s = Some ss"
  shows "client_ok (s\<lparr>cl_session := Some (forget removed ss)\<rparr>)"
proof -
  have "values_sat Q (foldl (\<lambda>m i. map_delete i m) m removed)" if "values_sat Q m"
    for Q and m :: "(jsstr, ref) js_map"
    by (rule foldl_preserves [where I = "values_sat Q", OF that]) simp
  moreover have "distinct (map fst (foldl (\<lambda>m i. map_delete i m) m removed))" if "distinct (map fst m)"
    for m :: "(jsstr, ref) js_map"
    by (rule foldl_preserves [where I = "\<lambda>m. distinct (map fst m)", OF that]) (rule distinct_map_delete)
  moreover have "distinct (foldl (\<lambda>k i. set_delete i k) k removed)" if "distinct k" for k
    by (rule foldl_preserves [where I = distinct, OF that]) (simp add: set_delete_def)
  ultimately have "session_ok (shape s) (length (cl_views s)) (forget removed ss)"
    using client_ok_session [OF assms] by (simp add: session_ok_def forget_def)
  with assms(1) show ?thesis by (simp add: client_ok_def shape_def)
qed

lemma rotate_for_leavers_done:
  assumes ok: "client_ok s" and conn: "connected ss s"
    and run: "rotate_for_leavers P removed current s = Done t"
  obtains k fs where "k \<notin> set (s_keys ss)"
    and "connected ((forget removed ss)\<lparr>s_keys := take MAX_KEPT_KEYS (k # s_keys ss)\<rparr>) t"
    and "deref t k = fst (generateRoomKey P (cl_random s))"
    and "\<And>q. other_ref (shape s) (s_keys ss) q \<Longrightarrow> deref t q = deref s q"
    and "\<And>q. q \<in> set (drop MAX_KEPT_KEYS (k # s_keys ss)) \<Longrightarrow> deref t q = replicate KEY_LEN 0"
    and "sent_on t (s_ws ss) = sent_on s (s_ws ss) @ map client_msg_text fs"
    and "list_all2 (rekeys P (deref t) (forget removed ss) k)
      [i \<leftarrow> current. i \<noteq> s_memberId ss \<and> i \<notin> set removed \<and> map_of (s_memberPubs ss) i \<noteq> None] fs"
proof -
  have ss: "cl_session s = Some ss" using conn by (rule connected_session)
  let ?s1 = "s\<lparr>cl_session := Some (forget removed ss)\<rparr>"
  obtain k s2 where new: "fresh_key P ?s1 = (k, s2)" by (cases "fresh_key P ?s1")
  let ?u = "pushKey k s2" and ?ss' = "(forget removed ss)\<lparr>s_keys := take MAX_KEPT_KEYS (k # s_keys ss)\<rparr>"
  note push = fresh_push [OF forget_ok [OF ok ss] _ new, of "forget removed ss", simplified]
  have u: "connected ?ss' ?u"
    by (rule connected_cong [OF conn]) (simp_all add: push)
  have "for_each (\<lambda>i. rekeyMember P i k) [i \<leftarrow> current. i \<noteq> s_memberId ?ss'] ?u = Done t"
    using run rekey_loop_filter [OF connected_session [OF u], of P k current]
    by (simp add: rotate_for_leavers_def forget_all [OF ss] new)
  from rekey_loop [OF u this] obtain fs where t: "connected ?ss' t" "deref t = deref ?u"
    and fs: "sent_on t (s_ws ss) = sent_on ?u (s_ws ss) @ map client_msg_text fs"
      "list_all2 (rekeys P (deref ?u) ?ss' k) [i \<leftarrow> [i \<leftarrow> current. i \<noteq> s_memberId ss]. map_of (s_memberPubs ?ss') i \<noteq> None] fs"
    by auto
  show thesis
  proof (rule that [of k fs])
    show "k \<notin> set (s_keys ss)" by (rule push(7))
    show "connected ?ss' t" by (rule t(1))
    show "deref t k = fst (generateRoomKey P (cl_random s))" by (simp add: t(2) push(2))
    show "deref t q = deref s q" if "other_ref (shape s) (s_keys ss) q" for q
    proof -
      have "q < length (cl_heap s)" using that by (simp add: other_ref_def shape_def)
      moreover have "q \<notin> set (drop MAX_KEPT_KEYS (k # s_keys ss))"
        using that dropped_in_tail [of q k "s_keys ss"] by (auto simp: other_ref_def)
      ultimately show ?thesis by (simp add: t(2) push(3))
    qed
    show "deref t q = replicate KEY_LEN 0" if "q \<in> set (drop MAX_KEPT_KEYS (k # s_keys ss))" for q
      using push(4) [OF that] by (simp add: t(2))
    show "sent_on t (s_ws ss) = sent_on s (s_ws ss) @ map client_msg_text fs"
      using fs(1) push(5) by (simp add: sent_on_def)
    have filt: "[i \<leftarrow> [i \<leftarrow> current. i \<noteq> s_memberId ss]. map_of (s_memberPubs ?ss') i \<noteq> None] =
        [i \<leftarrow> current. i \<noteq> s_memberId ss \<and> i \<notin> set removed \<and> map_of (s_memberPubs ss) i \<noteq> None]"
      by (auto simp: forget_lookup intro: filter_cong)
    have "rekeys P (deref t) (forget removed ss) k = rekeys P (deref ?u) ?ss' k"
      by (simp add: fun_eq_iff rekeys_def t(2))
    with fs(2) filt show "list_all2 (rekeys P (deref t) (forget removed ss) k)
      [i \<leftarrow> current. i \<noteq> s_memberId ss \<and> i \<notin> set removed \<and> map_of (s_memberPubs ss) i \<noteq> None] fs"
      by simp
  qed
qed

section \<open>When the rotation throws\<close>

text \<open>The public key on file for \<open>i\<close> is one the key exchange rejects.\<close>

definition bad_peer :: "'p prims \<Rightarrow> (ref \<Rightarrow> bytes) \<Rightarrow> session \<Rightarrow> jsstr \<Rightarrow> bool" where
  "bad_peer P d ss i \<longleftrightarrow>
     (case map_of (s_memberPubs ss) i of None \<Rightarrow> False
      | Some pub \<Rightarrow> x25519_shared P (d (s_priv ss)) (d pub) = None)"

lemma sealRoomKey_throws:
  "x25519_shared P a b = None \<Longrightarrow> sealRoomKey P a b key pos = Inl CryptoError"
  "x25519_shared P a b = Some sh \<Longrightarrow> \<exists>env pos'. sealRoomKey P a b key pos = Inr (env, pos')"
  by (simp_all add: sealRoomKey_def pairKey_def)

lemma rekeyMember_total:
  assumes "cl_session s = Some ss"
  shows "thrown (rekeyMember P i k s) = (if bad_peer P (deref s) ss i then Some CryptoError else None)"
    and "deref (state_of (rekeyMember P i k s)) = deref s"
proof -
  show "thrown (rekeyMember P i k s) = (if bad_peer P (deref s) ss i then Some CryptoError else None)"
  proof (cases "map_of (s_memberPubs ss) i")
    case None
    with assms show ?thesis by (simp add: rekeyMember_def with_session_out_def bad_peer_def)
  next
    case (Some pub)
    show ?thesis
    proof (cases "x25519_shared P (deref s (s_priv ss)) (deref s pub)")
      case None
      then show ?thesis
        using assms Some by (simp add: rekeyMember_def with_session_out_def bad_peer_def sealRoomKey_throws(1))
    next
      case (Some sh)
      from sealRoomKey_throws(2) [OF this, of "deref s k" "cl_random s"] show ?thesis
        using assms Some \<open>map_of (s_memberPubs ss) i = _\<close>
        by (auto simp: rekeyMember_def with_session_out_def bad_peer_def)
    qed
  qed
  show "deref (state_of (rekeyMember P i k s)) = deref s"
    by (simp add: rekeyMember_def with_session_out_def split: option.split sum.split prod.split)
qed

lemma rekey_loop_thrown:
  "cl_session s = Some ss \<Longrightarrow> thrown (for_each (\<lambda>i. rekeyMember P i k) ids s) =
    (if \<exists>i \<in> set ids. bad_peer P (deref s) ss i then Some CryptoError else None)"
proof (induction ids arbitrary: s)
  case Nil
  then show ?case by simp
next
  case (Cons i ids)
  note one = rekeyMember_total [OF Cons.prems, of P i k] and same = rekeyMember_session [of P i k s]
  show ?case
  proof (cases "rekeyMember P i k s")
    case (Done u)
    then have "cl_session u = Some ss" "deref u = deref s" "\<not> bad_peer P (deref s) ss i"
      using one same Cons.prems by (auto split: if_splits)
    then show ?thesis using Cons.IH [of u] Done by simp
  next
    case (Throws e u)
    then show ?thesis using one by (auto split: if_splits)
  qed
qed

lemma rotate_for_leavers_thrown:
  assumes ok: "client_ok s" and ss: "cl_session s = Some ss"
  shows "thrown (rotate_for_leavers P removed current s) =
    (if \<exists>i \<in> set current. i \<noteq> s_memberId ss \<and> i \<notin> set removed \<and> bad_peer P (deref s) ss i
     then Some CryptoError else None)"
proof -
  let ?s1 = "s\<lparr>cl_session := Some (forget removed ss)\<rparr>"
  obtain k s2 where new: "fresh_key P ?s1 = (k, s2)" by (cases "fresh_key P ?s1")
  let ?u = "pushKey k s2" and ?ss' = "(forget removed ss)\<lparr>s_keys := take MAX_KEPT_KEYS (k # s_keys ss)\<rparr>"
  note push = fresh_push [OF forget_ok [OF ok ss] _ new, of "forget removed ss", simplified]
  have keep: "deref ?u q = deref s q" if "other_ref (shape s) (s_keys ss) q" for q
  proof (rule push(3))
    show "q < length (cl_heap s)" using that by (simp add: other_ref_def shape_def)
    show "q \<notin> set (drop MAX_KEPT_KEYS (k # s_keys ss))"
      using that dropped_in_tail [of q k "s_keys ss"] by (auto simp: other_ref_def)
  qed
  have refs: "other_ref (shape s) (s_keys ss) (s_priv ss)"
    "map_of (s_memberPubs ss) i = Some pub \<Longrightarrow> other_ref (shape s) (s_keys ss) pub" for i pub
    using client_ok_session [OF ok ss] by (auto simp: session_ok_def dest: values_sat_get)
  have "bad_peer P (deref ?u) ?ss' i \<longleftrightarrow> i \<notin> set removed \<and> bad_peer P (deref s) ss i" for i
    using keep [OF refs(1)] keep [OF refs(2), of i]
    by (simp add: bad_peer_def forget_lookup split: option.split)
  moreover have "thrown (rotate_for_leavers P removed current s) =
      thrown (for_each (\<lambda>i. rekeyMember P i k) [i \<leftarrow> current. i \<noteq> s_memberId ?ss'] ?u)"
    using rekey_loop_filter [OF push(1), of P k current]
    by (simp add: rotate_for_leavers_def forget_all [OF ss] new)
  ultimately show ?thesis by (auto simp: rekey_loop_thrown [OF push(1)])
qed

section \<open>Presence at the owner\<close>

definition presence_session :: "member_info list \<Rightarrow> session \<Rightarrow> session" where
  "presence_session ms ss = ss\<lparr>s_ownerId := ownerIdOf ms,
     s_role := (if ownerIdOf ms = s_memberId ss then Owner else Member), s_lastMembers := ms\<rparr>"

lemma presence_fields [simp]:
  "s_ws (presence_session ms ss) = s_ws ss" "s_memberId (presence_session ms ss) = s_memberId ss"
  "s_keys (presence_session ms ss) = s_keys ss" "s_priv (presence_session ms ss) = s_priv ss"
  "s_memberPubs (presence_session ms ss) = s_memberPubs ss" "s_pub (presence_session ms ss) = s_pub ss"
  "s_knownMembers (presence_session ms ss) = s_knownMembers ss"
  by (simp_all add: presence_session_def)

text \<open>The state in which the owner's duties start.\<close>

definition presence_start :: "member_info list \<Rightarrow> session \<Rightarrow> client \<Rightarrow> client" where
  "presence_start ms ss s =
     (let r = (if ownerIdOf ms = s_memberId ss then Owner else Member)
      in renderMembers ms (inviteBtn_for r (upd_session (\<lambda>x. x\<lparr>s_ownerId := ownerIdOf ms, s_role := r\<rparr>) s)))"

lemma presence_start_facts:
  assumes "cl_session s = Some ss"
  shows "cl_session (presence_start ms ss s) = Some (presence_session ms ss)"
    and "cl_heap (presence_start ms ss s) = cl_heap s" and "cl_sockets (presence_start ms ss s) = cl_sockets s"
    and "cl_random (presence_start ms ss s) = cl_random s"
  using assms by (simp_all add: presence_start_def presence_session_def renderMembers_def Let_def)

lemma presence_start_ok: "client_ok s \<Longrightarrow> client_ok (presence_start ms ss s)"
  unfolding presence_start_def Let_def
  by (intro ok_renderMembers ok_texts ok_upd_session) (simp_all add: session_ok_def)

lemma onPresence_owner:
  assumes "cl_session s = Some ss" and "s_role ss = Owner" and "ownerIdOf ms = s_memberId ss"
  shows "onPresence P ms s = owner_duties P False ms (presence_start ms ss s)"
  using assms by (simp add: onPresence_def with_session_out_def presence_start_def Let_def)

lemma broadcastRoster_connected:
  assumes "connected ss s" and "s_role ss = Owner" and "s_keys ss = k # ks"
  shows "sent_on (broadcastRoster P s) (s_ws ss) = sent_on s (s_ws ss)
      @ [client_msg_text (Roster (fst (encryptMessage P (deref s k) (stringify (roster_json s ss)) (cl_random s))))]"
    and "connected ss (broadcastRoster P s)" and "deref (broadcastRoster P s) = deref s"
proof -
  let ?env = "encryptMessage P (deref s k) (stringify (roster_json s ss)) (cl_random s)"
  let ?s1 = "s\<lparr>cl_random := snd ?env\<rparr>"
  have eq: "broadcastRoster P s = send (Roster (fst ?env)) ?s1"
    using assms connected_session [OF assms(1)]
    by (simp add: broadcastRoster_def with_session_def draw_eq)
  have "connected ss ?s1" using assms(1) by (simp add: connected_def)
  from sent_send [OF this] show "sent_on (broadcastRoster P s) (s_ws ss) = sent_on s (s_ws ss)
      @ [client_msg_text (Roster (fst ?env))]" "connected ss (broadcastRoster P s)"
    by (simp_all add: eq sent_on_def)
  show "deref (broadcastRoster P s) = deref s" by (simp add: eq)
qed

lemma onPresence_leavers:
  assumes "cl_session s = Some ss" and "s_role ss = Owner" and "ownerIdOf ms = s_memberId ss"
    and "gone \<in> set (s_knownMembers ss)" and "gone \<notin> mi_id ` set ms"
  shows "onPresence P ms s = and_then
    (rotate_for_leavers P [i \<leftarrow> s_knownMembers ss. i \<notin> set (set_of_list (map mi_id ms))]
      (set_of_list (map mi_id ms)) (presence_start ms ss s))
    (\<lambda>t. Done (broadcastRoster P (upd_session (\<lambda>x. x\<lparr>s_knownMembers := set_of_list (map mi_id ms)\<rparr>) t)))"
proof -
  have "gone \<in> set [i \<leftarrow> s_knownMembers ss. i \<notin> set (set_of_list (map mi_id ms))]"
    using assms(4,5) by auto
  then have "[i \<leftarrow> s_knownMembers ss. i \<notin> set (set_of_list (map mi_id ms))] \<noteq> []"
    by (metis length_pos_if_in_set less_numeral_extra(3) list.size(3))
  then show ?thesis
    using onPresence_owner [OF assms(1-3), of P] presence_start_facts(1) [OF assms(1), of ms]
    by (simp add: owner_duties_def Let_def del: set_set_of_list)
qed

lemma onPresence_leavers_thrown:
  assumes ok: "client_ok s" and ss: "cl_session s = Some ss" and owner: "s_role ss = Owner" "ownerIdOf ms = s_memberId ss"
    and gone: "gone \<in> set (s_knownMembers ss)" "gone \<notin> mi_id ` set ms"
  shows "thrown (onPresence P ms s) =
    (if \<exists>m \<in> set ms. mi_id m \<noteq> s_memberId ss \<and> bad_peer P (deref s) ss (mi_id m) then Some CryptoError else None)"
proof -
  let ?u = "presence_start ms ss s" and ?p = "presence_session ms ss"
  let ?rem = "[i \<leftarrow> s_knownMembers ss. i \<notin> set (set_of_list (map mi_id ms))]"
  note start = presence_start_facts [OF ss, of ms]
  have same: "bad_peer P (deref ?u) ?p i = bad_peer P (deref s) ss i" for i
    using deref_cong [OF start(2)] by (simp add: bad_peer_def split: option.split)
  have "thrown (onPresence P ms s) = thrown (rotate_for_leavers P ?rem (set_of_list (map mi_id ms)) ?u)"
    unfolding onPresence_leavers [OF ss owner gone]
    by (cases "rotate_for_leavers P ?rem (set_of_list (map mi_id ms)) ?u") simp_all
  also have "\<dots> = (if \<exists>i \<in> set (set_of_list (map mi_id ms)). i \<noteq> s_memberId ?p \<and> i \<notin> set ?rem
      \<and> bad_peer P (deref ?u) ?p i then Some CryptoError else None)"
    by (rule rotate_for_leavers_thrown [OF presence_start_ok [OF ok] start(1)])
  finally show ?thesis by (auto simp: same)
qed

lemma leavers_rotation:
  assumes "client_ok s" and "connected ss s" and "s_role ss = Owner" and "ownerIdOf members = s_memberId ss"
    and "gone \<in> set (s_knownMembers ss)" and "gone \<notin> mi_id ` set members"
    and "onPresence P members s = Done t"
  shows "\<exists>ss' k fs roster. connected ss' t
    \<and> s_keys ss' = take MAX_KEPT_KEYS (k # s_keys ss) \<and> k \<notin> set (s_keys ss)
    \<and> deref t k = fst (generateRoomKey P (cl_random s))
    \<and> (\<forall>q. q \<in> set (drop MAX_KEPT_KEYS (k # s_keys ss)) \<longrightarrow> deref t q = replicate KEY_LEN 0)
    \<and> map_of (s_memberPubs ss') gone = None \<and> s_knownMembers ss' = set_of_list (map mi_id members)
    \<and> sent_on t (s_ws ss) = sent_on s (s_ws ss) @ map client_msg_text (fs @ [Roster roster])
    \<and> list_all2 (rekeys P (deref t) ss' k)
        [i \<leftarrow> set_of_list (map mi_id members). i \<noteq> s_memberId ss \<and> map_of (s_memberPubs ss) i \<noteq> None] fs"
proof -
  have ss: "cl_session s = Some ss" using assms(2) by (rule connected_session)
  let ?u = "presence_start members ss s" and ?p = "presence_session members ss"
  let ?cur = "set_of_list (map mi_id members)"
  let ?rem = "[i \<leftarrow> s_knownMembers ss. i \<notin> set ?cur]"
  note start = presence_start_facts [OF ss, of members]
  have okU: "client_ok ?u" by (rule presence_start_ok [OF assms(1)])
  have connU: "connected ?p ?u" by (rule connected_cong [OF assms(2) start(1) _ start(3)]) simp
  have gone: "gone \<in> set ?rem" using assms(5,6) by auto
  have "and_then (rotate_for_leavers P ?rem ?cur ?u)
      (\<lambda>t. Done (broadcastRoster P (upd_session (\<lambda>x. x\<lparr>s_knownMembers := ?cur\<rparr>) t))) = Done t"
    using assms(7) onPresence_leavers [OF ss assms(3-6), of P] by simp
  then obtain v where rot: "rotate_for_leavers P ?rem ?cur ?u = Done v"
    and t: "t = broadcastRoster P (upd_session (\<lambda>x. x\<lparr>s_knownMembers := ?cur\<rparr>) v)"
    by (cases "rotate_for_leavers P ?rem ?cur ?u") auto
  obtain k fs where k: "k \<notin> set (s_keys ss)"
    and connV: "connected ((forget ?rem ?p)\<lparr>s_keys := take MAX_KEPT_KEYS (k # s_keys ss)\<rparr>) v"
    and new: "deref v k = fst (generateRoomKey P (cl_random s))"
    and old: "\<And>q. q \<in> set (drop MAX_KEPT_KEYS (k # s_keys ss)) \<Longrightarrow> deref v q = replicate KEY_LEN 0"
    and fs: "sent_on v (s_ws ss) = sent_on ?u (s_ws ss) @ map client_msg_text fs"
      "list_all2 (rekeys P (deref v) (forget ?rem ?p) k)
        [i \<leftarrow> ?cur. i \<noteq> s_memberId ss \<and> i \<notin> set ?rem \<and> map_of (s_memberPubs ss) i \<noteq> None] fs"
    by (rule rotate_for_leavers_done [OF okU connU rot, unfolded presence_fields start(4)])
      (rule that; (assumption | blast))
  let ?s' = "(forget ?rem ?p)\<lparr>s_keys := take MAX_KEPT_KEYS (k # s_keys ss), s_knownMembers := ?cur\<rparr>"
  let ?w = "upd_session (\<lambda>x. x\<lparr>s_knownMembers := ?cur\<rparr>) v"
  have connW: "connected ?s' ?w"
    by (rule connected_cong [OF connV]) (simp_all add: connected_session [OF connV])
  have "s_role ?s' = Owner" using assms(4) by (simp add: presence_session_def)
  moreover have "s_keys ?s' = k # take 4 (s_keys ss)" by (simp add: MAX_KEPT_KEYS_def)
  ultimately obtain roster where r: "sent_on t (s_ws ss) = sent_on ?w (s_ws ss) @ [client_msg_text (Roster roster)]"
    and connT: "connected ?s' t" and dt: "deref t = deref ?w"
    using broadcastRoster_connected [OF connW] t by fastforce
  have dv: "deref t = deref v" by (simp add: dt)
  have "sent_on t (s_ws ss) = sent_on s (s_ws ss) @ map client_msg_text (fs @ [Roster roster])"
    using r fs(1) sent_on_cong [OF start(3)] sent_on_cong [of ?w v] by (simp add: upd_session_def)
  moreover have "list_all2 (rekeys P (deref t) ?s' k)
      [i \<leftarrow> ?cur. i \<noteq> s_memberId ss \<and> map_of (s_memberPubs ss) i \<noteq> None] fs"
  proof -
    have "[i \<leftarrow> ?cur. i \<noteq> s_memberId ss \<and> i \<notin> set ?rem \<and> map_of (s_memberPubs ss) i \<noteq> None] =
        [i \<leftarrow> ?cur. i \<noteq> s_memberId ss \<and> map_of (s_memberPubs ss) i \<noteq> None]"
      by (rule filter_cong) auto
    moreover have "rekeys P (deref t) ?s' k = rekeys P (deref v) (forget ?rem ?p) k"
      by (simp add: fun_eq_iff rekeys_def dv)
    ultimately show ?thesis using fs(2) by simp
  qed
  moreover have "map_of (s_memberPubs ?s') gone = None"
    using gone by (simp add: forget_lookup del: set_filter)
  moreover have "deref t k = fst (generateRoomKey P (cl_random s))" by (simp add: dv new)
  ultimately show ?thesis
    using connT k old by (intro exI [of _ ?s'] exI [of _ k] exI [of _ fs] exI [of _ roster]) (simp add: dv)
qed

section \<open>Properties\<close>

text \<open>
  C25: An owner's rotation for a member that left throws exactly when a listed member other than
  the owner has a public key on file that the key exchange rejects; no handler catches the
  exception, so the members after that one get no key.
\<close>

theorem rotation_throws_iff:
  assumes "client_ok s" and "cl_session s = Some ss" and "s_role ss = Owner" and "ownerIdOf members = s_memberId ss"
    and "gone \<in> set (s_knownMembers ss)" and "gone \<notin> mi_id ` set members"
  shows "thrown (onPresence P members s) =
    (if \<exists>m \<in> set members. mi_id m \<noteq> s_memberId ss \<and> bad_peer P (deref s) ss (mi_id m)
     then Some CryptoError else None)"
  by (rule onPresence_leavers_thrown [OF assms])

text \<open>
  C4: When a presence no longer lists a member the owner knew, the owner, unless an exception
  stops it, makes a fresh key, puts it in front of its window (evicted keys are zeroed), forgets
  the public key of everyone who left, sends the new key to exactly the listed members other than
  itself whose public key is on file, each time sealed to that key, then publishes the roster,
  and sends nothing else.
\<close>

theorem leavers_are_rotated_out:
  assumes "client_ok s" and "connected ss s" and "s_role ss = Owner" and "ownerIdOf members = s_memberId ss"
    and "gone \<in> set (s_knownMembers ss)" and "gone \<notin> mi_id ` set members"
    and "onPresence P members s = Done t"
  shows "\<exists>ss' k fs roster. connected ss' t
    \<and> s_keys ss' = take MAX_KEPT_KEYS (k # s_keys ss) \<and> k \<notin> set (s_keys ss)
    \<and> deref t k = fst (generateRoomKey P (cl_random s))
    \<and> (\<forall>q. q \<in> set (drop MAX_KEPT_KEYS (k # s_keys ss)) \<longrightarrow> deref t q = replicate KEY_LEN 0)
    \<and> map_of (s_memberPubs ss') gone = None \<and> s_knownMembers ss' = set_of_list (map mi_id members)
    \<and> sent_on t (s_ws ss) = sent_on s (s_ws ss) @ map client_msg_text (fs @ [Roster roster])
    \<and> list_all2 (rekeys P (deref t) ss' k)
        [i \<leftarrow> set_of_list (map mi_id members). i \<noteq> s_memberId ss \<and> map_of (s_memberPubs ss) i \<noteq> None] fs"
  by (rule leavers_rotation [OF assms])

end
