(* ===== verification/SessionView.thy ===== *)
theory SessionView
  imports KeyProperties
begin

text \<open>
  What an operation leaves alone. A view \<open>g\<close> reads part of the session; the operations that only
  send, draw random bytes, change the page or the store keep every view, and those that only touch
  the bookkeeping of a session (transfers, invites, handshakes, the member list) keep every view
  that does not look there.
\<close>

named_theorems session_kept \<open>operations that keep a view of the session\<close>

section \<open>Views that every such operation keeps\<close>

definition view :: "(session \<Rightarrow> 'a) \<Rightarrow> client \<Rightarrow> 'a option" where
  "view g s = map_option g (cl_session s)"

lemma view_cong: "cl_session t = cl_session s \<Longrightarrow> view g t = view g s"
  by (simp add: view_def)

lemma view_None: "view g s = None \<longleftrightarrow> cl_session s = None"
  by (simp add: view_def)

lemma view_upd_session [session_kept, simp]: "(\<And>x. g (f x) = g x) \<Longrightarrow> view g (upd_session f s) = view g s"
  by (simp add: view_def upd_session_def option.map_comp comp_def)

lemma view_fields [session_kept, simp]:
  "view g (s\<lparr>cl_heap := x1\<rparr>) = view g s" "view g (s\<lparr>cl_sockets := x2\<rparr>) = view g s"
  "view g (s\<lparr>cl_pendingJoin := x3\<rparr>) = view g s" "view g (s\<lparr>cl_intentionalClose := x4\<rparr>) = view g s"
  "view g (s\<lparr>cl_staged := x5\<rparr>) = view g s" "view g (s\<lparr>cl_blobs := x6\<rparr>) = view g s"
  "view g (s\<lparr>cl_nextUrl := x7\<rparr>) = view g s" "view g (s\<lparr>cl_views := x8\<rparr>) = view g s"
  "view g (s\<lparr>cl_connects := x9\<rparr>) = view g s" "view g (s\<lparr>cl_uploads := x10\<rparr>) = view g s"
  "view g (s\<lparr>cl_random := x11\<rparr>) = view g s"
  by (simp_all add: view_def)

lemma view_updates [session_kept, simp]:
  "view g (upd_ui f1 s) = view g s" "view g (lobbyError t1 s) = view g s" "view g (lobbyStatus t1 s) = view g s"
  "view g (addMessage n b m s) = view g s" "view g (showLobby s) = view g s" "view g (inviteBtn_for r s) = view g s"
  "view g (upd_socket w f2 s) = view g s" "view g (ws_send w t1 s) = view g s" "view g (ws_close w s) = view g s"
  "view g (send x s) = view g s" "view g (wipeKey k s) = view g s" "view g (wipe_all ks s) = view g s"
  "view g (revokeObjectURL u s) = view g s" "view g (upd_view h f3 s) = view g s"
  "view g (setFileProgress h a c s) = view g s" "view g (clearStaged s) = view g s"
  by (rule view_cong, simp)+

lemma fold_kept:
  assumes "\<And>x t. view g (f t x) = view g t"
  shows "view g (foldl f s xs) = view g s"
  using assms by (induction xs arbitrary: s) auto

lemma for_each_kept:
  assumes "\<And>x t. view g (state_of (f x t)) = view g t"
  shows "view g (state_of (for_each f xs s)) = view g s"
proof (induction xs arbitrary: s)
  case (Cons x xs)
  then show ?case using assms [of x s] by (cases "f x s") auto
qed simp

lemma and_then_kept:
  assumes "\<And>t. view g (state_of (f t)) = view g t"
  shows "view g (state_of (and_then r f)) = view g (state_of r)"
  using assms by (cases r) auto

lemma alloc_kept [session_kept]: "view g (snd (alloc b s)) = view g s"
  by (simp add: alloc_def)

lemma draw_kept [session_kept]: "view g (snd (draw f s)) = view g s"
  by (simp add: draw_eq)

lemma fresh_key_kept [session_kept]: "view g (snd (fresh_key P s)) = view g s"
  by (simp add: fresh_key_eq)

lemma page_kept [session_kept]:
  "view g (roomNotice t s) = view g s" "view g (showRoom s) = view g s"
  "view g (renderStaged s) = view g s" "view g (onFileSelected f s) = view g s"
  "view g (openModal a b c s) = view g s" "view g (closeModal s) = view g s"
  "view g (pollStats s) = view g s" "view g (stats_reply r s) = view g s" "view g (copy_invite ok s) = view g s"
  by (simp_all add: roomNotice_def showRoom_def renderStaged_def onFileSelected_def createObjectURL_def Let_def
      openModal_def closeModal_def pollStats_def stats_reply_def copy_invite_def split: option.split)

lemma rekeyMember_kept [session_kept]:
  "view g (state_of (rekeyMember P i k s)) = view g s"
  by (rule view_cong) (rule rekeyMember_session)

lemma broadcastRoster_kept [session_kept]: "view g (broadcastRoster P s) = view g s"
  by (simp add: broadcastRoster_def with_session_def draw_eq split: option.split list.split)

lemma run_callbacks_simps [simp]:
  "run_callbacks P h r [] s = s"
  "run_callbacks P h r (x # xs) s = run_callbacks P h r xs (run_callback P h r x s)"
  by (simp_all add: run_callbacks_def)

lemma run_callbacks_append: "run_callbacks P h r (xs @ ys) s = run_callbacks P h r ys (run_callbacks P h r xs s)"
  by (simp add: run_callbacks_def)

lemma revoke_connects: "cl_connects (foldl (\<lambda>t u. revokeObjectURL u t) s us) = cl_connects s"
  by (induction us arbitrary: s) simp_all

lemma teardown_sockets:
  assumes "cl_session s = Some ss"
  shows "cl_sockets (teardown b s) = cl_sockets (ws_close (s_ws ss) s)" "cl_connects (teardown b s) = cl_connects s"
  using assms
  by (simp_all add: teardown_def Let_def wipe_session_eq revoke_connects)
    (simp add: ws_close_def upd_socket_def revoke_all)

section \<open>Views that do not look at the bookkeeping\<close>

locale session_view =
  fixes g :: "session \<Rightarrow> 'a"
  assumes g_files: "g (ss\<lparr>s_objectUrls := x1\<rparr>) = g ss" "g (ss\<lparr>s_fileMsgs := x2\<rparr>) = g ss" "g (ss\<lparr>s_incoming := x3\<rparr>) = g ss"
    and g_joining: "g (ss\<lparr>s_handshakes := x4\<rparr>) = g ss" "g (ss\<lparr>s_pendingInvites := x5\<rparr>) = g ss"
    and g_members: "g (ss\<lparr>s_lastMembers := x6\<rparr>) = g ss" "g (ss\<lparr>s_memberId := x7\<rparr>) = g ss" "g (ss\<lparr>s_role := x8\<rparr>) = g ss"
      "g (ss\<lparr>s_ownerId := x9\<rparr>) = g ss" "g (ss\<lparr>s_knownMembers := x10\<rparr>) = g ss"
begin

lemmas [simp] = g_files g_joining g_members

lemma file_message_end_kept [session_kept]:
  "view g (finishFileMessage t u s) = view g s"
  "view g (failFileMessage t r s) = view g s"
  by (simp_all add: finishFileMessage_def failFileMessage_def split: option.split)

lemma view_trackUrl [session_kept, simp]: "view g (trackUrl u s) = view g s"
  by (simp add: trackUrl_def session_kept)

lemma startFileMessage_kept [session_kept]:
  "view g (snd (startFileMessage t n m b s)) = view g s"
  by (simp add: startFileMessage_def Let_def)

lemma renderMembers_kept [session_kept]:
  "view g (renderMembers ms s) = view g s"
  by (simp add: renderMembers_def Let_def)

lemma onInviteCreated_kept [session_kept]:
  "view g (state_of (onInviteCreated P m s)) = view g s"
  by (cases "cl_session s") (simp_all add: onInviteCreated_def with_session_out_def Let_def draw_eq split: option.split sum.split)

lemma upd_handshake_kept [session_kept]: "view g (upd_handshake h f s) = view g s"
  unfolding upd_handshake_def by (rule view_upd_session) (simp split: option.split)

lemma hs_confirmed_kept [session_kept]: "view g (hs_confirmed P h ke s) = view g s"
  by (simp add: hs_confirmed_def Let_def with_session_def alloc_def draw_eq session_kept split: option.split)

lemma delete_kept [session_kept]:
  "view g (delete_handshake h s) = view g s"
  "view g (delete_incoming t s) = view g s"
  by (simp_all add: delete_handshake_def delete_incoming_def)

lemma send_chunk_kept [session_kept]: "view g (send_chunk P up i s) = view g s"
  by (simp add: send_chunk_def Let_def draw_eq)

lemma uploads_kept [session_kept]:
  "view g (sendFile P f s) = view g s"
  "view g (snd (resume_upload P up s)) = view g s"
  "view g (resume_nth P n s) = view g s"
proof -
  show r: "view g (snd (resume_upload P up s)) = view g s" for up
    by (simp add: resume_upload_def Let_def split_beta draw_eq createObjectURL_def trackUrl_def session_kept
        split: upload_stage.split)
  show "view g (resume_nth P n s) = view g s"
    by (simp add: resume_nth_def split_beta Let_def r)
qed (simp add: sendFile_def with_session_def Let_def draw_eq split: option.split list.split)

lemma finishIncoming_kept [session_kept]: "view g (finishIncoming t s) = view g s"
  by (simp add: finishIncoming_def Let_def createObjectURL_def trackUrl_def session_kept split: option.split)

lemma downloads_kept [session_kept]:
  "view g (state_of (onFileStart P m s)) = view g s"
  "view g (onFileChunk P m s) = view g s"
  "view g (onFileEnd m s) = view g s"
  "view g (onFileAbort m s) = view g s"
  by (cases "cl_session s"; simp add: onFileStart_def onFileChunk_def onFileEnd_def onFileAbort_def with_session_out_def Let_def
      session_kept split: option.split sum.split)+

lemma callbacks_kept:
  "\<forall>x \<in> set outs. role = HsOwner \<or> (\<forall>m. x \<noteq> OnFail m) \<Longrightarrow>
    view g (run_callbacks P h role outs s) = view g s"
proof (induction outs arbitrary: s)
  case (Cons x outs)
  then show ?case
    by (cases x) (auto simp: run_callback_def hs_failed_defs session_kept)
qed simp

end

end
