(* ===== verification/Lifecycle.thy ===== *)
theory Lifecycle
  imports SessionView
begin

text \<open>
  The life of a session: which operations can end it, and that every one that does goes through
  \<open>teardown\<close>, which zeroes the key material, closes the socket and clears the page.
\<close>

section \<open>Operations that keep the session\<close>

text \<open>Whether there is a session and which room it names (the empty name before the welcome).\<close>

abbreviation room_of :: "client \<Rightarrow> jsstr option" where
  "room_of \<equiv> view s_room"

lemmas room_of_def = view_def [where g = s_room]

interpretation room: session_view s_room
  by unfold_locales simp_all

lemma pushKey_kept [session_kept]: "room_of (pushKey k s) = room_of s"
  by (simp add: pushKey_def with_session_def Let_def split: option.split)

lemma set_member_pub_kept [session_kept]:
  "room_of (state_of (set_member_pub e s)) = room_of s"
  by (simp add: set_member_pub_def alloc_def split: json.split sum.split)

lemma applyRoster_kept [session_kept]: "room_of (applyRoster P d s) = room_of s"
  by (cases "cl_session s") (simp_all add: applyRoster_def with_session_def for_each_kept set_member_pub_kept split: option.split sum.split)

lemma rotate_for_leavers_kept [session_kept]:
  "room_of (state_of (rotate_for_leavers P removed current s)) = room_of s"
proof -
  let ?f = "\<lambda>t i. upd_session (\<lambda>ss. ss\<lparr>s_knownMembers := set_delete i (s_knownMembers ss),
      s_memberPubs := map_delete i (s_memberPubs ss)\<rparr>) t"
  have "room_of (foldl ?f s removed) = room_of s"
    by (rule fold_kept) simp
  moreover have "room_of (state_of (for_each (\<lambda>i t. with_session_out t
      (\<lambda>ss. if i \<noteq> s_memberId ss then rekeyMember P i k t else Done t)) current u)) = room_of u" for k u
    by (rule for_each_kept) (simp add: with_session_out_def rekeyMember_kept split: option.split)
  ultimately show ?thesis
    by (simp add: rotate_for_leavers_def Let_def split_beta pushKey_kept fresh_key_kept)
qed

lemma onPresence_kept [session_kept]:
  "room_of (state_of (onPresence P ms s)) = room_of s"
  by (simp add: onPresence_def owner_duties_def with_session_out_def Let_def and_then_kept session_kept
      split: option.split)

lemma onRekey_kept [session_kept]: "room_of (onRekey P m s) = room_of s"
  by (simp add: onRekey_def with_session_def Let_def split_beta session_kept split: option.split sum.split)

lemma rotateForJoin_kept [session_kept]:
  "room_of (state_of (rotateForJoin P i r s)) = room_of s"
  by (simp add: rotateForJoin_def with_session_out_def Let_def split_beta and_then_kept for_each_kept session_kept
      split: option.split sum.split)

section \<open>The end of a session\<close>

text \<open>The arrays of a session that hold secrets: room keys, the private key, handshake secrets.\<close>

definition secrets_of :: "session \<Rightarrow> ref list" where
  "secrets_of ss =
     s_keys ss @ [s_priv ss] @ concat (map (\<lambda>e. case hr_ke (snd e) of None \<Rightarrow> [] | Some r \<Rightarrow> [r]) (s_handshakes ss))"

lemma secrets_in_key_material: "set (secrets_of ss) \<subseteq> set (key_material ss)"
  by (auto simp: secrets_of_def key_material_def)

text \<open>
  What is left in \<open>t\<close> of the session \<open>ss\<close> that \<open>s\<close> had: nothing but zeroed arrays, a closing
  socket, and an empty page; no object URL of its files nor of a staged attachment is live.
\<close>

definition session_ended :: "session \<Rightarrow> client \<Rightarrow> client \<Rightarrow> bool" where
  "session_ended ss s t \<longleftrightarrow>
     cl_session t = None
     \<and> (\<forall>q \<in> set (secrets_of ss). deref t q = wiped (deref s q))
     \<and> Closing \<le> socket_state t (s_ws ss)
     \<and> (\<forall>u \<in> set (s_objectUrls ss). u \<notin> fst ` set (cl_blobs t))
     \<and> cl_staged t = None \<and> (\<forall>f u. cl_staged s = Some (f, u) \<longrightarrow> u \<notin> fst ` set (cl_blobs t))
     \<and> ui_messages (cl_ui t) = []"

definition ends_cleanly :: "session \<Rightarrow> client \<Rightarrow> client \<Rightarrow> bool" where
  "ends_cleanly ss s t \<longleftrightarrow> room_of t = room_of s \<or> session_ended ss s t"

lemma ends_kept: "room_of t = room_of s \<Longrightarrow> ends_cleanly ss s t"
  by (simp add: ends_cleanly_def)

lemma ends_ended: "session_ended ss s t \<Longrightarrow> ends_cleanly ss s t"
  by (simp add: ends_cleanly_def)

lemma session_ended_cong:
  assumes "session_ended ss s t" and "cl_session t' = cl_session t" and "cl_heap t' = cl_heap t"
    and "cl_sockets t' = cl_sockets t" and "cl_blobs t' = cl_blobs t" and "cl_staged t' = cl_staged t"
    and "ui_messages (cl_ui t') = ui_messages (cl_ui t)"
  shows "session_ended ss s t'"
proof -
  have "socket_state t' = socket_state t" by (simp add: fun_eq_iff socket_state_def assms(4))
  with assms deref_cong [OF assms(3)] show ?thesis by (simp add: session_ended_def)
qed

lemma ended_texts:
  "session_ended ss s t \<Longrightarrow> session_ended ss s (lobbyError x t)"
  "session_ended ss s t \<Longrightarrow> session_ended ss s (lobbyStatus x t)"
  "session_ended ss s t \<Longrightarrow> session_ended ss s (roomNotice x t)"
  "session_ended ss s t \<Longrightarrow> session_ended ss s (t\<lparr>cl_intentionalClose := b\<rparr>)"
  "session_ended ss s t \<Longrightarrow> session_ended ss s (t\<lparr>cl_connects := cs\<rparr>)"
  by (erule session_ended_cong;
      simp add: lobbyError_def lobbyStatus_def roomNotice_def upd_ui_def)+

text \<open>The state \<open>s'\<close> still has the session \<open>ss\<close> of \<open>s\<close>, up to fields a teardown does not touch.\<close>

definition same_session :: "session \<Rightarrow> client \<Rightarrow> client \<Rightarrow> bool" where
  "same_session ss s s' \<longleftrightarrow>
     (\<exists>ss'. cl_session s' = Some ss' \<and> set (secrets_of ss) \<subseteq> set (secrets_of ss')
        \<and> s_ws ss' = s_ws ss \<and> s_objectUrls ss' = s_objectUrls ss)
     \<and> room_of s' = room_of s \<and> cl_staged s' = cl_staged s \<and> (\<forall>q \<in> set (secrets_of ss). deref s' q = deref s q)"

lemma teardown_ended:
  assumes "same_session ss s s'"
  shows "session_ended ss s (teardown b s')"
proof -
  obtain ss' where ss': "cl_session s' = Some ss'" "set (secrets_of ss) \<subseteq> set (secrets_of ss')"
      "s_ws ss' = s_ws ss" "s_objectUrls ss' = s_objectUrls ss"
    and rest: "cl_staged s' = cl_staged s" "\<forall>q \<in> set (secrets_of ss). deref s' q = deref s q"
    using assms by (auto simp: same_session_def)
  note td = teardown_session [OF ss'(1), where b = b]
  have "\<forall>q \<in> set (secrets_of ss). deref (teardown b s') q = wiped (deref s q)"
    using td(3) ss'(2) rest(2) secrets_in_key_material [of ss'] by auto
  moreover have "u \<notin> fst ` set (cl_blobs (teardown b s'))" if "u \<in> set (s_objectUrls ss)" for u
    using td(6) [of u] that unfolding ss'(4) by metis
  moreover have "u \<notin> fst ` set (cl_blobs (teardown b s'))" if "cl_staged s = Some (f, u)" for f u
    using td(6) [of u] that unfolding rest(1) by metis
  ultimately show ?thesis
    using td(1,4,5,7) unfolding session_ended_def ss'(3) by blast
qed

lemma same_session_cong:
  assumes "cl_session s = Some ss" and "cl_session s' = Some ss" and "cl_heap s' = cl_heap s" and "cl_staged s' = cl_staged s"
  shows "same_session ss s s'"
  using assms deref_cong [OF assms(3)] by (simp add: same_session_def room_of_def)

lemma ends_onClose:
  assumes "cl_session s = Some ss"
  shows "ends_cleanly ss s (onClose (upd_socket w f s))"
proof -
  have "session_ended ss s (teardown b (upd_socket w f s))" for b
    by (rule teardown_ended) (rule same_session_cong [OF assms], simp_all add: assms)
  then show ?thesis
    using assms by (auto simp: onClose_def Let_def ends_cleanly_def ended_texts)
qed

lemma ends_handleError:
  assumes "cl_session s = Some ss"
  shows "ends_cleanly ss s (handleError m s)"
proof -
  have td: "session_ended ss s (teardown b s')"
    if "cl_session s' = Some ss" "cl_heap s' = cl_heap s" "cl_staged s' = cl_staged s" for b s'
    by (rule teardown_ended) (rule same_session_cong [OF assms that])
  show ?thesis
    using assms
    by (auto simp: handleError_def Let_def ends_kept session_kept intro!: ends_ended td)
qed

lemma ends_doLeave:
  assumes "cl_session s = Some ss" and "cl_session s' = Some ss" and "cl_heap s' = cl_heap s" and "cl_staged s' = cl_staged s"
  shows "session_ended ss s (doLeave s')"
  unfolding doLeave_def
  by (rule teardown_ended) (rule same_session_cong [OF assms(1)], simp_all add: assms)

lemma ends_connect:
  assumes "cl_session s = Some ss" and "cl_session s' = Some ss" and "cl_heap s' = cl_heap s" and "cl_staged s' = cl_staged s"
  shows "session_ended ss s (connect P hello c s')"
proof -
  have "session_ended ss s (teardown False (lobbyError [] s'))"
    by (rule teardown_ended) (rule same_session_cong [OF assms(1)], simp_all add: assms)
  then show ?thesis using assms(2) by (simp add: connect_def Let_def ended_texts)
qed

section \<open>Handshake callbacks\<close>

lemma sends_keep:
  assumes "\<forall>x \<in> set outs. \<not> terminal x"
  shows "cl_session (run_callbacks P h r outs s) = cl_session s"
    and "cl_heap (run_callbacks P h r outs s) = cl_heap s"
    and "cl_staged (run_callbacks P h r outs s) = cl_staged s"
    and "cl_session s = None \<Longrightarrow> run_callbacks P h r outs s = s"
proof -
  have "cl_session (run_callbacks P h r outs s) = cl_session s
    \<and> cl_heap (run_callbacks P h r outs s) = cl_heap s \<and> cl_staged (run_callbacks P h r outs s) = cl_staged s
    \<and> (cl_session s = None \<longrightarrow> run_callbacks P h r outs s = s)"
    using assms
  proof (induction outs arbitrary: s)
    case (Cons x outs)
    then obtain d where "x = SendPake d" by (cases x) auto
    with Cons show ?case by (simp add: run_callback_def) (simp add: send_def)
  qed simp
  then show "cl_session (run_callbacks P h r outs s) = cl_session s"
    "cl_heap (run_callbacks P h r outs s) = cl_heap s" "cl_staged (run_callbacks P h r outs s) = cl_staged s"
    "cl_session s = None \<Longrightarrow> run_callbacks P h r outs s = s"
    by simp_all
qed

text \<open>Callbacks of which at most one is terminal either keep the session or end it cleanly.\<close>

lemma ends_callbacks:
  assumes "length (filter terminal outs) \<le> 1" and "same_session ss s s'"
  shows "ends_cleanly ss s (run_callbacks P h role outs s')"
proof (cases "\<exists>m. role = HsJoiner \<and> OnFail m \<in> set outs")
  case False
  then have "\<forall>x \<in> set outs. role = HsOwner \<or> (\<forall>m. x \<noteq> OnFail m)" by (cases role) auto
  from room.callbacks_kept [OF this, of P h s'] show ?thesis
    using assms(2) by (simp add: same_session_def ends_cleanly_def)
next
  case True
  then obtain m pre post where outs: "outs = pre @ OnFail m # post" and role: "role = HsJoiner"
    by (metis split_list)
  then have quiet: "\<forall>x \<in> set pre. \<not> terminal x" "\<forall>x \<in> set post. \<not> terminal x"
    using assms(1) by (auto simp: filter_empty_conv dest!: Suc_le_D)
  let ?u = "lobbyError (js ''Wrong code or handshake failed.'') (run_callbacks P h role pre s')"
  have "same_session ss s ?u"
    using assms(2) view_cong [where g = s_room, OF sends_keep(1) [OF quiet(1), of P h role s']] sends_keep(1-3) [OF quiet(1), of P h role s'] deref_cong [OF sends_keep(2) [OF quiet(1), of P h role s']]
    by (simp add: same_session_def)
  then have ended: "session_ended ss s (teardown True ?u)" by (rule teardown_ended)
  then have "run_callbacks P h role post (teardown True ?u) = teardown True ?u"
    by (intro sends_keep(4) [OF quiet(2)]) (simp add: session_ended_def)
  with ended show ?thesis
    using role by (simp add: outs run_callbacks_append run_callback_def hs_failed_defs ends_cleanly_def)
qed

lemma same_session_refl: "cl_session s = Some ss \<Longrightarrow> same_session ss s s"
  by (rule same_session_cong) simp_all

lemma secrets_of_update_handshake:
  assumes "map_of (s_handshakes ss) h = Some rec" and "hr_ke rec' = hr_ke rec" and "distinct (map fst (s_handshakes ss))"
  shows "set (secrets_of ss) \<subseteq> set (secrets_of (ss\<lparr>s_handshakes := map_set h rec' (s_handshakes ss)\<rparr>))"
proof -
  let ?f = "\<lambda>e :: jsstr \<times> hs_record. case hr_ke (snd e) of None \<Rightarrow> [] | Some r \<Rightarrow> [r]"
  have "set (?f e) \<subseteq> (\<Union>e' \<in> set (map_set h rec' (s_handshakes ss)). set (?f e'))"
    if e: "e \<in> set (s_handshakes ss)" for e
  proof (cases "fst e = h")
    case True
    then have "snd e = rec" using e assms(1,3) by (metis map_of_eq_Some_iff option.inject prod.collapse)
    moreover have "map_of (map_set h rec' (s_handshakes ss)) h = Some rec'" by (simp add: map_of_map_set)
    then have "(h, rec') \<in> set (map_set h rec' (s_handshakes ss))" by (rule map_of_SomeD)
    ultimately show ?thesis
      using UN_upper [of "(h, rec')" "set (map_set h rec' (s_handshakes ss))" "\<lambda>e. set (?f e)"] assms(2) by simp
  next
    case False
    then have "map_of (map_set h rec' (s_handshakes ss)) (fst e) = Some (snd e)"
      using e assms(3) by (simp add: map_of_map_set map_of_eq_Some_iff)
    then have "(fst e, snd e) \<in> set (map_set h rec' (s_handshakes ss))" by (rule map_of_SomeD)
    then show ?thesis
      using UN_upper [of e "set (map_set h rec' (s_handshakes ss))" "\<lambda>e. set (?f e)"] by simp
  qed
  then show ?thesis by (auto simp: secrets_of_def)
qed

lemma ends_onPake:
  assumes ok: "client_ok s" and ss: "cl_session s = Some ss"
  shows "ends_cleanly ss s (state_of (onPake P m s))"
proof -
  have trivial: "ends_cleanly ss s s" using ss by (simp add: ends_cleanly_def)
  have "ends_cleanly ss s (run_callbacks P hsId (hr_role rec) outs (upd_handshake hsId (\<lambda>x. x\<lparr>hr_hs := h\<rparr>) s))"
    if rec: "map_of (s_handshakes ss) hsId = Some rec" and run: "onData P (hr_hs rec) d = Inr (h, outs)"
    for hsId rec d h outs
  proof (rule ends_callbacks)
    have "hs_receive P (hr_hs rec) d = (h, outs)" using run by (simp add: hs_receive_def)
    from hs_receive_terminal [OF this] show "length (filter terminal outs) \<le> 1" by simp
    have "distinct (map fst (s_handshakes ss))"
      using client_ok_session [OF ok ss] by (simp add: session_ok_def)
    from secrets_of_update_handshake [OF rec _ this, of "rec\<lparr>hr_hs := h\<rparr>"]
    show "same_session ss s (upd_handshake hsId (\<lambda>x. x\<lparr>hr_hs := h\<rparr>) s)"
      using ss rec room.upd_handshake_kept [of hsId "\<lambda>x. x\<lparr>hr_hs := h\<rparr>" s]
      by (simp add: same_session_def upd_handshake_def)
  qed
  then show ?thesis
    using ss trivial
    by (auto simp: onPake_def find_handshake_def split: option.split sum.split)
qed

lemma ends_begin_handshake:
  assumes "same_session ss s s'"
  shows "ends_cleanly ss s (state_of (begin_handshake P r role j code h s'))"
proof (cases "new_handshake P r code h (cl_random s')")
  case (Inl e)
  with assms show ?thesis by (auto simp: begin_handshake_def ends_cleanly_def same_session_def)
next
  case (Inr x)
  obtain hs outs pos where x: "x = ((hs, outs), pos)" by (cases x) auto
  then have "\<forall>y \<in> set outs. \<not> terminal y"
    using Inr by (auto simp: new_handshake_def Let_def bind_result_eq_Inr split: prod.splits)
  from view_cong [where g = s_room, OF sends_keep(1) [OF this, of P h role "s'\<lparr>cl_random := pos\<rparr>"]] show ?thesis
    using assms Inr x by (auto simp: begin_handshake_def Let_def ends_cleanly_def same_session_def)
qed

section \<open>Room entry\<close>

lemma secrets_in_store:
  assumes "client_ok s" and "cl_session s = Some ss" and "q \<in> set (secrets_of ss)"
  shows "q < length (cl_heap s)"
proof -
  have "session_ok (shape s) (length (cl_views s)) ss" by (rule client_ok_session [OF assms(1,2)])
  then have refs: "\<forall>r \<in> set (s_keys ss). r < length (cl_heap s)" "s_priv ss < length (cl_heap s)"
    "\<forall>e \<in> set (s_handshakes ss). \<forall>r. hr_ke (snd e) = Some r \<longrightarrow> r < length (cl_heap s)"
    by (auto simp: session_ok_def other_ref_def shape_def values_sat_def)
  show ?thesis using assms(3) refs by (auto simp: secrets_of_def split: option.splits)
qed

lemma same_session_alloc:
  assumes ok: "client_ok s" and ss: "cl_session s = Some ss" and new: "alloc b s = (r, s1)"
    and t: "cl_session t = map_option f (cl_session s1)" "cl_heap t = cl_heap s1" "cl_staged t = cl_staged s1"
    and f: "secrets_of (f ss) = secrets_of ss" "s_room (f ss) = s_room ss" "s_ws (f ss) = s_ws ss" "s_objectUrls (f ss) = s_objectUrls ss"
  shows "same_session ss s t"
proof -
  have s1: "s1 = s\<lparr>cl_heap := cl_heap s @ [b]\<rparr>" by (rule alloc_eq(2) [OF new])
  have "deref t q = deref s q" if "q \<in> set (secrets_of ss)" for q
    using alloc_eq(4) [OF new secrets_in_store [OF ok ss that]] deref_cong [OF t(2)] by simp
  then show ?thesis using ss t f by (simp add: same_session_def s1 room_of_def)
qed

lemma ends_finishJoin:
  assumes "same_session ss s s'"
  shows "ends_cleanly ss s (finishJoin P h rec d s')"
proof -
  obtain ss' where ss': "cl_session s' = Some ss'" "room_of s' = room_of s"
    using assms by (auto simp: same_session_def)
  have "same_session ss s (lobbyError x s')" for x
    using assms by (simp add: same_session_def)
  then have "session_ended ss s (teardown True (lobbyError x s'))" for x
    by (rule teardown_ended)
  then show ?thesis
    using ss' by (auto simp: finishJoin_def with_session_def Let_def split_beta session_kept
        intro: ends_ended ends_kept split: option.split sum.split)
qed

lemma ends_accept_peer_key:
  assumes ok: "client_ok s" and ss: "cl_session s = Some ss"
  shows "ends_cleanly ss s (state_of (accept_peer_key P h rec pub s))"
proof -
  obtain r s1 where new: "alloc pub s = (r, s1)" by (cases "alloc pub s")
  have s1: "cl_session s1 = Some ss" using alloc_eq(2) [OF new] ss by simp
  show ?thesis
  proof (cases "hr_role rec")
    case HsOwner
    then show ?thesis
      using view_cong [of s1 s s_room] s1 ss
      by (intro ends_kept) (simp add: new accept_peer_key_def Let_def and_then_kept session_kept)
  next
    case HsJoiner
    let ?s2 = "upd_session (\<lambda>x. x\<lparr>s_firstOwnerPub := Some r\<rparr>) s1"
    have "same_session ss s ?s2"
      by (rule same_session_alloc [OF ok ss new, where f = "\<lambda>x. x\<lparr>s_firstOwnerPub := Some r\<rparr>"])
        (simp_all add: secrets_of_def)
    note joined = ends_finishJoin [OF this]
    have "ends_cleanly ss s ?s2" using view_cong [of s1 s s_room] s1 ss by (intro ends_kept) simp
    then show ?thesis
      using HsJoiner new by (simp add: accept_peer_key_def joined Let_def)
  qed
qed

lemma ends_onMemberKey:
  assumes "client_ok s" and "cl_session s = Some ss"
  shows "ends_cleanly ss s (state_of (onMemberKey P m s))"
proof -
  have "ends_cleanly ss s s" using assms(2) by (simp add: ends_cleanly_def)
  then show ?thesis
    using assms(2)
    by (simp add: onMemberKey_def ends_accept_peer_key [OF assms] with_session_out_def Let_def split: option.split sum.split)
qed

lemma ends_onKeyDeliver:
  assumes "cl_session s = Some ss"
  shows "ends_cleanly ss s (onKeyDeliver P m s)"
proof -
  have "ends_cleanly ss s s" "ends_cleanly ss s (upd_handshake h f s)" for h f
    by (simp_all add: ends_kept session_kept)
  then show ?thesis
    using assms
    by (simp add: onKeyDeliver_def ends_finishJoin [OF same_session_refl [OF assms]] with_session_def split: option.split)
qed

lemma ends_invites:
  assumes "cl_session s = Some ss"
  shows "ends_cleanly ss s (state_of (onInviteRedeemed P m s))" "ends_cleanly ss s (state_of (onRedeemOk P m s))"
proof -
  have "ends_cleanly ss s s" using assms by (simp add: ends_cleanly_def)
  moreover have "same_session ss s (upd_session (\<lambda>x. x\<lparr>s_pendingInvites := map_delete t (s_pendingInvites x)\<rparr>) s)"
    "same_session ss s (lobbyStatus x ((upd_session (\<lambda>x. x\<lparr>s_memberId := i\<rparr>) s)\<lparr>cl_pendingJoin := None\<rparr>))" for t x i
    using assms by (auto simp: same_session_def secrets_of_def)
  ultimately show "ends_cleanly ss s (state_of (onInviteRedeemed P m s))"
    "ends_cleanly ss s (state_of (onRedeemOk P m s))"
    using assms
    by (auto simp: onInviteRedeemed_def onRedeemOk_def with_session_out_def Let_def
        intro!: ends_begin_handshake split: option.split prod.split)
qed

section \<open>Every event\<close>

lemma onWelcome_session: "cl_session (onWelcome m s) = None \<longleftrightarrow> cl_session s = None"
  by (simp del: not_None_eq add: onWelcome_def with_session_def Let_def showRoom_def renderMembers_def split: option.split)

lemma ends_dispatch:
  assumes ok: "client_ok s" and ss: "cl_session s = Some ss" and m: "sm_type m \<noteq> js ''welcome''"
  shows "ends_cleanly ss s (state_of (dispatch P m s))"
proof -
  have closed: "session_ended ss s (lobbyError x (teardown True (s\<lparr>cl_intentionalClose := True\<rparr>)))" for x
    by (intro ended_texts teardown_ended) (rule same_session_cong [OF ss], simp_all add: ss)
  show ?thesis
    using m
    by (simp add: dispatch_def Let_def ends_kept ends_ended [OF closed] session_kept ends_invites [OF ss]
        ends_onPake [OF ok ss] ends_onMemberKey [OF ok ss] ends_onKeyDeliver [OF ss] ends_handleError [OF ss])
qed

section \<open>Without a session\<close>

lemma teardown_no_session:
  "cl_session s = None \<Longrightarrow> cl_session (teardown b s) = None"
  "cl_session s = None \<Longrightarrow> cl_sockets (teardown b s) = cl_sockets s"
  "cl_session s = None \<Longrightarrow> cl_connects (teardown b s) = cl_connects s"
  by (simp_all add: teardown_def Let_def)

lemma send_no_session: "cl_session s = None \<Longrightarrow> send m s = s"
  by (simp add: send_def)

lemma file_message_no_session:
  "cl_session s = None \<Longrightarrow> failFileMessage t r s = s" "cl_session s = None \<Longrightarrow> finishFileMessage t u s = s"
  "cl_session s = None \<Longrightarrow> delete_incoming t s = s"
  by (simp_all add: failFileMessage_def finishFileMessage_def fileMsg_def delete_incoming_def upd_session_def)

lemma handleError_no_session:
  assumes "cl_session s = None"
  shows "cl_session (handleError m s) = None" "cl_sockets (handleError m s) = cl_sockets s"
    "cl_connects (handleError m s) = cl_connects s"
  using assms
  by (simp_all add: handleError_def Let_def file_message_no_session teardown_no_session roomNotice_def)

lemma onClose_no_session:
  assumes "cl_session s = None"
  shows "cl_session (onClose s) = None" "cl_sockets (onClose s) = cl_sockets s"
    "cl_connects (onClose s) = cl_connects s"
  using assms by (simp_all add: onClose_def in_room_def Let_def teardown_no_session)

text \<open>Without a session no frame is answered: it changes neither the sockets nor the session.\<close>

lemma onMessage_no_session:
  assumes "cl_session s = None"
  shows "cl_session (state_of (onMessage P t s)) = None \<and> cl_sockets (state_of (onMessage P t s)) = cl_sockets s
    \<and> cl_connects (state_of (onMessage P t s)) = cl_connects s"
proof -
  have "cl_session (state_of (dispatch P m s)) = None \<and> cl_sockets (state_of (dispatch P m s)) = cl_sockets s
      \<and> cl_connects (state_of (dispatch P m s)) = cl_connects s" for m
    using assms
    by (simp add: dispatch_def Let_def onWelcome_def onPresence_def onInviteCreated_def onInviteRedeemed_def
        onRedeemOk_def onPake_def onMemberKey_def onKeyDeliver_def onRekey_def applyRoster_def onFileStart_def
        onFileChunk_def onFileEnd_def onFileAbort_def with_session_def with_session_out_def find_handshake_def
        incoming_of_def file_message_no_session handleError_no_session teardown_no_session split: option.split)
  with assms show ?thesis by (simp add: onMessage_def split: sum.split)
qed

section \<open>Every event\<close>

lemma resume_room [simp]: "room_of (resume_connect P pc s) = Some []"
  by (simp add: resume_connect_def open_session_def Let_def split_beta draw_eq alloc_def fresh_key_eq)
    (simp add: room_of_def)

lemma resume_all_room: "pcs \<noteq> [] \<Longrightarrow> room_of (foldl (\<lambda>t pc. resume_connect P pc t) s pcs) = Some []"
  by (induction pcs arbitrary: s rule: rev_induct) simp_all

lemma socket_closed_cases:
  obtains (none) "socket_closed P w s = (onClose (upd_socket w (\<lambda>k. k\<lparr>so_state := Closed\<rparr>) s))
      \<lparr>cl_connects := [pc \<leftarrow> cl_connects (onClose (upd_socket w (\<lambda>k. k\<lparr>so_state := Closed\<rparr>) s)). pc_ws pc \<noteq> w]\<rparr>"
  | (resumed) "room_of (socket_closed P w s) = Some []"
proof -
  let ?s1 = "onClose (upd_socket w (\<lambda>k. k\<lparr>so_state := Closed\<rparr>) s)"
  show thesis
  proof (cases "[pc \<leftarrow> cl_connects ?s1. pc_ws pc = w] = []")
    case True
    then show thesis by (intro none) (simp add: socket_closed_def Let_def)
  next
    case False
    show thesis
      by (rule resumed) (simp add: socket_closed_def Let_def resume_all_room [OF False])
  qed
qed

text \<open>
  With a session, every event keeps it with its room, or ends it cleanly, or opens another one in
  its place (only a close event or a timer does), or is a welcome that names the room.
\<close>

definition opens_in_place :: "client_event \<Rightarrow> bool" where
  "opens_in_place e \<longleftrightarrow> (case e of SocketClosed _ \<Rightarrow> True | ConnectTimeout _ \<Rightarrow> True | _ \<Rightarrow> False)"

definition is_welcome :: "client_event \<Rightarrow> bool" where
  "is_welcome e \<longleftrightarrow> (case e of SocketMessage w t \<Rightarrow>
     (case json_parse t of Inr j \<Rightarrow> sm_type (server_msg_of j) = js ''welcome'' | _ \<Rightarrow> False) | _ \<Rightarrow> False)"

lemma ends_user:
  assumes ss: "cl_session s = Some ss"
  shows "ends_cleanly ss s (create_clicked P nick s)" "ends_cleanly ss s (join_submitted P link nick s)"
    "ends_cleanly ss s (onLeaveClicked s)" "ends_cleanly ss s (modal_clicked a sel s)"
    "ends_cleanly ss s (recoverIfSocketDead s)" "ends_cleanly ss s (message_submitted P body s)"
proof -
  have self: "ends_cleanly ss s s" by (simp add: ends_cleanly_def)
  have connect: "session_ended ss s (connect P hello c s)"
    "session_ended ss s (connect P hello c (lobbyStatus x (s\<lparr>cl_pendingJoin := j\<rparr>)))" for hello c x j
    by (rule ends_connect [OF ss]; simp add: ss)+
  show "ends_cleanly ss s (create_clicked P nick s)"
    by (simp add: create_clicked_def ends_ended [OF connect(1)])
  show "ends_cleanly ss s (join_submitted P link nick s)"
    by (auto simp: join_submitted_def ends_ended [OF connect(2)] ends_kept session_kept split: option.split)
  have leave: "session_ended ss s (doLeave s)" "session_ended ss s (doLeave (closeModal s))"
    "session_ended ss s (doLeave (send x (closeModal s)))" for x
    by (rule ends_doLeave [OF ss]; simp add: ss closeModal_def)+
  show "ends_cleanly ss s (onLeaveClicked s)"
    by (simp add: onLeaveClicked_def with_session_def ss Let_def ends_ended [OF leave(1)] ends_kept session_kept)
  show "ends_cleanly ss s (modal_clicked a sel s)"
    by (simp add: modal_clicked_def Let_def ends_ended [OF leave(2)] ends_ended [OF leave(3)] ends_kept
        session_kept split: modal_action.split)
  have "session_ended ss s (teardown b (s\<lparr>cl_intentionalClose := False\<rparr>))" for b
    by (rule teardown_ended) (rule same_session_cong [OF ss], simp_all add: ss)
  then have "ends_cleanly ss s (onClose (s\<lparr>cl_intentionalClose := False\<rparr>))"
    by (auto simp: onClose_def Let_def in_room_def ss intro!: ends_ended ended_texts)
  with self show "ends_cleanly ss s (recoverIfSocketDead s)"
    by (simp add: recoverIfSocketDead_def ss)
  show "ends_cleanly ss s (message_submitted P body s)"
    by (rule ends_kept)
      (simp add: message_submitted_def with_session_def Let_def draw_eq session_kept
        split: list.split option.split prod.split)
qed

lemma step_with_session:
  assumes ok: "client_ok s" and ss: "cl_session s = Some ss"
  shows "ends_cleanly ss s (client_step P e s)
    \<or> opens_in_place e \<and> room_of (client_step P e s) = Some []
    \<or> is_welcome e \<and> cl_session (client_step P e s) \<noteq> None"
proof -
  have message: "ends_cleanly ss s (state_of (onMessage P t s)) \<or> is_welcome (SocketMessage w t)
      \<and> cl_session (state_of (onMessage P t s)) \<noteq> None" for w t
  proof (cases "is_welcome (SocketMessage w t)")
    case True
    then show ?thesis
      using onWelcome_session [of _ s] ss
      by (auto simp: is_welcome_def onMessage_def dispatch_def split: sum.splits)
  next
    case False
    then show ?thesis
      by (auto simp: is_welcome_def onMessage_def ends_kept intro: ends_dispatch [OF ok ss] split: sum.split)
  qed
  have closed: "ends_cleanly ss s (socket_closed P w s) \<or> room_of (socket_closed P w s) = Some []" for w
  proof (cases rule: socket_closed_cases [of P w s])
    case none
    with ends_onClose [OF ss, of w "\<lambda>k. k\<lparr>so_state := Closed\<rparr>"] show ?thesis
      by (auto simp: ends_cleanly_def ended_texts)
  qed simp
  have timeout: "ends_cleanly ss s (connect_timeout P n s) \<or> room_of (connect_timeout P n s) = Some []" for n
    by (simp add: connect_timeout_def ends_kept)
  have self: "ends_cleanly ss s s" by (simp add: ends_kept)
  show ?thesis
  proof (cases e)
    case (SocketMessage w t)
    with message [of t w] self show ?thesis by (auto simp: client_step_def handle_event_def)
  next
    case (SocketClosed w)
    with closed [of w] self show ?thesis by (auto simp: client_step_def handle_event_def opens_in_place_def)
  next
    case (ConnectTimeout n)
    with timeout [of n] show ?thesis by (auto simp: client_step_def handle_event_def opens_in_place_def)
  qed (simp_all add: client_step_def handle_event_def ends_kept session_kept ends_user [OF ss] socket_opened_def
      socket_error_def member_action_def with_session_def ss)
qed

lemma ends_step:
  assumes "client_ok s" and "cl_session s = Some ss" and "cl_session (client_step P e s) = None"
  shows "session_ended ss s (client_step P e s)"
  using step_with_session [OF assms(1,2), of P e] assms(2,3)
  by (auto simp: ends_cleanly_def room_of_def)

end
