(* ===== verification/ClientExamples.thy ===== *)
theory ClientExamples
  imports KeyProperties
begin

text \<open>
  Concrete states at which the properties of the client are applied: a room of three members as
  its owner and as one of its members see it, over the instance \<open>toy\<close> of the library calls.
\<close>

definition example_page :: page where
  "example_page = \<lparr>pg_protocol = js ''https:'', pg_host = js ''h'', pg_base = js ''https://h/'', pg_session = js ''s''\<rparr>"

definition open_socket :: socket where
  "open_socket = \<lparr>so_state = Open, so_hello = Leave, so_sent = []\<rparr>"

text \<open>A session of member \<open>me\<close> in a room with members \<open>o\<close> (the owner), \<open>a\<close> and \<open>b\<close>.\<close>

definition example_session :: "jsstr \<Rightarrow> member_role \<Rightarrow> session" where
  "example_session me r =
     \<lparr>s_ws = 0, s_room = js ''room'', s_memberId = me, s_role = r, s_ownerId = js ''o'', s_keys = [0],
      s_pub = replicate 32 1, s_priv = 1, s_pendingInvites = [], s_handshakes = [],
      s_memberPubs = [(js ''a'', 2), (js ''b'', 3), (js ''o'', 4)],
      s_knownMembers = [js ''o'', js ''a'', js ''b''], s_firstOwnerPub = None, s_lastMembers = [],
      s_incoming = [], s_fileMsgs = [], s_objectUrls = []\<rparr>"

definition example_client :: "jsstr \<Rightarrow> member_role \<Rightarrow> client" where
  "example_client me r = (initial_client example_page)
     \<lparr>cl_heap := [replicate 32 7, replicate 32 1, replicate 32 2, replicate 32 3, replicate 32 4],
      cl_sockets := [open_socket], cl_session := Some (example_session me r)\<rparr>"

definition member_named :: "jsstr \<Rightarrow> member_role \<Rightarrow> member_info" where
  "member_named i r = \<lparr>mi_id = i, mi_nick = i, mi_role = r\<rparr>"

lemma example_client_ok: "client_ok (example_client me r)"
  by (simp add: client_ok_def example_client_def example_session_def initial_client_def session_ok_def
      shape_def other_ref_def values_sat_def KEY_LEN_def MAX_KEPT_KEYS_def nth_Cons')

lemma example_connected: "connected (example_session me r) (example_client me r)"
  by (simp add: connected_def example_client_def example_session_def open_socket_def)

lemma Done_if_not_thrown: "thrown r = None \<Longrightarrow> r = Done (state_of r)"
  by (cases r) simp_all

lemma example_good_peers: "\<not> bad_peer toy (deref (example_client me r)) (example_session me r) i"
  by (simp add: bad_peer_def example_client_def example_session_def deref_def toy_def nth_Cons')

text \<open>The owner sees that \<open>b\<close> has left.\<close>

definition after_b_left :: "member_info list" where
  "after_b_left = [member_named (js ''o'') Owner, member_named (js ''a'') Member]"

text \<open>The owner's public key of \<open>a\<close> is too short for the key exchange.\<close>

definition example_bad_client :: client where
  "example_bad_client = (example_client (js ''o'') Owner)\<lparr>cl_heap :=
     [replicate 32 7, replicate 32 1, [2], replicate 32 3, replicate 32 4]\<rparr>"

lemma example_bad_client_ok: "client_ok example_bad_client"
  by (simp add: example_bad_client_def client_ok_def example_client_def example_session_def initial_client_def
      session_ok_def shape_def other_ref_def values_sat_def KEY_LEN_def MAX_KEPT_KEYS_def nth_Cons')

theorem rotation_throws_iff_witness:
  "thrown (onPresence toy after_b_left example_bad_client) = Some CryptoError"
proof -
  let ?s = example_bad_client and ?ss = "example_session (js ''o'') Owner"
  have "cl_session ?s = Some ?ss" by (simp add: example_bad_client_def example_client_def)
  moreover have "s_role ?ss = Owner" "ownerIdOf after_b_left = s_memberId ?ss"
    "js ''b'' \<in> set (s_knownMembers ?ss)" "js ''b'' \<notin> mi_id ` set after_b_left"
    by (simp_all add: example_session_def after_b_left_def member_named_def ownerIdOf_def)
  moreover have "\<exists>m \<in> set after_b_left. mi_id m \<noteq> s_memberId ?ss \<and> bad_peer toy (deref ?s) ?ss (mi_id m)"
    by (simp add: bad_peer_def example_bad_client_def example_client_def example_session_def deref_def
        after_b_left_def member_named_def toy_def)
  ultimately show ?thesis
    using rotation_throws_iff [OF example_bad_client_ok, of ?ss after_b_left "js ''b''" toy] by simp
qed

theorem leavers_are_rotated_out_witness:
  "\<exists>t ss' k fs roster. onPresence toy after_b_left (example_client (js ''o'') Owner) = Done t
    \<and> connected ss' t \<and> map_of (s_memberPubs ss') (js ''b'') = None
    \<and> deref t k = fst (generateRoomKey toy 0)
    \<and> list_all2 (rekeys toy (deref t) ss' k) [js ''a''] fs
    \<and> sent_on t 0 = map client_msg_text (fs @ [Roster roster])"
proof -
  let ?s = "example_client (js ''o'') Owner" and ?ss = "example_session (js ''o'') Owner"
  let ?t = "state_of (onPresence toy after_b_left ?s)"
  have facts: "s_role ?ss = Owner" "ownerIdOf after_b_left = s_memberId ?ss"
    "js ''b'' \<in> set (s_knownMembers ?ss)" "js ''b'' \<notin> mi_id ` set after_b_left"
    by (simp_all add: example_session_def after_b_left_def member_named_def ownerIdOf_def)
  have "cl_session ?s = Some ?ss" by (simp add: example_client_def)
  from onPresence_leavers_thrown [OF example_client_ok this facts, of toy]
  have "thrown (onPresence toy after_b_left ?s) = None"
    by (simp add: example_good_peers)
  then have run: "onPresence toy after_b_left ?s = Done ?t" by (rule Done_if_not_thrown)
  from leavers_are_rotated_out [OF example_client_ok example_connected facts run]
  obtain ss' k fs roster where "connected ss' ?t" "map_of (s_memberPubs ss') (js ''b'') = None"
    "deref ?t k = fst (generateRoomKey toy (cl_random ?s))"
    "sent_on ?t (s_ws ?ss) = sent_on ?s (s_ws ?ss) @ map client_msg_text (fs @ [Roster roster])"
    "list_all2 (rekeys toy (deref ?t) ss' k)
      [i \<leftarrow> set_of_list (map mi_id after_b_left). i \<noteq> s_memberId ?ss \<and> map_of (s_memberPubs ?ss) i \<noteq> None] fs"
    by blast
  moreover have "[i \<leftarrow> set_of_list (map mi_id after_b_left). i \<noteq> s_memberId ?ss \<and> map_of (s_memberPubs ?ss) i \<noteq> None]
      = [js ''a'']" "cl_random ?s = 0" "s_ws ?ss = 0" "sent_on ?s 0 = []"
    by code_simp+
  ultimately show ?thesis
    using run by (intro exI [of _ ?t] exI [of _ ss'] exI [of _ k] exI [of _ fs] exI [of _ roster]) simp
qed

end
