(* ===== verification/LifecycleProperties.thy ===== *)
theory LifecycleProperties
  imports Lifecycle ClientExamples
begin

text \<open>
  Properties of the client as a whole, over every sequence of events: the invariant of its state,
  what the end of a session leaves behind, the phases a client goes through, silence outside a
  session, and the places where a late event hits the wrong session.
\<close>

section \<open>Reachable states\<close>

lemma load_page_ok: "client_ok (load_page P pg)"
  by (simp add: load_page_def pollStats_def upd_ui_def split_beta client_ok_def initial_client_def)

lemma reachable_ok: "client_ok (run_steps (client_step P) es (load_page P pg))"
  by (rule client_system.run_inv) (rule load_page_ok)

text \<open>
  C5: In every state the client can reach, whatever the relay and the user do: the references of
  the session point into the store, at most five distinct room keys of 32 bytes each are held and
  none of their arrays is also the private key, a peer's or the first owner's public key, or a
  handshake secret (a download and an upload do refer to the array of the room key they use), every
  download's counter equals the number of chunks it has and is below the number it waits for, and
  live object URLs are distinct.
\<close>

theorem client_invariant:
  "client_ok (run_steps (client_step P) es (load_page P pg))"
  by (rule reachable_ok)

text \<open>
  C2: Whatever event leaves a reachable client that had a session without one, then in the state
  after it every array of \<open>secrets_of\<close> is zero: the room keys in the window, the private key, and
  the secret that each handshake record of that session holds. Its socket is closing or closed, no
  object URL of its files and no staged attachment is live, and no message is shown. Outside these
  arrays are the copy of a handshake secret in the result of its \<open>HandshakeSession\<close>, which is
  dropped and not zeroed, and the records the owner has deleted; the timer that replaces a session
  by another (C27) leaves the client with a session.
\<close>

theorem session_end_zeroes:
  assumes "s = run_steps (client_step P) es (load_page P pg)" and "cl_session s = Some ss"
    and "t = client_step P e s" and "cl_session t = None"
  shows "(\<forall>q \<in> set (secrets_of ss). deref t q = replicate (length (deref s q)) 0)
    \<and> Closing \<le> socket_state t (s_ws ss) \<and> cl_staged t = None
    \<and> (\<forall>u \<in> set (s_objectUrls ss). u \<notin> fst ` set (cl_blobs t)) \<and> ui_messages (cl_ui t) = []"
proof -
  have "client_ok s" unfolding assms(1) by (rule reachable_ok)
  from ends_step [OF this assms(2), of P e] have "session_ended ss s t"
    using assms(3,4) by simp
  then show ?thesis by (simp add: session_ended_def wiped_def)
qed

text \<open>Unfolding a short run from the loaded page.\<close>

lemmas run_defs = client_step_def handle_event_def create_clicked_def connect_def open_session_def
  connect_timeout_def resume_connect_def socket_opened_def load_page_def pollStats_def initial_client_def split_beta draw_eq
  alloc_def fresh_key_eq upd_session_def teardown_def wipe_session_def clearStaged_def upd_ui_def lobbyError_def
  wipeKey_def wipe_all_def ws_close_def upd_socket_def socket_state_def ws_send_def less_ready_state_def Let_def

text \<open>Creating a room and leaving before the welcome zeroes the first room key.\<close>

definition just_created :: client where
  "just_created = run_steps (client_step toy) [CreateClicked (js ''n'')] (load_page toy example_page)"

theorem session_end_zeroes_witness:
  "deref just_created 1 = map (\<lambda>i. of_nat (i + 1)) [48..<80]
    \<and> deref (client_step toy LeaveClicked just_created) 1 = replicate 32 0"
proof -
  let ?ss = "the (cl_session just_created)" and ?t = "client_step toy LeaveClicked just_created"
  have "cl_session just_created \<noteq> None \<and> 1 \<in> set (secrets_of ?ss)
      \<and> deref just_created 1 = map (\<lambda>i. of_nat (i + 1)) [48..<80] \<and> cl_session ?t = None" by code_simp
  then have some: "cl_session just_created \<noteq> None"
    and key: "1 \<in> set (secrets_of ?ss)" "deref just_created 1 = map (\<lambda>i. of_nat (i + 1)) [48..<80]"
    and none: "cl_session ?t = None" by blast+
  from some have ss: "cl_session just_created = Some ?ss" by simp
  from session_end_zeroes [OF just_created_def ss refl none] key(1)
  have "deref ?t 1 = replicate (length (deref just_created 1)) 0" by blast
  moreover have "length (deref just_created 1) = 32" unfolding key(2) by simp
  ultimately show ?thesis using key(2) by metis
qed

section \<open>Phases\<close>

text \<open>
  The abstract client: in the lobby, joining (connected or connecting, not yet welcomed), or in a
  room. Only a welcome enters a room; only the listed events leave one; a connection is opened by
  the user's two buttons from the lobby, and by the end of the wait for an old socket.
\<close>

datatype phase = Lobby | Joining | InRoom

definition phase_of :: "client \<Rightarrow> phase" where
  "phase_of s = (case room_of s of None \<Rightarrow> Lobby | Some r \<Rightarrow> if r = [] then Joining else InRoom)"

definition may_end :: "client_event \<Rightarrow> bool" where
  "may_end e \<longleftrightarrow>
     (case e of SocketMessage _ _ \<Rightarrow> True | SocketClosed _ \<Rightarrow> True | PageVisible \<Rightarrow> True
      | CreateClicked _ \<Rightarrow> True | JoinSubmitted _ _ \<Rightarrow> True | LeaveClicked \<Rightarrow> True
      | ModalClicked a _ \<Rightarrow> a \<noteq> DismissModal | _ \<Rightarrow> False)"

inductive lifecycle :: "phase \<Rightarrow> client_event \<Rightarrow> phase \<Rightarrow> bool" where
  stay: "lifecycle p e p"
| leave: "may_end e \<Longrightarrow> lifecycle p e Lobby"
| create: "lifecycle Lobby (CreateClicked nick) Joining"
| join: "lifecycle Lobby (JoinSubmitted link nick) Joining"
| reconnect: "opens_in_place e \<Longrightarrow> lifecycle p e Joining"
| enter: "is_welcome e \<Longrightarrow> p \<noteq> Lobby \<Longrightarrow> q \<noteq> Lobby \<Longrightarrow> lifecycle p e q"

inductive_simps enters_room: "lifecycle p e InRoom"

lemma phase_Lobby: "phase_of s = Lobby \<longleftrightarrow> cl_session s = None"
  by (simp add: phase_of_def room_of_def split: option.split)

lemma phase_cong: "room_of t = room_of s \<Longrightarrow> phase_of t = phase_of s"
  by (simp add: phase_of_def)

lemma lifecycle_cases:
  "phase_of t = phase_of s \<or> may_end e \<and> phase_of t = Lobby \<or> opens_in_place e \<and> phase_of t = Joining \<Longrightarrow>
    lifecycle (phase_of s) e (phase_of t)"
  by (metis lifecycle.stay lifecycle.leave lifecycle.reconnect)

lemma phase_Joining: "room_of s = Some [] \<Longrightarrow> phase_of s = Joining"
  by (simp add: phase_of_def)

lemma connect_room: "cl_session s = None \<Longrightarrow> room_of (connect P hello c s) = Some []"
  using resume_room [of P "\<lparr>pc_ws = 0, pc_hello = hello, pc_create = c\<rparr>" "lobbyError [] s"]
  by (simp add: connect_def resume_connect_def Let_def)

lemma step_keeps_room:
  "\<not> (may_end e \<or> opens_in_place e) \<Longrightarrow> room_of (client_step P e s) = room_of s"
  by (cases e)
    (auto simp: may_end_def opens_in_place_def client_step_def handle_event_def session_kept socket_opened_def
      socket_error_def member_action_def with_session_def message_submitted_def modal_clicked_def Let_def draw_eq
      split: option.split list.split)

lemma step_without_session:
  assumes s: "cl_session s = None"
  shows "lifecycle (phase_of s) e (phase_of (client_step P e s))"
proof -
  have p: "phase_of s = Lobby" using s by (simp add: phase_Lobby)
  have same: "lifecycle (phase_of s) e (phase_of t)" if "cl_session t = None" for e t
    using that by (simp add: p phase_Lobby [THEN iffD2] lifecycle.stay)
  show ?thesis
  proof (cases "may_end e \<or> opens_in_place e")
    case False
    from phase_cong [OF step_keeps_room [OF False]] show ?thesis by (intro lifecycle_cases disjI1)
  next
    case True
    then show ?thesis
  proof (cases e)
    case (CreateClicked nick)
    have "phase_of (client_step P e s) = Joining"
      by (rule phase_Joining) (simp add: CreateClicked client_step_def handle_event_def create_clicked_def connect_room s)
    then show ?thesis by (simp add: p CreateClicked lifecycle.create)
  next
    case (JoinSubmitted link nick)
    show ?thesis
    proof (cases "parseInvite (js_trim link)")
      case None
      then show ?thesis
        by (intro same) (simp add: JoinSubmitted client_step_def handle_event_def join_submitted_def s)
    next
      case (Some x)
      have "phase_of (client_step P e s) = Joining"
        by (rule phase_Joining)
          (simp add: JoinSubmitted client_step_def handle_event_def join_submitted_def Some split_beta connect_room s)
      then show ?thesis by (simp add: p JoinSubmitted lifecycle.join)
    qed
  next
    case (SocketMessage w t)
    then show ?thesis
      using onMessage_no_session [OF s, of P t] s by (intro same) (simp add: client_step_def handle_event_def)
  next
    case (SocketClosed w)
    have "phase_of (socket_closed P w s) = phase_of s \<or> phase_of (socket_closed P w s) = Joining"
    proof (cases rule: socket_closed_cases [of P w s])
      case none
      then have "cl_session (socket_closed P w s) = None"
        using onClose_no_session(1) [of "upd_socket w (\<lambda>k. k\<lparr>so_state := Closed\<rparr>) s"] s by simp
      then show ?thesis by (simp add: p phase_Lobby)
    qed (simp add: phase_Joining)
    then show ?thesis
      by (intro lifecycle_cases) (auto simp: SocketClosed client_step_def handle_event_def opens_in_place_def)
  next
    case (ConnectTimeout n)
    have "phase_of (connect_timeout P n s) = phase_of s \<or> phase_of (connect_timeout P n s) = Joining"
      by (simp add: connect_timeout_def phase_Joining)
    then show ?thesis
      by (intro lifecycle_cases) (auto simp: ConnectTimeout client_step_def handle_event_def opens_in_place_def)
  next
    case (ModalClicked a sel)
    then show ?thesis
      using s by (intro same) (simp add: client_step_def handle_event_def modal_clicked_def doLeave_def
          closeModal_def Let_def send_no_session teardown_no_session split: modal_action.split)
  qed (use s in \<open>simp_all add: may_end_def opens_in_place_def same client_step_def handle_event_def
      with_session_def recoverIfSocketDead_def onLeaveClicked_def\<close>)
  qed
qed

lemma connect_timeout_session: "cl_session s \<noteq> None \<Longrightarrow> cl_session (connect_timeout P n s) \<noteq> None"
proof -
  have "cl_session (resume_connect P pc t) \<noteq> None" for pc t
    using resume_room [of P pc t] unfolding room_of_def by auto
  then show "cl_session s \<noteq> None \<Longrightarrow> cl_session (connect_timeout P n s) \<noteq> None"
    by (simp add: connect_timeout_def)
qed

lemma ending_event:
  assumes "may_end e \<or> opens_in_place e" and "cl_session s \<noteq> None" and "cl_session (client_step P e s) = None"
  shows "may_end e"
proof (cases e)
  case (ConnectTimeout n)
  then show ?thesis
    using assms(3) connect_timeout_session [OF assms(2), of P n] by (simp add: client_step_def handle_event_def)
qed (use assms(1) in \<open>simp_all add: opens_in_place_def may_end_def\<close>)

text \<open>
  C6: The client refines the abstract life cycle: every event takes the phase of a reachable
  state to a phase the abstract machine allows for it.
\<close>

theorem client_refines_lifecycle:
  assumes "s = run_steps (client_step P) es (load_page P pg)"
  shows "lifecycle (phase_of s) e (phase_of (client_step P e s))"
proof (cases "cl_session s")
  case None
  then show ?thesis by (rule step_without_session)
next
  case (Some ss)
  have ok: "client_ok s" unfolding assms by (rule reachable_ok)
  show ?thesis
  proof (cases "may_end e \<or> opens_in_place e")
    case False
    from phase_cong [OF step_keeps_room [OF False]] show ?thesis by (intro lifecycle_cases disjI1)
  next
    case True
    consider "room_of (client_step P e s) = room_of s" | "session_ended ss s (client_step P e s)"
      | "opens_in_place e" "room_of (client_step P e s) = Some []"
      | "is_welcome e" "cl_session (client_step P e s) \<noteq> None"
      using step_with_session [OF ok Some, of P e] unfolding ends_cleanly_def by blast
    then show ?thesis
    proof cases
      case 1
      then show ?thesis by (intro lifecycle_cases disjI1 phase_cong)
    next
      case 2
      then have none: "cl_session (client_step P e s) = None" by (simp add: session_ended_def)
      have "may_end e"
        using True none Some by (intro ending_event) auto
      then show ?thesis using none by (intro lifecycle_cases) (simp add: phase_Lobby)
    next
      case 3
      then show ?thesis by (intro lifecycle_cases) (simp add: phase_Joining)
    next
      case 4
      then show ?thesis using Some by (intro lifecycle.enter) (simp_all add: phase_Lobby)
    qed
  qed
qed

theorem client_refines_lifecycle_witness:
  "phase_of just_created = Joining
    \<and> lifecycle (phase_of just_created) LeaveClicked (phase_of (client_step toy LeaveClicked just_created))"
proof -
  have "phase_of just_created = Joining"
    by (simp add: just_created_def phase_of_def room_of_def run_defs)
  with client_refines_lifecycle [OF just_created_def, of LeaveClicked] show ?thesis by simp
qed

section \<open>Silence\<close>

definition user_connects :: "client_event \<Rightarrow> bool" where
  "user_connects e \<longleftrightarrow> (case e of CreateClicked _ \<Rightarrow> True | JoinSubmitted _ _ \<Rightarrow> True | _ \<Rightarrow> False)"

text \<open>No session and no call waiting to open one.\<close>

definition quiet :: "client \<Rightarrow> bool" where
  "quiet s \<longleftrightarrow> cl_session s = None \<and> cl_connects s = []"

text \<open>
  A socket of which at most the pending greeting is sent: one that is still connecting sends it
  when it opens, any other sends nothing.
\<close>

definition calm :: "socket \<Rightarrow> socket \<Rightarrow> bool" where
  "calm k k' \<longleftrightarrow> so_hello k' = so_hello k
     \<and> (so_sent k' = so_sent k \<or> so_state k = Connecting \<and> so_state k' \<noteq> Connecting
          \<and> so_sent k' = so_sent k @ [client_msg_text (so_hello k)])
     \<and> (so_state k \<noteq> Connecting \<longrightarrow> so_state k' \<noteq> Connecting)"

lemma calm_refl [simp]: "calm k k"
  by (simp add: calm_def)

lemma calm_trans: "calm k k' \<Longrightarrow> calm k' k'' \<Longrightarrow> calm k k''"
  by (auto simp: calm_def)

definition stays_quiet :: "client \<Rightarrow> client \<Rightarrow> bool" where
  "stays_quiet s t \<longleftrightarrow> quiet t \<and> list_all2 calm (cl_sockets s) (cl_sockets t)"

lemma list_all2_calm [simp]: "list_all2 calm ks ks"
  by (rule list_all2_refl) simp

lemma calm_update: "w < length ks \<Longrightarrow> calm (ks ! w) k \<Longrightarrow> list_all2 calm ks (ks[w := k])"
  by (auto simp: list_all2_conv_all_nth nth_list_update)

lemma stays_quiet_same:
  "quiet s \<Longrightarrow> cl_session t = cl_session s \<Longrightarrow> cl_connects t = cl_connects s \<Longrightarrow> cl_sockets t = cl_sockets s \<Longrightarrow>
    stays_quiet s t"
  by (simp add: stays_quiet_def quiet_def)

lemma resume_upload_quiet:
  assumes "cl_session s = None"
  shows "cl_session (snd (resume_upload P up s)) = None" "cl_connects (snd (resume_upload P up s)) = cl_connects s"
    "cl_sockets (snd (resume_upload P up s)) = cl_sockets s"
  using assms
  by (simp_all add: resume_upload_def send_chunk_def startFileMessage_def Let_def split_beta draw_eq send_no_session
      split: upload_stage.split)

lemma resume_nth_quiet:
  assumes "quiet s"
  shows "stays_quiet s (resume_nth P n s)"
  using assms resume_upload_quiet [of s P "cl_uploads s ! n"]
  by (simp add: resume_nth_def split_beta Let_def stays_quiet_def quiet_def)

lemma stays_quiet_socket:
  assumes "quiet s" and "\<And>k. k = cl_sockets s ! w \<Longrightarrow> calm k (f k)"
  shows "stays_quiet s (upd_socket w f s)"
  using assms calm_update [of w "cl_sockets s" "f (cl_sockets s ! w)"] by (simp add: stays_quiet_def quiet_def upd_socket_def)

lemma socket_closed_quiet:
  assumes "quiet s"
  shows "stays_quiet s (socket_closed P w s)"
proof -
  let ?u = "upd_socket w (\<lambda>k. k\<lparr>so_state := Closed\<rparr>) s"
  have "stays_quiet s ?u" by (rule stays_quiet_socket [OF assms]) (simp add: calm_def)
  moreover have none: "cl_session ?u = None" "cl_connects ?u = []" using assms by (simp_all add: quiet_def)
  ultimately show ?thesis
    using onClose_no_session [OF none(1)] by (simp add: socket_closed_def Let_def stays_quiet_def quiet_def)
qed

lemma socket_opened_quiet:
  assumes "quiet s"
  shows "stays_quiet s (socket_opened w s)"
proof (cases "socket_state s w = Connecting")
  case True
  let ?m = "client_msg_text (so_hello (cl_sockets s ! w))"
  have "w < length (cl_sockets s)" using True by (auto simp: socket_state_def split: if_splits)
  then have "socket_opened w s = upd_socket w (\<lambda>k. k\<lparr>so_state := Open, so_sent := so_sent k @ [?m]\<rparr>) s"
    using True by (simp add: socket_opened_def ws_send_def upd_socket_def)
  moreover have "stays_quiet s (upd_socket w (\<lambda>k. k\<lparr>so_state := Open, so_sent := so_sent k @ [?m]\<rparr>) s)"
    by (rule stays_quiet_socket [OF assms]) (use True in \<open>auto simp: calm_def socket_state_def split: if_splits\<close>)
  ultimately show ?thesis by simp
qed (use assms in \<open>simp add: socket_opened_def stays_quiet_def\<close>)

lemma quiet_step:
  assumes q: "quiet s" and e: "\<not> user_connects e"
  shows "stays_quiet s (client_step P e s)"
proof -
  have s: "cl_session s = None" "cl_connects s = []" using q by (simp_all add: quiet_def)
  note same = stays_quiet_same [OF q]
  show ?thesis
  proof (cases e)
    case (SocketOpened w)
    then show ?thesis by (simp add: client_step_def handle_event_def socket_opened_quiet [OF q])
  next
    case (SocketMessage w t)
    then show ?thesis
      using onMessage_no_session [OF s(1), of P t] by (simp add: client_step_def handle_event_def same s)
  next
    case (SocketClosed w)
    then show ?thesis
      by (simp add: client_step_def handle_event_def same socket_closed_quiet [OF q])
  next
    case (UploadReady n)
    then show ?thesis by (simp add: client_step_def handle_event_def resume_nth_quiet [OF q])
  next
    case (ModalClicked a sel)
    then show ?thesis
      using s by (auto simp: client_step_def handle_event_def modal_clicked_def doLeave_def closeModal_def Let_def
          send_no_session teardown_no_session intro!: same split: modal_action.split)
  next
    case (FileSelected f)
    then show ?thesis
      by (auto simp: client_step_def handle_event_def onFileSelected_def roomNotice_def renderStaged_def
          createObjectURL_def Let_def intro!: same split: option.split)
  next
    case (StatsReply r)
    then show ?thesis
      by (auto simp: client_step_def handle_event_def stats_reply_def intro!: same)
  qed (use e s in \<open>simp_all add: user_connects_def same client_step_def handle_event_def socket_error_def
      member_action_def with_session_def recoverIfSocketDead_def message_submitted_def onLeaveClicked_def
      connect_timeout_def copy_invite_def roomNotice_def send_no_session pollStats_def\<close>)
qed

lemma quiet_run:
  "quiet s \<Longrightarrow> \<forall>e \<in> set es. \<not> user_connects e \<Longrightarrow> stays_quiet s (run_steps (client_step P) es s)"
proof (induction es arbitrary: s)
  case (Cons e es)
  have s: "stays_quiet s (client_step P e s)" using Cons.prems by (intro quiet_step) simp_all
  then have "stays_quiet (client_step P e s) (run_steps (client_step P) es (client_step P e s))"
    using Cons.prems by (intro Cons.IH) (simp_all add: stays_quiet_def)
  with s show ?case
    using list_all2_trans [of calm calm calm, OF calm_trans] by (auto simp: stays_quiet_def)
qed (simp add: stays_quiet_def)

text \<open>The ways to leave a room, and the frames each of them sends first.\<close>

fun farewell :: "session \<Rightarrow> client_event \<Rightarrow> client_msg list option" where
  "farewell ss LeaveClicked = (if s_role ss \<noteq> Owner then Some [Leave] else None)"
| "farewell ss (ModalClicked DoLeave i) = Some [Leave]"
| "farewell ss (ModalClicked TransferAndLeave i) = Some ((if i \<noteq> [] then [Transfer i] else []) @ [Leave])"
| "farewell ss _ = None"

lemma doLeave_connected:
  assumes conn: "connected ss s"
  shows "cl_session (doLeave s) = None" and "cl_connects (doLeave s) = cl_connects s"
    and "cl_sockets (doLeave s) = (cl_sockets s)[s_ws ss := (cl_sockets s ! s_ws ss)
      \<lparr>so_sent := so_sent (cl_sockets s ! s_ws ss) @ [client_msg_text Leave], so_state := Closing\<rparr>]"
proof -
  let ?u = "send Leave (s\<lparr>cl_intentionalClose := True\<rparr>)"
  have conn': "connected ss (s\<lparr>cl_intentionalClose := True\<rparr>)" using conn by (simp add: connected_def)
  have u: "cl_session ?u = Some ss" using connected_session [OF sent_send(2) [OF conn']] .
  have w: "s_ws ss < length (cl_sockets s)" "so_state (cl_sockets s ! s_ws ss) = Open"
    using conn by (simp_all add: connected_def)
  show "cl_session (doLeave s) = None" by (simp add: doLeave_def teardown_session(1) [OF u])
  show "cl_connects (doLeave s) = cl_connects s"
    using teardown_sockets(2) [OF u, of True] by (simp add: doLeave_def)
  show "cl_sockets (doLeave s) = (cl_sockets s)[s_ws ss := (cl_sockets s ! s_ws ss)
      \<lparr>so_sent := so_sent (cl_sockets s ! s_ws ss) @ [client_msg_text Leave], so_state := Closing\<rparr>]"
    using w teardown_sockets(1) [OF u, of True] unfolding send_connected [OF conn']
    by (simp add: doLeave_def send_connected [OF conn'] ws_close_def upd_socket_def less_ready_state_def)
qed

lemma farewell_step:
  assumes conn: "connected ss s" and l: "farewell ss l = Some fs"
  shows "cl_session (client_step P l s) = None" and "cl_connects (client_step P l s) = cl_connects s"
    and "cl_sockets (client_step P l s) = (cl_sockets s)[s_ws ss := (cl_sockets s ! s_ws ss)
      \<lparr>so_sent := so_sent (cl_sockets s ! s_ws ss) @ map client_msg_text fs, so_state := Closing\<rparr>]"
proof -
  have ss: "cl_session s = Some ss" using conn by (rule connected_session)
  have closed: "connected ss (closeModal s)" using conn by (simp add: connected_def closeModal_def)
  have socks: "cl_sockets (closeModal s) = cl_sockets s" "cl_connects (closeModal s) = cl_connects s"
    by (simp_all add: closeModal_def)
  have w: "s_ws ss < length (cl_sockets s)" using conn by (simp add: connected_def)
  note facts = doLeave_connected [OF conn] doLeave_connected [OF closed] doLeave_connected [OF sent_send(2) [OF closed]]
  have "cl_session (client_step P l s) = None \<and> cl_connects (client_step P l s) = cl_connects s
    \<and> cl_sockets (client_step P l s) = (cl_sockets s)[s_ws ss := (cl_sockets s ! s_ws ss)
      \<lparr>so_sent := so_sent (cl_sockets s ! s_ws ss) @ map client_msg_text fs, so_state := Closing\<rparr>]"
    using l ss w facts
    by (cases "(ss, l)" rule: farewell.cases)
      (auto simp: client_step_def handle_event_def onLeaveClicked_def with_session_def modal_clicked_def Let_def socks
        send_connected [OF closed] split: if_splits)
  then show "cl_session (client_step P l s) = None" and "cl_connects (client_step P l s) = cl_connects s"
    and "cl_sockets (client_step P l s) = (cl_sockets s)[s_ws ss := (cl_sockets s ! s_ws ss)
      \<lparr>so_sent := so_sent (cl_sockets s ! s_ws ss) @ map client_msg_text fs, so_state := Closing\<rparr>]"
    by blast+
qed

text \<open>
  C10: Whoever leaves a room, a member with the leave button or the owner with the dialog, sends
  the leave message (after the transfer, if one was chosen) and then, whatever the relay delivers
  and whatever happens on the page short of creating or joining a room, no message, no key and no
  chunk of a running upload on any socket. This is for a client in which no call of \<open>connect\<close> is
  waiting to open a session (one that waits begins another session when it goes on), and but for a
  socket that was still connecting when the client left: that socket's own greeting goes out when
  it opens.
\<close>

theorem silent_after_leaving:
  assumes "connected ss s" and "cl_connects s = []" and "farewell ss l = Some fs"
    and "\<forall>e \<in> set es. \<not> user_connects e" and "t = run_steps (client_step P) (l # es) s"
  shows "sent_on t w = sent_on s w @ (if w = s_ws ss then map client_msg_text fs else [])
    \<or> w \<noteq> s_ws ss \<and> socket_state s w = Connecting
      \<and> sent_on t w = sent_on s w @ [client_msg_text (so_hello (cl_sockets s ! w))]"
proof -
  let ?u = "client_step P l s"
  note u = farewell_step [OF assms(1,3), of P]
  have own: "s_ws ss < length (cl_sockets s)" using assms(1) by (simp add: connected_def)
  have "quiet ?u" using u assms(2) by (simp add: quiet_def)
  from quiet_run [OF this assms(4), of P] have all: "list_all2 calm (cl_sockets ?u) (cl_sockets t)"
    using assms(5) by (simp add: stays_quiet_def)
  then have len: "length (cl_sockets t) = length (cl_sockets s)"
    using list_all2_lengthD [OF all] by (simp add: u(3))
  show ?thesis
  proof (cases "w < length (cl_sockets s)")
    case True
    then have "calm (cl_sockets ?u ! w) (cl_sockets t ! w)"
      using list_all2_nthD [OF all, of w] by (simp add: u(3))
    then show ?thesis
      using True own by (auto simp: u(3) calm_def sent_on_def socket_state_def len nth_list_update split: if_splits)
  qed (use own in \<open>auto simp: sent_on_def len\<close>)
qed

theorem silent_after_leaving_witness:
  "sent_on (run_steps (client_step toy)
      [LeaveClicked, MessageSubmitted (js ''x''), UploadReady 0, SocketClosed 0] (example_client (js ''a'') Member)) 0
    = [client_msg_text Leave]"
proof -
  let ?s = "example_client (js ''a'') Member" and ?ss = "example_session (js ''a'') Member"
  have "s_ws ?ss = 0" "sent_on ?s 0 = []" "cl_connects ?s = []" "s_role ?ss = Member"
    by (simp_all add: example_session_def example_client_def initial_client_def open_socket_def sent_on_def)
  then show ?thesis
    using silent_after_leaving [OF example_connected, of "js ''a''" Member LeaveClicked "[Leave]"
        "[MessageSubmitted (js ''x''), UploadReady 0, SocketClosed 0]" _ toy 0]
    by (simp add: user_connects_def)
qed

section \<open>Late events\<close>

text \<open>
  C26: The close event of a socket that is not the session's own, arriving while a room is open,
  ends the session all the same: the handler does not look at which socket was closed. This is
  while \<open>intentionalClose\<close> is false: a flag left set by a deliberate leave, whose own close event has
  not come yet, spares the room this once. No call of \<open>connect\<close> waits for the closed socket (it
  would then open the next session).
\<close>

theorem late_close_ends_session:
  assumes "cl_session s = Some ss" and "s_room ss \<noteq> []" and "\<not> cl_intentionalClose s"
    and "w \<noteq> s_ws ss" and "socket_state s w \<noteq> Closed" and "\<forall>pc \<in> set (cl_connects s). pc_ws pc \<noteq> w"
  shows "cl_session (client_step P (SocketClosed w) s) = None
    \<and> Closing \<le> socket_state (client_step P (SocketClosed w) s) (s_ws ss)
    \<and> ui_lobbyError (cl_ui (client_step P (SocketClosed w) s)) =
        js ''Connection lost '' @ em_dash @ js '' the room has ended. Rejoin with a new invite.''"
proof -
  let ?u = "upd_socket w (\<lambda>k. k\<lparr>so_state := Closed\<rparr>) s"
  let ?t = "lobbyError (js ''Connection lost '' @ em_dash @ js '' the room has ended. Rejoin with a new invite.'')
    (teardown True ?u)"
  have u: "cl_session ?u = Some ss" by (simp add: assms(1))
  have close: "onClose ?u = ?t\<lparr>cl_intentionalClose := False\<rparr>"
    using assms(1-3) by (simp add: onClose_def in_room_def Let_def)
  have "cl_connects (onClose ?u) = cl_connects s"
    using teardown_sockets(2) [OF u] by (simp add: close)
  then have "[pc \<leftarrow> cl_connects (onClose ?u). pc_ws pc = w] = []"
    using assms(6) by (simp add: filter_empty_conv)
  then have step: "client_step P (SocketClosed w) s =
      (onClose ?u)\<lparr>cl_connects := [pc \<leftarrow> cl_connects (onClose ?u). pc_ws pc \<noteq> w]\<rparr>"
    using assms(5) by (simp add: client_step_def handle_event_def socket_closed_def Let_def)
  have "cl_session (client_step P (SocketClosed w) s) = None"
    using teardown_session(1) [OF u] by (simp add: step close)
  moreover have "socket_state (client_step P (SocketClosed w) s) = socket_state (teardown True ?u)"
    by (simp add: fun_eq_iff socket_state_def step close)
  ultimately show ?thesis
    using teardown_session(4) [OF u, of True] by (simp add: step close lobbyError_def upd_ui_def)
qed

text \<open>
  A reachable case: the create button is pressed twice while the first socket is still connecting,
  the timer fires before that socket has closed, the second session enters a room, and then the
  first socket's close arrives.
\<close>

definition welcome_json :: json where
  "welcome_json = JObj [(js ''type'', JStr (js ''welcome'')), (js ''room'', JStr (js ''r''))]"

definition second_connected :: client where
  "second_connected = run_steps (client_step toy)
     [CreateClicked [], CreateClicked [], ConnectTimeout 0, SocketOpened 1] (load_page toy example_page)"

definition second_session :: client where
  "second_session = client_step toy (SocketMessage 1 (stringify welcome_json)) second_connected"

lemma second_session_eq: "second_session = onWelcome (server_msg_of welcome_json) second_connected"
proof -
  have "json_parse (stringify welcome_json) = Inr welcome_json"
    by (rule json_roundtrip) (simp add: welcome_json_def)
  moreover have "socket_state second_connected 1 = Open"
    by (simp add: second_connected_def run_defs)
  moreover have "sm_type (server_msg_of welcome_json) = js ''welcome''"
    by (simp add: welcome_json_def server_msg_of_def string_field_def)
  ultimately show ?thesis
    by (simp add: second_session_def client_step_def handle_event_def onMessage_def dispatch_def)
      (simp add: welcome_json_def)
qed

theorem late_close_ends_session_witness:
  "cl_session second_session \<noteq> None \<and> cl_session (client_step toy (SocketClosed 0) second_session) = None"
proof -
  obtain ss where ss: "cl_session second_session = Some ss" "s_room ss = js ''r''" "s_ws ss = 1"
    and rest: "\<not> cl_intentionalClose second_session" "socket_state second_session 0 = Closing"
      "cl_connects second_session = []"
    unfolding second_session_eq
    by (simp add: second_connected_def welcome_json_def server_msg_of_def string_field_def members_field_def
        onWelcome_def with_session_def showRoom_def renderMembers_def ownerIdOf_def or_else_def run_defs)
  then show ?thesis using late_close_ends_session [OF ss(1), of 0 toy] by simp
qed

text \<open>
  C27: A call of \<open>connect\<close> that was waiting for an old socket, when its timer fires after another
  session has begun, replaces that session without a teardown: nothing of the old session is
  zeroed and its socket stays as it was.
\<close>

theorem timer_replaces_session:
  assumes "client_ok s" and "cl_session s = Some ss" and "n < length (cl_connects s)"
    and "s_ws ss < length (cl_sockets s)"
  shows "\<exists>ss'. cl_session (client_step P (ConnectTimeout n) s) = Some ss' \<and> s_ws ss' \<noteq> s_ws ss
    \<and> (\<forall>q \<in> set (secrets_of ss). deref (client_step P (ConnectTimeout n) s) q = deref s q)
    \<and> socket_state (client_step P (ConnectTimeout n) s) (s_ws ss) = socket_state s (s_ws ss)"
proof -
  have "deref (client_step P (ConnectTimeout n) s) q = deref s q" if "q \<in> set (secrets_of ss)" for q
    using secrets_in_store [OF assms(1,2) that] assms(3)
    by (simp add: client_step_def handle_event_def connect_timeout_def resume_connect_def open_session_def
        Let_def split_beta draw_eq alloc_def fresh_key_eq deref_def nth_append upd_session_def)
  then show ?thesis
    using assms(3,4)
    by (auto simp: client_step_def handle_event_def connect_timeout_def resume_connect_def open_session_def
        Let_def split_beta draw_eq alloc_def fresh_key_eq nth_append socket_state_def upd_session_def)
qed

definition third_click :: client where
  "third_click = run_steps (client_step toy)
     [CreateClicked [], CreateClicked [], CreateClicked []] (load_page toy example_page)"

theorem timer_replaces_session_witness:
  "\<exists>ss'. cl_session (client_step toy (ConnectTimeout 0) third_click) = Some ss'
    \<and> s_ws ss' \<noteq> s_ws (the (cl_session third_click))"
proof -
  let ?ss = "the (cl_session third_click)"
  have facts: "cl_session third_click \<noteq> None \<and> 0 < length (cl_connects third_click)
      \<and> s_ws ?ss < length (cl_sockets third_click)" by (simp add: third_click_def run_defs)
  then have ss: "cl_session third_click = Some ?ss" by simp
  have "client_ok third_click" unfolding third_click_def by (rule reachable_ok)
  moreover have "0 < length (cl_connects third_click)" "s_ws ?ss < length (cl_sockets third_click)"
    using facts by blast+
  ultimately show ?thesis using timer_replaces_session [of third_click ?ss 0 toy] ss by blast
qed

text \<open>
  C28: Submitting a valid invite while a session exists (a second press of the join button) forgets
  the invite's code: when the old socket has closed, the redeem message is sent on the new one,
  but the relay's answer to it is ignored.
\<close>

theorem second_join_is_ignored:
  assumes "cl_session s = Some ss" and "parseInvite (js_trim link) = Some (token, code)"
    and "cl_connects s = []" and "socket_state s (s_ws ss) \<noteq> Closed" and "s_ws ss < length (cl_sockets s)"
    and "t = run_steps (client_step P) [JoinSubmitted link nick, SocketClosed (s_ws ss)] s"
  shows "\<exists>ss'. cl_session t = Some ss' \<and> so_hello (cl_sockets t ! s_ws ss') = Redeem token (js_trim nick) (pg_session (cl_page s))
    \<and> cl_pendingJoin t = None \<and> onRedeemOk P msg t = Done t"
proof -
  let ?w = "s_ws ss" and ?hello = "Redeem token (js_trim nick) (pg_session (cl_page s))"
  let ?s0 = "lobbyError [] (lobbyStatus (js ''Redeeming invite'' @ ellipsis) (s\<lparr>cl_pendingJoin := Some (token, code)\<rparr>))"
  let ?pc = "\<lparr>pc_ws = ?w, pc_hello = ?hello, pc_create = False\<rparr>"
  have s0: "cl_session ?s0 = Some ss" by (simp add: assms(1))
  have j: "client_step P (JoinSubmitted link nick) s = (teardown False ?s0)\<lparr>cl_connects := [?pc]\<rparr>"
    using assms(1-3) teardown_sockets(2) [OF s0]
    by (simp add: client_step_def handle_event_def join_submitted_def connect_def Let_def)
  let ?u = "(teardown False ?s0)\<lparr>cl_connects := [?pc]\<rparr>"
  have u: "cl_session ?u = None" "cl_connects ?u = [?pc]" using teardown_session(1) [OF s0] by simp_all
  have "socket_state ?u ?w = socket_state (ws_close ?w ?s0) ?w"
    using teardown_sockets(1) [OF s0] by (simp add: socket_state_def)
  then have "socket_state ?u ?w \<noteq> Closed"
    using assms(4,5) by (auto simp: ws_close_def upd_socket_def socket_state_def)
  then have step: "t = socket_closed P ?w ?u"
    using assms(6) by (simp add: j) (simp add: client_step_def handle_event_def)
  let ?v = "onClose (upd_socket ?w (\<lambda>k. k\<lparr>so_state := Closed\<rparr>) ?u)"
  have v: "cl_session ?v = None" "cl_connects ?v = [?pc]" "cl_pendingJoin ?v = None"
    using onClose_no_session [of "upd_socket ?w (\<lambda>k. k\<lparr>so_state := Closed\<rparr>) ?u"] u
    by (simp_all add: onClose_def in_room_def Let_def teardown_def)
  have "t = open_session P ?hello False (?v\<lparr>cl_connects := []\<rparr>)"
    by (simp add: step socket_closed_def Let_def v resume_connect_def)
  with v(3) show ?thesis
    by (simp add: open_session_def Let_def split_beta draw_eq alloc_def onRedeemOk_def with_session_out_def)
qed

theorem second_join_is_ignored_witness:
  "\<exists>t. run_steps (client_step toy) [JoinSubmitted (js ''#t=a&c=b'') [], SocketClosed 0] just_created = t
    \<and> cl_session t \<noteq> None \<and> (\<forall>msg. onRedeemOk toy msg t = Done t)"
proof -
  let ?ss = "the (cl_session just_created)"
  have facts: "cl_session just_created \<noteq> None \<and> cl_connects just_created = [] \<and> s_ws ?ss = 0
      \<and> socket_state just_created 0 \<noteq> Closed \<and> 0 < length (cl_sockets just_created)"
    by (simp add: just_created_def run_defs)
  then have ss: "cl_session just_created = Some ?ss" by simp
  moreover have "parseInvite (js_trim (js ''#t=a&c=b'')) = Some (js ''a'', js ''b'')" by code_simp
  moreover have "cl_connects just_created = []" "s_ws ?ss = 0" "socket_state just_created 0 \<noteq> Closed"
    "0 < length (cl_sockets just_created)" using facts by blast+
  ultimately show ?thesis
    using second_join_is_ignored [of just_created ?ss "js ''#t=a&c=b''" "js ''a''" "js ''b''" _ toy "[]"] by fastforce
qed

end
