(* ===== verification/Delivery.thy ===== *)
theory Delivery
  imports KeyProperties
begin

text \<open>
  What one client sends and another receives: the key window as a list of byte strings, opening
  what was sealed under a held key, rotated keys, the roster, and the exchange that lets a joiner
  in. Each lemma relates two client states that share only the text of a frame.
\<close>

section \<open>Text written as JSON\<close>

lemma well_formed_append: "well_formed a \<Longrightarrow> well_formed (a @ b) = well_formed b"
proof (induction a rule: well_formed.induct)
  case (2 u)
  then show ?case by (cases b) simp_all
qed (simp_all split: if_splits)

lemma ascii_nat_text: "ascii (nat_text n)"
  using nat_text_digits [of _ n] by (fastforce simp: ascii_def is_digit_def)

lemma ascii_int_text: "ascii (int_text i)"
  by (simp add: int_text_def ascii_nat_text)

lemma well_formed_unit: "\<not> lead_surrogate (unat u) \<Longrightarrow> \<not> trail_surrogate (unat u) \<Longrightarrow> well_formed (u # s) = well_formed s"
  by (cases s) simp_all

lemma ascii_escape: "ascii (unicode_escape u)"
proof -
  have "unat (hex_digit n) < 0x80" if "n < 16" for n using that by (simp add: unat_hex_digit)
  moreover have "unat u < 65536" by (rule unat_u16_less)
  ultimately show ?thesis by (simp add: unicode_escape_def Let_def)
qed

lemma well_formed_quote_single: "well_formed (quote_single u @ s) = well_formed s"
proof (cases "lead_surrogate (unat u) \<or> trail_surrogate (unat u)")
  case True
  then show ?thesis
    using well_formed_append [OF ascii_well_formed [OF ascii_escape [of u]]] by (simp add: quote_single_def)
next
  case False
  then consider "quote_unit u = [u]" | "ascii (quote_unit u)"
    using ascii_escape [of u] by (cases "quote_unit u = [u]") (auto simp: quote_unit_def split: if_splits)
  then show ?thesis
  proof cases
    case 1
    with False show ?thesis by (simp add: quote_single_def well_formed_unit)
  next
    case 2
    with False show ?thesis using well_formed_append [OF ascii_well_formed] by (simp add: quote_single_def)
  qed
qed

lemma well_formed_quote: "well_formed (quote s)"
proof -
  have "well_formed (quote_units s)"
  proof (induction s rule: quote_units.induct)
    case (2 u)
    then show ?case using well_formed_quote_single [of u "[]"] by simp
  next
    case (3 u v s)
    then show ?case by (simp add: well_formed_quote_single)
  qed simp
  moreover have "well_formed [34 :: u16]" by (simp add: lead_surrogate_def trail_surrogate_def)
  moreover have "\<not> lead_surrogate 34" "\<not> trail_surrogate 34" by (simp_all add: lead_surrogate_def trail_surrogate_def)
  ultimately show ?thesis by (simp add: quote_def well_formed_unit well_formed_append)
qed

lemma well_formed_comma_join: "\<forall>x \<in> set xs. well_formed x \<Longrightarrow> well_formed (comma_join xs)"
  by (induction xs rule: comma_join.induct)
    (simp_all add: well_formed_append well_formed_unit lead_surrogate_def trail_surrogate_def)

lemma well_formed_stringify: "well_formed (stringify j)"
proof (induction j)
  case (JBool b)
  then show ?case by (cases b) (simp_all, code_simp+)
next
  case (JDec m k)
  have "ascii (stringify (JDec m k))" by (simp add: ascii_int_text ascii_nat_text)
  then show ?case by (rule ascii_well_formed)
next
  case (JNum i)
  show ?case using ascii_well_formed [OF ascii_int_text] by simp
next
  case (JArr xs)
  then have "well_formed (comma_join (map stringify xs))" by (intro well_formed_comma_join) simp
  then show ?case by (simp add: well_formed_unit well_formed_append lead_surrogate_def trail_surrogate_def)
next
  case (JObj ms)
  have "well_formed (quote k @ 58 # stringify v)" if "(k, v) \<in> set ms" for k v
    using JObj [OF that, of v] well_formed_quote [of k]
    by (simp add: well_formed_append well_formed_unit lead_surrogate_def trail_surrogate_def)
  then have "well_formed (comma_join (map (\<lambda>(k, v). quote k @ 58 # stringify v) ms))"
    by (intro well_formed_comma_join) auto
  then show ?case by (simp add: well_formed_unit well_formed_append lead_surrogate_def trail_surrogate_def)
qed (simp_all add: well_formed_quote, code_simp?)

lemma plain_text_object: "plain_text (stringify (JObj ms))"
  using well_formed_stringify [of "JObj ms"] by (simp add: plain_text_def)

section \<open>Sent frames\<close>

lemma sent_on_keeps [simp]:
  "sent_on (s\<lparr>cl_random := x\<rparr>) w = sent_on s w" "sent_on (s\<lparr>cl_heap := h\<rparr>) w = sent_on s w"
  "sent_on (upd_ui f s) w = sent_on s w" "sent_on (upd_session g s) w = sent_on s w"
  "sent_on (addMessage n b m s) w = sent_on s w"
  by (rule sent_on_cong, simp)+

lemma connected_keeps [simp]:
  "connected ss (s\<lparr>cl_random := x\<rparr>) = connected ss s" "connected ss (s\<lparr>cl_heap := h\<rparr>) = connected ss s"
  by (simp_all add: connected_def)

section \<open>The key window as a list of keys\<close>

definition held_keys :: "client \<Rightarrow> bytes list" where
  "held_keys s = (case cl_session s of None \<Rightarrow> [] | Some ss \<Rightarrow> map (deref s) (s_keys ss))"

text \<open>The contract of \<open>pushKey\<close>: a key in front, at most five kept.\<close>

definition window_push :: "bytes \<Rightarrow> bytes list \<Rightarrow> bytes list" where
  "window_push k ks = take 5 (k # ks)"

lemma alloc_push:
  assumes ok: "client_ok s" and ss: "cl_session s = Some ss" and new: "alloc b s = (r, s1)"
  shows "cl_session (pushKey r s1) = Some (ss\<lparr>s_keys := take MAX_KEPT_KEYS (r # s_keys ss)\<rparr>)"
    and "held_keys (pushKey r s1) = window_push b (held_keys s)"
    and "q \<in> set (drop 4 (s_keys ss)) \<Longrightarrow> deref (pushKey r s1) q = replicate 32 0"
    and "other_ref (shape s) (drop 4 (s_keys ss)) q \<Longrightarrow> deref (pushKey r s1) q = deref s q"
    and "cl_sockets (pushKey r s1) = cl_sockets s" and "cl_random (pushKey r s1) = cl_random s"
proof -
  note new = alloc_eq [OF new]
  have s1: "cl_session s1 = Some ss" by (simp add: new(2) ss)
  note push = pushKey_session [OF s1, of r]
  show "cl_session (pushKey r s1) = Some (ss\<lparr>s_keys := take MAX_KEPT_KEYS (r # s_keys ss)\<rparr>)" by (rule push(1))
  have drop: "drop MAX_KEPT_KEYS (r # s_keys ss) = drop 4 (s_keys ss)" by (simp add: MAX_KEPT_KEYS_def)
  have sok: "session_ok (shape s) (length (cl_views s)) ss" by (rule client_ok_session [OF ok ss])
  have fresh: "r \<notin> set (s_keys ss)" using fresh_ref_not_key [OF ok ss] by (simp add: new(1) shape_def)
  have keys: "q < length (cl_heap s)" "length (deref s q) = 32" if "q \<in> set (s_keys ss)" for q
    using sok that by (auto simp: session_ok_def shape_def deref_def KEY_LEN_def)
  have d1: "deref s1 q = (if q = r then b else deref s q)" for q
    using new(3) new(5) [of q] by auto
  show "deref (pushKey r s1) q = replicate 32 0" if "q \<in> set (drop 4 (s_keys ss))"
    using that keys [OF in_set_dropD [OF that]] fresh
    by (auto simp: push(2) drop d1 wiped_def dest: in_set_dropD)
  show "deref (pushKey r s1) q = deref s q" if "other_ref (shape s) (drop 4 (s_keys ss)) q"
  proof -
    have "q \<noteq> r" using that by (simp add: other_ref_def new(1) shape_def)
    then show ?thesis using that by (simp add: push(2) drop d1 other_ref_def)
  qed
  have "deref (pushKey r s1) q = (if q = r then b else deref s q)" if "q \<in> set (take 5 (r # s_keys ss))" for q
  proof -
    have "distinct (r # s_keys ss)" using sok fresh by (simp add: session_ok_def)
    from kept_not_dropped [OF this that] show ?thesis by (simp add: push(2) MAX_KEPT_KEYS_def d1)
  qed
  then have "map (deref (pushKey r s1)) (take 5 (r # s_keys ss)) = map (\<lambda>q. if q = r then b else deref s q) (take 5 (r # s_keys ss))"
    by (rule map_cong [OF refl])
  moreover have "map (\<lambda>q. if q = r then b else deref s q) (s_keys ss) = map (deref s) (s_keys ss)"
    using fresh by (intro map_cong) auto
  ultimately show "held_keys (pushKey r s1) = window_push b (held_keys s)"
    by (simp add: held_keys_def push(1) ss window_push_def MAX_KEPT_KEYS_def flip: take_map)
  show "cl_sockets (pushKey r s1) = cl_sockets s" "cl_random (pushKey r s1) = cl_random s"
    unfolding push(3,4) by (simp_all add: new(2))
qed

lemma ok_lengths:
  assumes "client_ok s" and "cl_session s = Some ss"
  shows "length (deref s (s_priv ss)) = 32" and "q \<in> set (s_keys ss) \<Longrightarrow> length (deref s q) = 32"
    and "key \<in> set (held_keys s) \<Longrightarrow> length key = 32"
proof -
  have sok: "session_ok (shape s) (length (cl_views s)) ss" by (rule client_ok_session [OF assms])
  then have "s_priv ss < length (shape s)" "shape s ! s_priv ss = 32" by (simp_all add: session_ok_def other_ref_def)
  then show "length (deref s (s_priv ss)) = 32" by (simp add: deref_def shape_def)
  have key: "length (deref s q) = 32" if "q \<in> set (s_keys ss)" for q
    using sok that by (auto simp: session_ok_def shape_def deref_def KEY_LEN_def)
  then show "q \<in> set (s_keys ss) \<Longrightarrow> length (deref s q) = 32" .
  show "key \<in> set (held_keys s) \<Longrightarrow> length key = 32"
    using key assms(2) by (auto simp: held_keys_def)
qed

section \<open>Opening under a held key\<close>

lemma decrypt_first_skips:
  "\<forall>k \<in> set ks. \<exists>e. decryptMessage P k env = Inl e \<Longrightarrow> decrypt_first P (ks @ ls) env = decrypt_first P ls env"
  by (induction ks) auto

text \<open>A text sealed under a key the receiver holds, where no key in front of it opens the envelope.\<close>

lemma decryptAny_held:
  assumes "aead_ok P" and "length key = 32" and "plain_text text"
    and "held_keys s = ks @ key # ls"
    and "\<forall>k \<in> set ks. \<exists>e. decryptMessage P k (fst (encryptMessage P key text pos)) = Inl e"
  shows "decryptAny P (fst (encryptMessage P key text pos)) s = Some text"
proof -
  have "decryptMessage P key (fst (encryptMessage P key text pos)) = Inr text"
    using assms(1-3) by (simp add: decrypt_encrypt KEY_LEN_def)
  then have "decrypt_first P (ks @ key # ls) (fst (encryptMessage P key text pos)) = Some text"
    using decrypt_first_skips [OF assms(5), of "key # ls"] by simp
  then show ?thesis
    using assms(4) by (cases "cl_session s") (simp_all add: held_keys_def decryptAny_def)
qed

section \<open>The roster\<close>

text \<open>The public keys a client would publish, in the order of the object, and the ones it has on file.\<close>

definition roster_list :: "client \<Rightarrow> session \<Rightarrow> (jsstr \<times> bytes) list" where
  "roster_list s ss = foldl (\<lambda>ms (i, r). map_set i (deref s r) ms) [(s_memberId ss, s_pub ss)] (s_memberPubs ss)"

definition pub_on_file :: "client \<Rightarrow> jsstr \<Rightarrow> bytes option" where
  "pub_on_file s i =
     (case cl_session s of None \<Rightarrow> None | Some ss \<Rightarrow> map_option (deref s) (map_of (s_memberPubs ss) i))"

lemma map_set_values: "map (\<lambda>(k, v). (k, f v)) (map_set k v m) = map_set k (f v) (map (\<lambda>(k, v). (k, f v)) m)"
  by (induction k v m rule: map_set.induct) auto

lemma roster_json_eq:
  "roster_json s ss = JObj (map (\<lambda>(i, b). (i, JStr (bytesToB64url b))) (roster_list s ss))"
proof -
  have "map (\<lambda>(i, b). (i, JStr (bytesToB64url b))) (foldl (\<lambda>ms (i, r). map_set i (deref s r) ms) acc m) =
      foldl (\<lambda>ms (i, r). map_set i (JStr (bytesToB64url (deref s r))) ms)
        (map (\<lambda>(i, b). (i, JStr (bytesToB64url b))) acc) m" for acc and m :: "(jsstr, ref) js_map"
    by (induction m arbitrary: acc) (auto simp: map_set_values [where f = "\<lambda>b. JStr (bytesToB64url b)"])
  from this [of "[(s_memberId ss, s_pub ss)]" "s_memberPubs ss"] show ?thesis
    by (simp add: roster_json_def roster_list_def)
qed

lemma roster_list_distinct: "distinct (map fst (roster_list s ss))"
  unfolding roster_list_def
  by (rule foldl_preserves [where I = "\<lambda>ms. distinct (map fst ms)"]) (auto simp: distinct_map_set)

lemma roster_list_lookup:
  assumes "distinct (map fst (s_memberPubs ss))"
  shows "map_of (roster_list s ss) i =
    (case map_of (s_memberPubs ss) i of Some r \<Rightarrow> Some (deref s r)
     | None \<Rightarrow> if i = s_memberId ss then Some (s_pub ss) else None)"
proof -
  have "foldl (\<lambda>ms (i, r). map_set i (deref s r) ms) acc m =
      foldl (\<lambda>ms (i, b). map_set i b ms) acc (map (\<lambda>(i, r). (i, deref s r)) m)" for acc and m :: "(jsstr, ref) js_map"
    by (induction m arbitrary: acc) auto
  moreover have "distinct (map fst (map (\<lambda>(i, r). (i, deref s r)) (s_memberPubs ss)))"
    using assms by (simp add: comp_def split_beta)
  moreover have "map_of (map (\<lambda>(i, r). (i, deref s r)) m) i = map_option (deref s) (map_of m i)" for m :: "(jsstr, ref) js_map"
    by (induction m) auto
  ultimately show ?thesis
    by (simp add: roster_list_def js_map.lookup_puts split: option.split)
qed

lemma set_member_pub_step:
  assumes ok: "client_ok s" and ss: "cl_session s = Some ss"
  shows "\<exists>t. set_member_pub (i, JStr (bytesToB64url b)) s = Done t \<and> client_ok t \<and> cl_session t \<noteq> None
    \<and> (\<forall>j. pub_on_file t j = (if j = i then Some b else pub_on_file s j))"
proof -
  obtain r s1 where new: "alloc b s = (r, s1)" by (cases "alloc b s")
  let ?t = "upd_session (\<lambda>x. x\<lparr>s_memberPubs := map_set i r (s_memberPubs x)\<rparr>) s1"
  have step: "set_member_pub (i, JStr (bytesToB64url b)) s = Done ?t"
    by (simp add: set_member_pub_def b64url_roundtrip new)
  have "client_ok ?t" using ok_set_member_pub [OF ok, of "(i, JStr (bytesToB64url b))"] by (simp add: step)
  moreover have s1: "cl_session s1 = Some ss" using alloc_eq(2) [OF new] ss by simp
  moreover have "pub_on_file ?t j = (if j = i then Some b else pub_on_file s j)" for j
  proof -
    have "deref s1 q = deref s q" if "map_of (s_memberPubs ss) j = Some q" for q
    proof (rule alloc_eq(4) [OF new])
      have "values_sat (other_ref (shape s) (s_keys ss)) (s_memberPubs ss)"
        using client_ok_session [OF ok ss] by (simp add: session_ok_def)
      from values_sat_get [OF this that] show "q < length (cl_heap s)" by (simp add: other_ref_def shape_def)
    qed
    moreover have "deref ?t q = deref s1 q" for q by (simp add: deref_def)
    ultimately show ?thesis
      using alloc_eq(3) [OF new]
      by (cases "map_of (s_memberPubs ss) j") (simp_all add: pub_on_file_def s1 ss map_of_map_set)
  qed
  ultimately show ?thesis using step by (intro exI [of _ ?t]) simp
qed

lemma set_member_pubs:
  assumes "client_ok s" and "cl_session s \<noteq> None" and "distinct (map fst bs)"
  shows "\<exists>t. for_each set_member_pub (map (\<lambda>(i, b). (i, JStr (bytesToB64url b))) bs) s = Done t
    \<and> (\<forall>j. pub_on_file t j = (case map_of bs j of Some b \<Rightarrow> Some b | None \<Rightarrow> pub_on_file s j))"
  using assms
proof (induction bs arbitrary: s)
  case (Cons e bs)
  obtain i b where e: "e = (i, b)" by (cases e)
  obtain ss where ss: "cl_session s = Some ss" using Cons.prems(2) by auto
  obtain u where u: "set_member_pub (i, JStr (bytesToB64url b)) s = Done u" "client_ok u" "cl_session u \<noteq> None"
    and first: "\<And>j. pub_on_file u j = (if j = i then Some b else pub_on_file s j)"
    using set_member_pub_step [OF Cons.prems(1) ss, of i b] by blast
  obtain t where "for_each set_member_pub (map (\<lambda>(i, b). (i, JStr (bytesToB64url b))) bs) u = Done t"
    and rest: "\<And>j. pub_on_file t j = (case map_of bs j of Some b \<Rightarrow> Some b | None \<Rightarrow> pub_on_file u j)"
    using Cons.IH [OF u(2,3)] Cons.prems(3) by auto
  moreover have "map_of bs i = None" using Cons.prems(3) e by (simp add: map_of_eq_None_iff)
  ultimately show ?case using u(1) by (auto simp: e first split: option.split)
qed simp

end
