(* ===== verification/DeliveryProperties.thy ===== *)
theory DeliveryProperties
  imports Delivery ClientExamples
begin

text \<open>
  Properties that span two clients: the frame one of them sends, unchanged by the relay, has the
  intended effect at the other.
\<close>

section \<open>The key window\<close>

text \<open>
  C11: Taking a new key into the window refines the abstract window: the byte strings held
  afterwards are the new key followed by the old ones, cut to five; the arrays that fall out are
  zeroed and every other array keeps its bytes.
\<close>

theorem key_window_refines:
  assumes "client_ok s" and "cl_session s = Some ss" and "alloc b s = (r, s1)"
  shows "held_keys (pushKey r s1) = window_push b (held_keys s)
    \<and> (\<forall>q \<in> set (drop 4 (s_keys ss)). deref (pushKey r s1) q = replicate 32 0)
    \<and> (\<forall>q < length (cl_heap s). q \<notin> set (drop 4 (s_keys ss)) \<longrightarrow> deref (pushKey r s1) q = deref s q)"
  using alloc_push [OF assms] by (simp add: other_ref_def shape_def)

theorem key_window_refines_witness:
  "held_keys (pushKey 5 (snd (alloc (replicate 32 9) (example_client (js ''o'') Owner)))) =
    [replicate 32 9, replicate 32 7]"
proof -
  let ?s = "example_client (js ''o'') Owner" and ?b = "replicate 32 (9 :: byte)"
  have ss: "cl_session ?s = Some (example_session (js ''o'') Owner)" by (simp add: example_client_def)
  have new: "alloc ?b ?s = (5, snd (alloc ?b ?s))" by (simp add: alloc_def example_client_def)
  have "held_keys (pushKey 5 (snd (alloc ?b ?s))) = window_push ?b (held_keys ?s)"
    using key_window_refines [OF example_client_ok ss new] by blast
  also have "held_keys ?s = [replicate 32 7]"
    by (simp add: held_keys_def example_client_def example_session_def deref_def)
  finally show ?thesis by (simp add: window_push_def)
qed

section \<open>Rotated keys\<close>

text \<open>
  C8: A rotated key reaches the member it is sent to: if the owner has the member's public key on
  file and the member the owner's, then what the owner's \<open>rekeyMember\<close> sends makes the member's
  \<open>onRekey\<close> put exactly that key in front of its window.
\<close>

theorem rotated_key_reaches_member:
  assumes "aead_ok P" "hkdf_ok P" "x25519_ok P"
    and "client_ok sO" "connected ssO sO" "client_ok sM" "cl_session sM = Some ssM"
    and "map_of (s_memberPubs ssO) i = Some rM" "deref sO rM = x25519_public P (deref sM (s_priv ssM))"
    and "map_of (s_memberPubs ssM) (s_ownerId ssM) = Some rO" "deref sM rO = x25519_public P (deref sO (s_priv ssO))"
    and "length (deref sO k) = 32"
  shows "\<exists>env t. rekeyMember P i k sO = Done t
    \<and> sent_on t (s_ws ssO) = sent_on sO (s_ws ssO) @ [client_msg_text (Rekey i env)]
    \<and> (\<forall>m. sm_data m = Some env \<longrightarrow> held_keys (onRekey P m sM) = window_push (deref sO k) (held_keys sM))"
proof -
  have ss: "cl_session sO = Some ssO" using assms(5) by (rule connected_session)
  have len: "length (deref sO (s_priv ssO)) = 32" "length (deref sM (s_priv ssM)) = 32"
    by (rule ok_lengths(1) [OF assms(4) ss], rule ok_lengths(1) [OF assms(6,7)])
  obtain env where seal: "sealRoomKey P (deref sO (s_priv ssO)) (deref sO rM) (deref sO k) (cl_random sO) =
      Inr (env, cl_random sO + NONCE_LEN)"
    and open_env: "openRoomKey P (deref sM (s_priv ssM)) (deref sM rO) env = Inr (deref sO k)"
    using open_seal_room_key [OF assms(1-3) len, of "deref sO k" "cl_random sO"] assms(9,11,12)
    by (auto simp: KEY_LEN_def)
  let ?u = "sO\<lparr>cl_random := cl_random sO + NONCE_LEN\<rparr>"
  have "rekeyMember P i k sO = Done (send (Rekey i env) ?u)"
    using seal ss assms(8) by (simp add: rekeyMember_def with_session_out_def)
  moreover have "connected ssO ?u" using assms(5) by (simp add: connected_def)
  from sent_send(1) [OF this] have "sent_on (send (Rekey i env) ?u) (s_ws ssO) =
      sent_on sO (s_ws ssO) @ [client_msg_text (Rekey i env)]"
    by (simp add: sent_on_def)
  moreover have "held_keys (onRekey P m sM) = window_push (deref sO k) (held_keys sM)" if "sm_data m = Some env" for m
  proof -
    obtain r s1 where new: "alloc (deref sO k) sM = (r, s1)" by (cases "alloc (deref sO k) sM")
    have "onRekey P m sM = pushKey r s1"
      using that assms(7,10) open_env new by (simp add: onRekey_def with_session_def)
    then show ?thesis using alloc_push(2) [OF assms(6,7) new] by simp
  qed
  ultimately show ?thesis by blast
qed

text \<open>The owner \<open>o\<close> and the member \<open>a\<close> of the example room, with key pairs that belong together.\<close>

definition example_pair_client :: "jsstr \<Rightarrow> member_role \<Rightarrow> byte \<Rightarrow> client" where
  "example_pair_client me r own = (example_client me r)
     \<lparr>cl_heap := [replicate 32 7, replicate 32 own, replicate 32 2, replicate 32 3, replicate 32 4]\<rparr>"

lemma example_pair_ok: "client_ok (example_pair_client me r own)"
  by (simp add: example_pair_client_def client_ok_def example_client_def example_session_def initial_client_def
      session_ok_def shape_def other_ref_def values_sat_def KEY_LEN_def MAX_KEPT_KEYS_def nth_Cons')

lemma example_pair_facts:
  "connected (example_session me r) (example_pair_client me r own)"
  "cl_session (example_pair_client me r own) = Some (example_session me r)"
  "deref (example_pair_client me r own) 0 = replicate 32 7" "deref (example_pair_client me r own) 1 = replicate 32 own"
  "deref (example_pair_client me r own) 2 = replicate 32 2" "deref (example_pair_client me r own) 4 = replicate 32 4"
  by (simp_all add: example_pair_client_def example_client_def connected_def example_session_def open_socket_def
      deref_def)

theorem rotated_key_reaches_member_witness:
  "\<exists>env t. rekeyMember toy (js ''a'') 0 (example_pair_client (js ''o'') Owner 4) = Done t
    \<and> held_keys (onRekey toy (server_msg_of (JObj [(js ''data'', JStr env)])) (example_pair_client (js ''a'') Member 2))
      = [replicate 32 7, replicate 32 7]"
proof -
  let ?sO = "example_pair_client (js ''o'') Owner 4" and ?sM = "example_pair_client (js ''a'') Member 2"
  let ?ssO = "example_session (js ''o'') Owner" and ?ssM = "example_session (js ''a'') Member"
  have "x25519_public toy b = b" for b by (simp add: toy_def)
  moreover have "map_of (s_memberPubs ?ssO) (js ''a'') = Some 2" "map_of (s_memberPubs ?ssM) (s_ownerId ?ssM) = Some 4"
    "s_priv ?ssO = 1" "s_priv ?ssM = 1"
    by (simp_all add: example_session_def)
  ultimately obtain env t where "rekeyMember toy (js ''a'') 0 ?sO = Done t"
    and deliver: "\<And>m. sm_data m = Some env \<Longrightarrow>
      held_keys (onRekey toy m ?sM) = window_push (deref ?sO 0) (held_keys ?sM)"
    using rotated_key_reaches_member [where sO = ?sO and ssO = ?ssO and sM = ?sM and ssM = ?ssM
        and i = "js ''a''" and rM = 2 and rO = 4 and k = 0, OF toy_aead_ok toy_hkdf_ok toy_x25519_ok example_pair_ok
        example_pair_facts(1) example_pair_ok example_pair_facts(2)]
    by (auto simp: example_pair_facts simp del: One_nat_def)
  moreover have "sm_data (server_msg_of (JObj [(js ''data'', JStr env)])) = Some env"
    by (simp add: server_msg_of_def string_field_def)
  moreover have "held_keys ?sM = [replicate 32 7]"
    by (simp add: held_keys_def example_pair_facts) (simp add: example_session_def example_pair_facts)
  ultimately show ?thesis by (auto simp: window_push_def example_pair_facts)
qed

section \<open>Messages\<close>

lemma message_submitted_sends:
  assumes "connected ss s" and "s_keys ss = k # ks" and "js_trim body \<noteq> []" and "cl_staged s = None"
  shows "message_submitted P body s = addMessage (js ''you'') body True
      (send (Msg (fst (encryptMessage P (deref s k) body (cl_random s)))) (s\<lparr>cl_random := cl_random s + NONCE_LEN\<rparr>))"
  using assms connected_session [OF assms(1)]
  by (simp add: message_submitted_def with_session_def draw_eq Let_def)

text \<open>
  C7: A message typed by one member is shown to another exactly as typed: it is sent in one
  frame, sealed under the sender's newest key, and whoever holds that key (with no newer key that
  opens the envelope by accident) shows that text under the name the relay attaches. The text
  must be one that UTF-8 carries unchanged.
\<close>

theorem message_reaches_member:
  assumes "aead_ok P" and "client_ok sA" and "connected ssA sA" and "s_keys ssA = k # rest"
    and "js_trim body \<noteq> []" and "plain_text body" and "cl_staged sA = None"
    and "held_keys sB = newer @ deref sA k # older"
    and "\<forall>q \<in> set newer. \<exists>e. decryptMessage P q (fst (encryptMessage P (deref sA k) body (cl_random sA))) = Inl e"
  shows "\<exists>env. sent_on (message_submitted P body sA) (s_ws ssA) = sent_on sA (s_ws ssA) @ [client_msg_text (Msg env)]
    \<and> ui_messages (cl_ui (message_submitted P body sA)) = ui_messages (cl_ui sA) @ [TextItem (js ''you'') body True]
    \<and> (\<forall>m nick. sm_type m = js ''chat'' \<and> sm_body m = Some env \<and> sm_nick m = Some nick \<longrightarrow>
        dispatch P m sB = Done (addMessage nick body False sB))"
proof -
  let ?env = "fst (encryptMessage P (deref sA k) body (cl_random sA))"
  let ?u = "sA\<lparr>cl_random := cl_random sA + NONCE_LEN\<rparr>"
  have "length (deref sA k) = 32"
    using ok_lengths(2) [OF assms(2) connected_session [OF assms(3)], of k] assms(4) by simp
  from decryptAny_held [OF assms(1) this assms(6,8,9)]
  have "decryptAny P ?env sB = Some body" .
  then have "dispatch P m sB = Done (addMessage nick body False sB)"
    if "sm_type m = js ''chat''" "sm_body m = Some ?env" "sm_nick m = Some nick" for m nick
    using that by (simp add: dispatch_def or_else_def)
  moreover have "connected ssA ?u" using assms(3) by (simp add: connected_def)
  from sent_send(1) [OF this, of "Msg ?env"]
  have "sent_on (message_submitted P body sA) (s_ws ssA) = sent_on sA (s_ws ssA) @ [client_msg_text (Msg ?env)]"
    unfolding message_submitted_sends [OF assms(3,4,5,7)] by simp
  moreover have "ui_messages (cl_ui (message_submitted P body sA)) = ui_messages (cl_ui sA) @ [TextItem (js ''you'') body True]"
    unfolding message_submitted_sends [OF assms(3,4,5,7)] by (simp add: addMessage_def upd_ui_def)
  ultimately show ?thesis by blast
qed

theorem message_reaches_member_witness:
  "\<exists>env. sent_on (message_submitted toy (js ''hi'') (example_client (js ''o'') Owner)) 0 = [client_msg_text (Msg env)]
    \<and> (\<forall>m. sm_type m = js ''chat'' \<and> sm_body m = Some env \<and> sm_nick m = Some (js ''n'') \<longrightarrow>
        dispatch toy m (example_client (js ''a'') Member)
          = Done (addMessage (js ''n'') (js ''hi'') False (example_client (js ''a'') Member)))"
proof -
  let ?s = "example_client (js ''o'') Owner" and ?ss = "example_session (js ''o'') Owner"
  have keys: "s_keys ?ss = 0 # []" "s_ws ?ss = 0" "cl_staged ?s = None" "sent_on ?s 0 = []"
    by (simp_all add: example_session_def example_client_def initial_client_def sent_on_def open_socket_def)
  have "js_trim (js ''hi'') \<noteq> [] \<and> plain_text (js ''hi'')" by code_simp
  then have words: "js_trim (js ''hi'') \<noteq> []" "plain_text (js ''hi'')" by blast+
  have held: "held_keys (example_client (js ''a'') Member) = [] @ deref ?s 0 # []"
    by (simp add: held_keys_def example_client_def example_session_def deref_def)
  from message_reaches_member [OF toy_aead_ok example_client_ok example_connected keys(1) words keys(3) held]
  show ?thesis by (auto simp: keys)
qed

section \<open>The roster\<close>

lemma wf_roster_json: "wf_json (roster_json s ss)"
proof -
  have "map fst (map (\<lambda>(i, b). (i, JStr (bytesToB64url b))) m) = map fst m" for m :: "(jsstr \<times> bytes) list"
    by (simp add: split_beta)
  then show ?thesis
    using roster_list_distinct [of s ss] by (auto simp: roster_json_eq list_all_iff simp del: map_map)
qed

text \<open>
  C9: The roster replicates: after a member has opened the roster the owner publishes, it has on
  file the owner's public key and the key the owner has on file for each member, byte for byte,
  and keeps what it had for everyone else.
\<close>

theorem roster_replicates:
  assumes "aead_ok P" and "client_ok sO" and "connected ssO sO" and "s_role ssO = Owner" and "s_keys ssO = k # rest"
    and "client_ok sM" and "held_keys sM = newer @ deref sO k # older"
    and "\<forall>q \<in> set newer. \<exists>e. decryptMessage P q
      (fst (encryptMessage P (deref sO k) (stringify (roster_json sO ssO)) (cl_random sO))) = Inl e"
  shows "\<exists>env. sent_on (broadcastRoster P sO) (s_ws ssO) = sent_on sO (s_ws ssO) @ [client_msg_text (Roster env)]
    \<and> (\<forall>i. pub_on_file (applyRoster P env sM) i =
        (case map_of (s_memberPubs ssO) i of Some r \<Rightarrow> Some (deref sO r)
         | None \<Rightarrow> if i = s_memberId ssO then Some (s_pub ssO) else pub_on_file sM i))"
proof -
  let ?text = "stringify (roster_json sO ssO)"
  let ?env = "fst (encryptMessage P (deref sO k) ?text (cl_random sO))"
  let ?es = "map (\<lambda>(i, b). (i, JStr (bytesToB64url b))) (roster_list sO ssO)"
  obtain ssM where ssM: "cl_session sM = Some ssM" using assms(7) by (cases "cl_session sM") (auto simp: held_keys_def)
  have ssO: "cl_session sO = Some ssO" using assms(3) by (rule connected_session)
  have "length (deref sO k) = 32" using ok_lengths(2) [OF assms(2) ssO, of k] assms(5) by simp
  moreover have "plain_text ?text" unfolding roster_json_eq by (rule plain_text_object)
  ultimately have "decryptAny P ?env sM = Some ?text" by (rule decryptAny_held [OF assms(1) _ _ assms(7,8)])
  moreover have "json_parse ?text = Inr (JObj ?es)" "?text \<noteq> []"
    using json_roundtrip [OF wf_roster_json, of sO ssO] by (simp_all add: roster_json_eq)
  ultimately have apply_eq: "applyRoster P ?env sM = state_of (for_each set_member_pub ?es sM)"
    by (simp add: applyRoster_def with_session_def ssM object_entries_def)
  obtain t where "for_each set_member_pub ?es sM = Done t"
    and t: "\<And>j. pub_on_file t j = (case map_of (roster_list sO ssO) j of Some b \<Rightarrow> Some b | None \<Rightarrow> pub_on_file sM j)"
    using set_member_pubs [OF assms(6) _ roster_list_distinct, of sO ssO] ssM by auto
  then have "applyRoster P ?env sM = t" by (simp add: apply_eq)
  moreover have "distinct (map fst (s_memberPubs ssO))"
    using client_ok_session [OF assms(2) ssO] by (simp add: session_ok_def)
  note roster_list_lookup [OF this, of sO]
  ultimately have "pub_on_file (applyRoster P ?env sM) i =
      (case map_of (s_memberPubs ssO) i of Some r \<Rightarrow> Some (deref sO r)
       | None \<Rightarrow> if i = s_memberId ssO then Some (s_pub ssO) else pub_on_file sM i)" for i
    by (simp add: t split: option.split)
  then show ?thesis using broadcastRoster_connected(1) [OF assms(3,4,5), of P] by blast
qed

theorem roster_replicates_witness:
  "\<exists>env. sent_on (broadcastRoster toy (example_pair_client (js ''o'') Owner 4)) 0 = [client_msg_text (Roster env)]
    \<and> pub_on_file (applyRoster toy env (example_client (js ''a'') Member)) (js ''o'') = Some (replicate 32 4)
    \<and> pub_on_file (applyRoster toy env (example_client (js ''a'') Member)) (js ''b'') = Some (replicate 32 3)"
proof -
  let ?s = "example_pair_client (js ''o'') Owner 4" and ?ss = "example_session (js ''o'') Owner"
  let ?m = "example_client (js ''a'') Member"
  have ss: "s_role ?ss = Owner" "s_keys ?ss = 0 # []" "s_ws ?ss = 0" "sent_on ?s 0 = []"
      "map_of (s_memberPubs ?ss) (js ''o'') = Some 4" "map_of (s_memberPubs ?ss) (js ''b'') = Some 3"
    by (simp_all add: example_session_def sent_on_def example_pair_client_def example_client_def open_socket_def)
  have b: "deref ?s 3 = replicate 32 3"
    by (simp add: example_pair_client_def example_client_def deref_def)
  have held: "held_keys ?m = [] @ deref ?s 0 # []"
    by (simp add: held_keys_def example_pair_facts) (simp add: example_client_def example_session_def deref_def)
  from roster_replicates [OF toy_aead_ok example_pair_ok example_pair_facts(1) ss(1,2) example_client_ok held]
  obtain env where "sent_on (broadcastRoster toy ?s) 0 = [client_msg_text (Roster env)]"
    and on_file: "\<And>i. pub_on_file (applyRoster toy env ?m) i =
      (case map_of (s_memberPubs ?ss) i of Some r \<Rightarrow> Some (deref ?s r)
       | None \<Rightarrow> if i = s_memberId ?ss then Some (s_pub ?ss) else pub_on_file ?m i)"
    by (auto simp: ss(3,4))
  then show ?thesis using on_file [of "js ''o''"] on_file [of "js ''b''"] ss(5,6) by (auto simp: b example_pair_facts)
qed

end
