(* ===== verification/Admission.thy ===== *)
theory Admission
  imports Delivery
begin

text \<open>
  Letting a joiner in: what the owner's \<open>onMemberKey\<close> does with the joiner's public key, and what
  the joiner does with the owner's public key and the room key, in whichever order they arrive.
\<close>

lemma and_then_eq_Done: "and_then r f = Done t \<longleftrightarrow> (\<exists>s. r = Done s \<and> f s = Done t)"
  by (cases r) simp_all

section \<open>The owner's rotation for a joiner\<close>

lemma session_refs:
  assumes "client_ok s" and "cl_session s = Some ss"
  shows "other_ref (shape s) (s_keys ss) (s_priv ss)"
    and "map_of (s_memberPubs ss) i = Some r \<Longrightarrow> other_ref (shape s) (s_keys ss) r"
    and "map_of (s_handshakes ss) h = Some rec \<Longrightarrow> hr_ke rec = Some r \<Longrightarrow> other_ref (shape s) (s_keys ss) r"
    and "s_firstOwnerPub ss = Some r \<Longrightarrow> other_ref (shape s) (s_keys ss) r"
  using client_ok_session [OF assms] by (auto simp: session_ok_def dest: values_sat_get)

lemma other_ref_in_store: "other_ref (shape s) ks r \<Longrightarrow> r < length (cl_heap s)"
  by (simp add: other_ref_def shape_def)

lemma other_ref_kept: "other_ref sh ks q \<Longrightarrow> q \<notin> set (drop MAX_KEPT_KEYS (k # ks))"
  using dropped_in_tail [of q k ks] by (auto simp: other_ref_def)

text \<open>A fresh key in front of the window: the window's bytes, as in \<open>window_push\<close>.\<close>

lemma fresh_push_window:
  assumes ok: "client_ok s" and ss: "cl_session s = Some ss" and new: "fresh_key P s = (k, s1)"
  shows "held_keys (pushKey k s1) = window_push (fst (generateRoomKey P (cl_random s))) (held_keys s)"
proof -
  let ?s = "s\<lparr>cl_random := cl_random s + KEY_LEN\<rparr>"
  have "alloc (fst (generateRoomKey P (cl_random s))) ?s = (k, s1)"
    using new by (simp add: fresh_key_eq alloc_def)
  moreover have "client_ok ?s" by (rule ok_fields) (rule ok)
  moreover have "cl_session ?s = Some ss" by (simp add: ss)
  moreover have "held_keys ?s = held_keys s" unfolding held_keys_def deref_keeps by simp
  ultimately show ?thesis using alloc_push(2) by metis
qed

text \<open>Delivering the key to the joiner: the first handshake record of that member id.\<close>

definition deliver_key :: "'p prims \<Rightarrow> session \<Rightarrow> jsstr \<Rightarrow> ref \<Rightarrow> ref \<Rightarrow> client \<Rightarrow> client outcome" where
  "deliver_key P ss hsId pub k t =
     (case sealRoomKey P (deref t (s_priv ss)) (deref t pub) (deref t k) (cl_random t) of
        Inl e \<Rightarrow> Throws e t
      | Inr (env, pos) \<Rightarrow> Done (send (KeyDeliver hsId env) (t\<lparr>cl_random := pos\<rparr>)))"

lemma rotateForJoin_eq:
  assumes "cl_session s = Some ss" and "fresh_key P s = (k, s1)"
    and "find (\<lambda>e. hr_joiner (snd e) = Some j) (s_handshakes ss) = Some (hsId, rec)" and "hsId \<noteq> []"
  shows "rotateForJoin P j pub s =
    and_then (deliver_key P ss hsId pub k (pushKey k s1)) (\<lambda>t.
    and_then (for_each (\<lambda>i. rekeyMember P i k) [i \<leftarrow> s_knownMembers ss. i \<noteq> s_memberId ss \<and> i \<noteq> j] t) (\<lambda>t2.
      Done (upd_session (\<lambda>x. x\<lparr>s_knownMembers := set_add j (s_knownMembers x)\<rparr>) t2)))"
  using assms by (simp add: rotateForJoin_def with_session_out_def deliver_key_def Let_def)

lemma deliver_key_done:
  assumes "connected ss' t" and "s_ws ss' = s_ws ss" and "deliver_key P ss hsId pub k t = Done u"
  obtains env pos where "sealRoomKey P (deref t (s_priv ss)) (deref t pub) (deref t k) (cl_random t) = Inr (env, pos)"
    and "connected ss' u" and "deref u = deref t"
    and "sent_on u (s_ws ss) = sent_on t (s_ws ss) @ [client_msg_text (KeyDeliver hsId env)]"
proof -
  obtain env pos where seal: "sealRoomKey P (deref t (s_priv ss)) (deref t pub) (deref t k) (cl_random t) = Inr (env, pos)"
    and u: "u = send (KeyDeliver hsId env) (t\<lparr>cl_random := pos\<rparr>)"
    using assms(3) by (auto simp: deliver_key_def split: sum.splits prod.splits)
  have "connected ss' (t\<lparr>cl_random := pos\<rparr>)" using assms(1) by simp
  from sent_send [OF this, of "KeyDeliver hsId env"] show thesis
    using assms(2) by (intro that [OF seal]) (simp_all add: u)
qed

text \<open>The session after the rotation for a joiner.\<close>

definition joined :: "jsstr \<Rightarrow> ref \<Rightarrow> session \<Rightarrow> session" where
  "joined j k ss = ss\<lparr>s_keys := take MAX_KEPT_KEYS (k # s_keys ss), s_knownMembers := set_add j (s_knownMembers ss)\<rparr>"

lemma rotateForJoin_done:
  assumes ok: "client_ok s" and conn: "connected ss s"
    and first: "find (\<lambda>e. hr_joiner (snd e) = Some j) (s_handshakes ss) = Some (hsId, rec)" "hsId \<noteq> []"
    and pub: "other_ref (shape s) (s_keys ss) pub" and run: "rotateForJoin P j pub s = Done t"
  obtains k env pos fs where "k \<notin> set (s_keys ss)" and "connected (joined j k ss) t"
    and "deref t k = fst (generateRoomKey P (cl_random s))"
    and "held_keys t = window_push (deref t k) (held_keys s)"
    and "\<And>q. other_ref (shape s) (s_keys ss) q \<Longrightarrow> deref t q = deref s q"
    and "sealRoomKey P (deref s (s_priv ss)) (deref s pub) (deref t k) (cl_random s + KEY_LEN) = Inr (env, pos)"
    and "sent_on t (s_ws ss) = sent_on s (s_ws ss) @ map client_msg_text (KeyDeliver hsId env # fs)"
    and "list_all2 (rekeys P (deref t) (joined j k ss) k)
      [i \<leftarrow> s_knownMembers ss. i \<noteq> s_memberId ss \<and> i \<noteq> j \<and> map_of (s_memberPubs ss) i \<noteq> None] fs"
proof -
  have ss: "cl_session s = Some ss" using conn by (rule connected_session)
  obtain k s1 where new: "fresh_key P s = (k, s1)" by (cases "fresh_key P s")
  let ?p = "pushKey k s1" and ?ss' = "ss\<lparr>s_keys := take MAX_KEPT_KEYS (k # s_keys ss)\<rparr>"
  let ?others = "[i \<leftarrow> s_knownMembers ss. i \<noteq> s_memberId ss \<and> i \<noteq> j]"
  note push = fresh_push [OF ok ss new]
  have keep: "deref ?p q = deref s q" if "other_ref (shape s) (s_keys ss) q" for q
    by (rule push(3) [OF other_ref_in_store [OF that] other_ref_kept [OF that]])
  have connP: "connected ?ss' ?p" by (rule connected_cong [OF conn]) (simp_all add: push)
  obtain u v where del: "deliver_key P ss hsId pub k ?p = Done u"
    and loop: "for_each (\<lambda>i. rekeyMember P i k) ?others u = Done v"
    and t: "t = upd_session (\<lambda>x. x\<lparr>s_knownMembers := set_add j (s_knownMembers x)\<rparr>) v"
    using run unfolding rotateForJoin_eq [OF ss new first]
    by (auto simp: and_then_eq_Done)
  obtain env pos where seal: "sealRoomKey P (deref ?p (s_priv ss)) (deref ?p pub) (deref ?p k) (cl_random ?p) = Inr (env, pos)"
    and u: "connected ?ss' u" "deref u = deref ?p"
      "sent_on u (s_ws ss) = sent_on ?p (s_ws ss) @ [client_msg_text (KeyDeliver hsId env)]"
    using deliver_key_done [OF connP _ del] by auto
  obtain fs where v: "connected ?ss' v" "deref v = deref u"
    and fs: "sent_on v (s_ws ss) = sent_on u (s_ws ss) @ map client_msg_text fs"
      "list_all2 (rekeys P (deref u) ?ss' k) [i \<leftarrow> ?others. map_of (s_memberPubs ss) i \<noteq> None] fs"
    using rekey_loop [OF u(1) loop] by auto
  have dt: "deref t = deref ?p" by (simp add: t v(2) u(2))
  have conn_t: "connected (joined j k ss) t"
    by (rule connected_cong [OF v(1)]) (simp_all add: t connected_session [OF v(1)] joined_def)
  show thesis
  proof (rule that [of k env pos fs])
    show "k \<notin> set (s_keys ss)" by (rule push(7))
    show "connected (joined j k ss) t" by (rule conn_t)
    show "deref t k = fst (generateRoomKey P (cl_random s))" by (simp add: dt push(2))
    show "held_keys t = window_push (deref t k) (held_keys s)"
    proof -
      have "held_keys t = held_keys ?p"
        by (simp add: held_keys_def connected_session [OF conn_t] push(1) joined_def dt)
      then show ?thesis using fresh_push_window [OF ok ss new] by (simp add: dt push(2))
    qed
    show "deref t q = deref s q" if "other_ref (shape s) (s_keys ss) q" for q
      using keep [OF that] by (simp add: dt)
    show "sealRoomKey P (deref s (s_priv ss)) (deref s pub) (deref t k) (cl_random s + KEY_LEN) = Inr (env, pos)"
      using seal keep [OF pub] keep [OF session_refs(1) [OF ok ss]] by (simp add: dt push(6))
    show "sent_on t (s_ws ss) = sent_on s (s_ws ss) @ map client_msg_text (KeyDeliver hsId env # fs)"
      using fs(1) u(3) sent_on_cong [OF push(5)] by (simp add: t)
    have "rekeys P (deref t) (joined j k ss) k = rekeys P (deref u) ?ss' k"
      by (simp add: fun_eq_iff rekeys_def dt u(2) joined_def)
    then show "list_all2 (rekeys P (deref t) (joined j k ss) k)
        [i \<leftarrow> s_knownMembers ss. i \<noteq> s_memberId ss \<and> i \<noteq> j \<and> map_of (s_memberPubs ss) i \<noteq> None] fs"
      using fs(2) by (simp add: conj_assoc)
  qed
qed

lemma thrown_and_then: "thrown (and_then r f) = (case r of Done s \<Rightarrow> thrown (f s) | Throws e s \<Rightarrow> Some e)"
  by (cases r) simp_all

lemma rotateForJoin_thrown:
  assumes ok: "client_ok s" and ss: "cl_session s = Some ss"
    and first: "find (\<lambda>e. hr_joiner (snd e) = Some j) (s_handshakes ss) = Some (hsId, rec)" "hsId \<noteq> []"
    and pub: "other_ref (shape s) (s_keys ss) pub"
  shows "thrown (rotateForJoin P j pub s) =
    (if x25519_shared P (deref s (s_priv ss)) (deref s pub) = None
        \<or> (\<exists>i \<in> set (s_knownMembers ss). i \<noteq> s_memberId ss \<and> i \<noteq> j \<and> bad_peer P (deref s) ss i)
     then Some CryptoError else None)"
proof -
  obtain k s1 where new: "fresh_key P s = (k, s1)" by (cases "fresh_key P s")
  let ?p = "pushKey k s1" and ?ss' = "ss\<lparr>s_keys := take MAX_KEPT_KEYS (k # s_keys ss)\<rparr>"
  let ?others = "[i \<leftarrow> s_knownMembers ss. i \<noteq> s_memberId ss \<and> i \<noteq> j]"
  note push = fresh_push [OF ok ss new]
  have keep: "deref ?p q = deref s q" if "other_ref (shape s) (s_keys ss) q" for q
    by (rule push(3) [OF other_ref_in_store [OF that] other_ref_kept [OF that]])
  note priv = keep [OF session_refs(1) [OF ok ss]]
  have bad: "bad_peer P (deref ?p) ?ss' i = bad_peer P (deref s) ss i" for i
    using keep [OF session_refs(2) [OF ok ss, of i]] by (simp add: bad_peer_def priv split: option.split)
  show ?thesis
  proof (cases "x25519_shared P (deref s (s_priv ss)) (deref s pub)")
    case None
    then have "deliver_key P ss hsId pub k ?p = Throws CryptoError ?p"
      by (simp add: deliver_key_def priv keep [OF pub] sealRoomKey_throws(1))
    with None show ?thesis by (simp add: rotateForJoin_eq [OF ss new first])
  next
    case (Some sh)
    then obtain env pos where "sealRoomKey P (deref ?p (s_priv ss)) (deref ?p pub) (deref ?p k) (cl_random ?p) = Inr (env, pos)"
      using sealRoomKey_throws(2) [of P "deref s (s_priv ss)" "deref s pub" sh "deref ?p k" "cl_random ?p"]
      by (auto simp: priv keep [OF pub])
    then have del: "deliver_key P ss hsId pub k ?p = Done (send (KeyDeliver hsId env) (?p\<lparr>cl_random := pos\<rparr>))"
      by (simp add: deliver_key_def)
    have "cl_session (send (KeyDeliver hsId env) (?p\<lparr>cl_random := pos\<rparr>)) = Some ?ss'" by (simp add: push(1))
    from rekey_loop_thrown [OF this, of P k ?others] Some show ?thesis
      by (simp add: rotateForJoin_eq [OF ss new first] del thrown_and_then bad split: outcome.split)
        (auto split: if_splits)
  qed
qed

section \<open>The owner accepts a public key\<close>

text \<open>The state in which the owner has the joiner's key on file, before it rotates.\<close>

lemma owner_files_key:
  fixes j :: jsstr
  assumes ok: "client_ok s" and conn: "connected ss s" and new: "alloc pub s = (r, s1)"
  defines "u \<equiv> upd_session (\<lambda>x. x\<lparr>s_memberPubs := map_set j r (s_memberPubs x)\<rparr>) s1"
  shows "client_ok u" and "connected (ss\<lparr>s_memberPubs := map_set j r (s_memberPubs ss)\<rparr>) u"
    and "other_ref (shape u) (s_keys ss) r" and "deref s1 r = pub"
    and "other_ref (shape s) (s_keys ss) q \<Longrightarrow> other_ref (shape u) (s_keys ss) q \<and> deref s1 q = deref s q"
    and "held_keys u = held_keys s" and "sent_on s1 w = sent_on s w" and "cl_random s1 = cl_random s"
proof -
  note new' = alloc_eq [OF new]
  have ss: "cl_session s = Some ss" using conn by (rule connected_session)
  show "client_ok u" unfolding u_def
    using ok_alloc [OF new ok] by (intro ok_upd_session) (simp_all add: session_ok_def distinct_map_set)
  show "connected (ss\<lparr>s_memberPubs := map_set j r (s_memberPubs ss)\<rparr>) u"
    by (rule connected_cong [OF conn]) (simp_all add: u_def new'(2) ss)
  have shape: "shape u = shape s @ [length pub]" by (simp add: u_def shape_def new'(2))
  show "other_ref (shape u) (s_keys ss) r"
    using fresh_ref_not_key [OF ok ss] by (simp add: other_ref_def shape) (simp add: shape_def new'(1))
  show "deref s1 r = pub" by (rule new'(3))
  show "other_ref (shape s) (s_keys ss) q \<Longrightarrow> other_ref (shape u) (s_keys ss) q \<and> deref s1 q = deref s q"
    using new'(4) [of q] by (simp add: other_ref_def shape) (simp add: shape_def u_def)
  have "q < length (cl_heap s)" if "q \<in> set (s_keys ss)" for q
    using client_ok_session [OF ok ss] that by (auto simp: session_ok_def shape_def)
  then show "held_keys u = held_keys s"
    using new'(4) by (simp add: held_keys_def u_def) (simp add: new'(2) ss)
  show "sent_on s1 w = sent_on s w" "cl_random s1 = cl_random s"
    by (simp_all add: new'(2) sent_on_def)
qed

text \<open>A record that waits for the public key of the member it was started for.\<close>

definition awaits_key :: "client \<Rightarrow> session \<Rightarrow> jsstr \<Rightarrow> hs_record \<Rightarrow> ref \<Rightarrow> bool" where
  "awaits_key s ss hsId rec r \<longleftrightarrow> hsId \<noteq> [] \<and> map_of (s_handshakes ss) hsId = Some rec \<and> hr_ke rec = Some r"

lemma onMemberKey_opens:
  assumes "cl_session s = Some ss" and "awaits_key s ss hsId rec kr"
    and "sm_handshake m = Some hsId" and "sm_data m = Some d" and "openUnderKe P (deref s kr) d = Inr pub"
  shows "onMemberKey P m s = accept_peer_key P hsId rec pub s"
  using assms by (simp add: onMemberKey_def with_session_out_def awaits_key_def falsy_def or_else_def)

lemma owner_accepts_eq:
  assumes "hr_role rec = HsOwner" and "hr_joiner rec = Some j" and "alloc pub s = (r, s1)"
  shows "accept_peer_key P hsId rec pub s =
    and_then (rotateForJoin P j r (upd_session (\<lambda>x. x\<lparr>s_memberPubs := map_set j r (s_memberPubs x)\<rparr>) s1))
      (\<lambda>t. Done (delete_handshake hsId t))"
  using assms by (simp add: accept_peer_key_def or_else_def)

lemma connected_delete_handshake:
  "connected ss t \<Longrightarrow> connected (ss\<lparr>s_handshakes := map_delete h (s_handshakes ss)\<rparr>) (delete_handshake h t)"
  by (rule connected_cong [where s = t]) (simp_all add: delete_handshake_def connected_session)

lemma owner_admits:
  assumes ok: "client_ok s" and conn: "connected ss s"
    and rec: "hsId \<noteq> []" "map_of (s_handshakes ss) hsId = Some rec" "hr_role rec = HsOwner" "hr_joiner rec = Some j"
    and first: "find (\<lambda>e. hr_joiner (snd e) = Some j) (s_handshakes ss) = Some (hsId, rec)"
    and good: "x25519_shared P (deref s (s_priv ss)) pub \<noteq> None"
      "\<forall>i \<in> set (s_knownMembers ss). \<not> bad_peer P (deref s) ss i"
  obtains t ss' k env pos fs where "accept_peer_key P hsId rec pub s = Done t" and "connected ss' t"
    and "deref t k = fst (generateRoomKey P (cl_random s))"
    and "held_keys t = window_push (deref t k) (held_keys s)"
    and "pub_on_file t j = Some pub" and "set (s_knownMembers ss') = insert j (set (s_knownMembers ss))"
    and "map_of (s_handshakes ss') hsId = None"
    and "\<And>q. other_ref (shape s) (s_keys ss) q \<Longrightarrow> deref t q = deref s q"
    and "sealRoomKey P (deref s (s_priv ss)) pub (deref t k) (cl_random s + KEY_LEN) = Inr (env, pos)"
    and "sent_on t (s_ws ss) = sent_on s (s_ws ss) @ map client_msg_text (KeyDeliver hsId env # fs)"
    and "list_all2 (rekeys P (deref t) ss' k)
      [i \<leftarrow> s_knownMembers ss. i \<noteq> s_memberId ss \<and> i \<noteq> j \<and> map_of (s_memberPubs ss) i \<noteq> None] fs"
proof -
  have ss: "cl_session s = Some ss" using conn by (rule connected_session)
  obtain r s1 where new: "alloc pub s = (r, s1)" by (cases "alloc pub s")
  let ?u = "upd_session (\<lambda>x. x\<lparr>s_memberPubs := map_set j r (s_memberPubs x)\<rparr>) s1"
  let ?su = "ss\<lparr>s_memberPubs := map_set j r (s_memberPubs ss)\<rparr>"
  note filed = owner_files_key [OF ok conn new]
  have firstU: "find (\<lambda>e. hr_joiner (snd e) = Some j) (s_handshakes ?su) = Some (hsId, rec)" using first by simp
  have pubU: "other_ref (shape ?u) (s_keys ?su) r" using filed(3) by simp
  have priv: "deref s1 (s_priv ss) = deref s (s_priv ss)" using filed(5) session_refs(1) [OF ok ss] by blast
  have "bad_peer P (deref ?u) ?su i = bad_peer P (deref s) ss i" if "i \<noteq> j" for i
    using that filed(5) session_refs(2) [OF ok ss, of i]
    by (auto simp: bad_peer_def priv map_of_map_set split: option.split)
  then have "thrown (rotateForJoin P j r ?u) = None"
    using good unfolding rotateForJoin_thrown [OF filed(1) connected_session [OF filed(2)] firstU rec(1) pubU]
    by (auto simp: priv filed(4))
  then obtain v where run: "rotateForJoin P j r ?u = Done v" by (cases "rotateForJoin P j r ?u") auto
  obtain k env pos fs where v: "connected (joined j k ?su) v" "deref v k = fst (generateRoomKey P (cl_random ?u))"
      "held_keys v = window_push (deref v k) (held_keys ?u)"
      "\<And>q. other_ref (shape ?u) (s_keys ss) q \<Longrightarrow> deref v q = deref ?u q"
    and seal: "sealRoomKey P (deref ?u (s_priv ss)) (deref ?u r) (deref v k) (cl_random ?u + KEY_LEN) = Inr (env, pos)"
    and sent: "sent_on v (s_ws ss) = sent_on ?u (s_ws ss) @ map client_msg_text (KeyDeliver hsId env # fs)"
    and fs: "list_all2 (rekeys P (deref v) (joined j k ?su) k)
      [i \<leftarrow> s_knownMembers ss. i \<noteq> s_memberId ss \<and> i \<noteq> j \<and> map_of (s_memberPubs ?su) i \<noteq> None] fs"
    by (rule rotateForJoin_done [OF filed(1,2) firstU rec(1) pubU run]) auto
  let ?t = "delete_handshake hsId v" and ?s' = "(joined j k ?su)\<lparr>s_handshakes := map_delete hsId (s_handshakes ss)\<rparr>"
  have conn': "connected ?s' ?t"
    using connected_delete_handshake [OF v(1), of hsId] by (simp add: joined_def)
  show thesis
  proof (rule that [of ?t ?s' k env pos fs])
    show "accept_peer_key P hsId rec pub s = Done ?t"
      using owner_accepts_eq [OF rec(3,4) new, of P hsId] by (simp add: run)
    show "connected ?s' ?t" by (rule conn')
    show "deref ?t k = fst (generateRoomKey P (cl_random s))" by (simp add: v(2) filed(8))
    show "held_keys ?t = window_push (deref ?t k) (held_keys s)"
      using v(3) by (simp add: held_keys_def [of ?t] connected_session [OF conn'] filed(6))
        (simp add: held_keys_def [of v] connected_session [OF v(1)])
    have "deref v r = pub" using v(4) [OF filed(3)] by (simp add: filed(4))
    then show "pub_on_file ?t j = Some pub"
      by (simp add: pub_on_file_def connected_session [OF conn'] joined_def map_of_map_set)
    show "set (s_knownMembers ?s') = insert j (set (s_knownMembers ss))" by (simp add: joined_def)
    show "map_of (s_handshakes ?s') hsId = None" by (simp add: map_of_map_delete)
    show "deref ?t q = deref s q" if "other_ref (shape s) (s_keys ss) q" for q
      using v(4) filed(5) [OF that] by simp
    show "sealRoomKey P (deref s (s_priv ss)) pub (deref ?t k) (cl_random s + KEY_LEN) = Inr (env, pos)"
      using seal by (simp add: priv filed(4,8))
    show "sent_on ?t (s_ws ss) = sent_on s (s_ws ss) @ map client_msg_text (KeyDeliver hsId env # fs)"
      using sent by (simp add: filed(7) delete_handshake_def)
    have "[i \<leftarrow> s_knownMembers ss. i \<noteq> s_memberId ss \<and> i \<noteq> j \<and> map_of (s_memberPubs ?su) i \<noteq> None] =
        [i \<leftarrow> s_knownMembers ss. i \<noteq> s_memberId ss \<and> i \<noteq> j \<and> map_of (s_memberPubs ss) i \<noteq> None]"
      by (rule filter_cong) (auto simp: map_of_map_set)
    moreover have "rekeys P (deref ?t) ?s' k = rekeys P (deref v) (joined j k ?su) k"
      by (simp add: fun_eq_iff rekeys_def)
    ultimately show "list_all2 (rekeys P (deref ?t) ?s' k)
        [i \<leftarrow> s_knownMembers ss. i \<noteq> s_memberId ss \<and> i \<noteq> j \<and> map_of (s_memberPubs ss) i \<noteq> None] fs"
      using fs by simp
  qed
qed

section \<open>The joiner\<close>

lemma finishJoin_done:
  assumes ok: "client_ok s" and conn: "connected ss s" and owner: "s_firstOwnerPub ss = Some ro"
    and opened: "openRoomKey P (deref s (s_priv ss)) (deref s ro) d = Inr key"
    and ke: "hr_ke rec = Some kr" "other_ref (shape s) (s_keys ss) kr"
  shows "held_keys (finishJoin P hsId rec d s) = window_push key (held_keys s)"
    and "sent_on (finishJoin P hsId rec d s) (s_ws ss) = sent_on s (s_ws ss) @ [client_msg_text (Enter hsId)]"
    and "deref (finishJoin P hsId rec d s) kr = replicate (length (deref s kr)) 0"
    and "find_handshake hsId (finishJoin P hsId rec d s) = None"
proof -
  have ss: "cl_session s = Some ss" using conn by (rule connected_session)
  obtain r s1 where new: "alloc key s = (r, s1)" by (cases "alloc key s")
  let ?p = "pushKey r s1" and ?ss' = "ss\<lparr>s_keys := take MAX_KEPT_KEYS (r # s_keys ss)\<rparr>"
  note push = alloc_push [OF ok ss new]
  have t: "finishJoin P hsId rec d s = send (Enter hsId) (delete_handshake hsId (wipeKey kr ?p))"
    using owner opened new by (simp add: finishJoin_def with_session_def ss ke(1) Let_def)
  have connP: "connected ?ss' ?p" by (rule connected_cong [OF conn]) (simp_all add: push)
  have "connected ?ss' (wipeKey kr ?p)"
    by (rule connected_cong [OF connP]) (simp_all add: connected_session [OF connP])
  from connected_delete_handshake [OF this, of hsId]
  have connD: "connected (?ss'\<lparr>s_handshakes := map_delete hsId (s_handshakes ss)\<rparr>) (delete_handshake hsId (wipeKey kr ?p))"
    by simp
  note sent = sent_send [OF connD, of "Enter hsId"]
  have "kr < length (cl_heap s)" by (rule other_ref_in_store [OF ke(2)])
  then have "kr \<notin> set (s_keys ?ss')"
    using ke(2) alloc_eq(1) [OF new] by (auto simp: other_ref_def dest: in_set_takeD)
  then have kept: "map (deref (wipeKey kr ?p)) (s_keys ?ss') = map (deref ?p) (s_keys ?ss')"
    by (intro map_cong) (auto simp: deref_wipeKey)
  show "held_keys (finishJoin P hsId rec d s) = window_push key (held_keys s)"
  proof -
    have "held_keys (finishJoin P hsId rec d s) = held_keys ?p"
      using kept connected_session [OF sent(2)]
      by (simp add: t held_keys_def connected_session [OF connP] del: map_eq_conv)
    then show ?thesis by (simp add: push(2))
  qed
  show "sent_on (finishJoin P hsId rec d s) (s_ws ss) = sent_on s (s_ws ss) @ [client_msg_text (Enter hsId)]"
    using sent(1) unfolding t by (simp add: delete_handshake_def sent_on_def [of _ "s_ws ss"] push(5) wipeKey_def)
  show "deref (finishJoin P hsId rec d s) kr = replicate (length (deref s kr)) 0"
  proof -
    have "other_ref (shape s) (drop 4 (s_keys ss)) kr" using ke(2) by (auto simp: other_ref_def dest: in_set_dropD)
    from push(4) [OF this] show ?thesis by (simp add: t deref_wipeKey wiped_def)
  qed
  show "find_handshake hsId (finishJoin P hsId rec d s) = None"
    using connected_session [OF sent(2)] by (simp add: t find_handshake_def map_of_map_delete)
qed

text \<open>The owner's public key and the room key, in the order of the protocol and in the other one.\<close>

lemma joiner_files_owner:
  assumes ok: "client_ok s" and conn: "connected ss s" and new: "alloc pub s = (r, s1)"
  defines "u \<equiv> upd_session (\<lambda>x. x\<lparr>s_firstOwnerPub := Some r\<rparr>) s1"
  shows "client_ok u" and "connected (ss\<lparr>s_firstOwnerPub := Some r\<rparr>) u" and "deref s1 r = pub"
    and "other_ref (shape s) (s_keys ss) q \<Longrightarrow> other_ref (shape u) (s_keys ss) q \<and> deref s1 q = deref s q"
    and "held_keys u = held_keys s" and "sent_on s1 w = sent_on s w"
proof -
  note new' = alloc_eq [OF new]
  have ss: "cl_session s = Some ss" using conn by (rule connected_session)
  show "client_ok u" unfolding u_def
    using ok_alloc [OF new ok] by (intro ok_upd_session) (simp_all add: session_ok_def)
  show "connected (ss\<lparr>s_firstOwnerPub := Some r\<rparr>) u"
    by (rule connected_cong [OF conn]) (simp_all add: u_def new'(2) ss)
  show "deref s1 r = pub" by (rule new'(3))
  have shape: "shape u = shape s @ [length pub]" by (simp add: u_def shape_def new'(2))
  show "other_ref (shape s) (s_keys ss) q \<Longrightarrow> other_ref (shape u) (s_keys ss) q \<and> deref s1 q = deref s q"
    using new'(4) [of q] by (simp add: other_ref_def shape) (simp add: shape_def u_def)
  have "q < length (cl_heap s)" if "q \<in> set (s_keys ss)" for q
    using client_ok_session [OF ok ss] that by (auto simp: session_ok_def shape_def)
  then show "held_keys u = held_keys s"
    using new'(4) by (simp add: held_keys_def u_def) (simp add: new'(2) ss)
  show "sent_on s1 w = sent_on s w" by (simp add: new'(2) sent_on_def)
qed

lemma joiner_accepts:
  assumes ok: "client_ok s" and conn: "connected ss s" and waits: "awaits_key s ss hsId rec kr"
    and role: "hr_role rec = HsJoiner" "hr_pending rec = pend" and new: "alloc pub s = (r, s1)"
  defines "u \<equiv> upd_session (\<lambda>x. x\<lparr>s_firstOwnerPub := Some r\<rparr>) s1"
  shows "accept_peer_key P hsId rec pub s = Done (if falsy pend then u else finishJoin P hsId rec (or_else pend []) u)"
    and "awaits_key u (ss\<lparr>s_firstOwnerPub := Some r\<rparr>) hsId rec kr"
  using assms by (simp_all add: accept_peer_key_def awaits_key_def)

lemma keyDeliver_finishes:
  assumes "cl_session s = Some ss" and "awaits_key s ss hsId rec kr" and "s_firstOwnerPub ss = Some ro"
    and "sm_handshake m = Some hsId" and "sm_data m = Some d"
  shows "onKeyDeliver P m s = finishJoin P hsId rec d s"
  using assms by (simp add: onKeyDeliver_def with_session_def awaits_key_def)

lemma keyDeliver_waits:
  assumes "cl_session s = Some ss" and "awaits_key s ss hsId rec kr" and "s_firstOwnerPub ss = None"
    and "sm_handshake m = Some hsId" and "sm_data m = Some d"
  shows "onKeyDeliver P m s = upd_session
    (\<lambda>x. x\<lparr>s_handshakes := map_set hsId (rec\<lparr>hr_pending := Some d\<rparr>) (s_handshakes ss)\<rparr>) s"
  using assms
  by (simp add: onKeyDeliver_def with_session_def awaits_key_def upd_handshake_def upd_session_def)

lemma openRoomKey_nonempty: "openRoomKey P a b d = Inr key \<Longrightarrow> d \<noteq> []"
proof
  assume opened: "openRoomKey P a b d = Inr key" and "d = []"
  moreover have "openBytes P k [] = Inl (MessageError ''ciphertext too short'')" for k
  proof -
    have "bytesToB64 [] = []" by code_simp
    then show ?thesis using openBytes_too_short [of "[]" P k] by simp
  qed
  ultimately show False
    by (auto simp: openRoomKey_def decryptMessage_def bind_result_eq_Inr)
qed

text \<open>
  What the joiner ends with once it has both: the room key in front of its window, the \<open>enter\<close>
  message sent, the handshake secret zeroed and the record gone.
\<close>

definition has_joined :: "bytes \<Rightarrow> jsstr \<Rightarrow> session \<Rightarrow> ref \<Rightarrow> client \<Rightarrow> client \<Rightarrow> bool" where
  "has_joined key hsId ss kr s t \<longleftrightarrow> held_keys t = window_push key (held_keys s)
     \<and> sent_on t (s_ws ss) = sent_on s (s_ws ss) @ [client_msg_text (Enter hsId)]
     \<and> deref t kr = replicate (length (deref s kr)) 0 \<and> find_handshake hsId t = None"

lemma joiner_finishes:
  assumes ok: "client_ok s" and conn: "connected ss s" and waits: "awaits_key s ss hsId rec kr"
    and new: "alloc pub s = (r, s1)" and opened: "openRoomKey P (deref s (s_priv ss)) pub d = Inr key"
  shows "has_joined key hsId ss kr s (finishJoin P hsId rec d (upd_session (\<lambda>x. x\<lparr>s_firstOwnerPub := Some r\<rparr>) s1))"
proof -
  have ss: "cl_session s = Some ss" using conn by (rule connected_session)
  let ?u = "upd_session (\<lambda>x. x\<lparr>s_firstOwnerPub := Some r\<rparr>) s1" and ?su = "ss\<lparr>s_firstOwnerPub := Some r\<rparr>"
  note filed = joiner_files_owner [OF ok conn new]
  have kr: "hr_ke rec = Some kr" "other_ref (shape s) (s_keys ss) kr"
    using waits session_refs(3) [OF ok ss] by (auto simp: awaits_key_def)
  have opened': "openRoomKey P (deref ?u (s_priv ?su)) (deref ?u r) d = Inr key"
    using opened filed(3,4) session_refs(1) [OF ok ss] by simp
  have kr': "other_ref (shape ?u) (s_keys ?su) kr" "deref ?u kr = deref s kr" using filed(4) [OF kr(2)] by simp_all
  from finishJoin_done [OF filed(1,2) _ opened' kr(1) kr'(1)] show ?thesis
    using filed(5,6) kr'(2) by (simp add: has_joined_def)
qed

lemma joiner_orders:
  assumes ok: "client_ok s" and conn: "connected ss s" and waits: "awaits_key s ss hsId rec kr"
    and role: "hr_role rec = HsJoiner" "hr_pending rec = None" and none: "s_firstOwnerPub ss = None"
    and mk: "sm_handshake mk = Some hsId" "sm_data mk = Some d" "openUnderKe P (deref s kr) d = Inr pub"
    and kd: "sm_handshake kd = Some hsId" "sm_data kd = Some env" "openRoomKey P (deref s (s_priv ss)) pub env = Inr key"
  shows "\<exists>u. onMemberKey P mk s = Done u \<and> has_joined key hsId ss kr s (onKeyDeliver P kd u)"
    and "\<exists>t. onMemberKey P mk (onKeyDeliver P kd s) = Done t \<and> has_joined key hsId ss kr s t"
proof -
  have ss: "cl_session s = Some ss" using conn by (rule connected_session)
  obtain r s1 where new: "alloc pub s = (r, s1)" by (cases "alloc pub s")
  let ?u = "upd_session (\<lambda>x. x\<lparr>s_firstOwnerPub := Some r\<rparr>) s1"
  note accept = joiner_accepts [OF ok conn waits role new]
  have "onMemberKey P mk s = Done ?u"
    using onMemberKey_opens [OF ss waits mk] accept(1) by (simp add: falsy_def)
  moreover have "onKeyDeliver P kd ?u = finishJoin P hsId rec env ?u"
    by (rule keyDeliver_finishes [OF connected_session [OF joiner_files_owner(2) [OF ok conn new]] accept(2) _ kd(1,2)])
      simp
  ultimately show "\<exists>u. onMemberKey P mk s = Done u \<and> has_joined key hsId ss kr s (onKeyDeliver P kd u)"
    using joiner_finishes [OF ok conn waits new kd(3)] by simp
  let ?rec = "rec\<lparr>hr_pending := Some env\<rparr>" and ?w = "onKeyDeliver P kd s"
  let ?sw = "ss\<lparr>s_handshakes := map_set hsId ?rec (s_handshakes ss)\<rparr>"
  have w: "?w = upd_session (\<lambda>x. x\<lparr>s_handshakes := map_set hsId ?rec (s_handshakes ss)\<rparr>) s"
    by (rule keyDeliver_waits [OF ss waits none kd(1,2)])
  have okW: "client_ok ?w" by (rule ok_onKeyDeliver [OF ok])
  have connW: "connected ?sw ?w" by (rule connected_cong [OF conn]) (simp_all add: w ss)
  have waitsW: "awaits_key ?w ?sw hsId ?rec kr"
    using waits by (simp add: awaits_key_def map_of_map_set)
  have same: "deref ?w = deref s" "held_keys ?w = held_keys s" "sent_on ?w x = sent_on s x" for x
    by (simp_all add: w held_keys_def ss)
  obtain r' s1' where newW: "alloc pub ?w = (r', s1')" by (cases "alloc pub ?w")
  have "openUnderKe P (deref ?w kr) d = Inr pub" using mk(3) by (simp add: same)
  from onMemberKey_opens [OF connected_session [OF connW] waitsW mk(1,2) this]
  have "onMemberKey P mk ?w = Done (finishJoin P hsId ?rec env (upd_session (\<lambda>x. x\<lparr>s_firstOwnerPub := Some r'\<rparr>) s1'))"
    using joiner_accepts(1) [OF okW connW waitsW _ _ newW, of "Some env" P] role(1) openRoomKey_nonempty [OF kd(3)]
    by (simp add: falsy_def or_else_def)
  moreover have "openRoomKey P (deref ?w (s_priv ?sw)) pub env = Inr key" using kd(3) by (simp add: same)
  from joiner_finishes [OF okW connW waitsW newW this]
  have "has_joined key hsId ss kr s (finishJoin P hsId ?rec env (upd_session (\<lambda>x. x\<lparr>s_firstOwnerPub := Some r'\<rparr>) s1'))"
    by (simp add: has_joined_def same)
  ultimately show "\<exists>t. onMemberKey P mk ?w = Done t \<and> has_joined key hsId ss kr s t" by blast
qed

end
