(* ===== verification/AdmissionProperties.thy ===== *)
theory AdmissionProperties
  imports Admission DeliveryProperties
begin

text \<open>
  The exchange that lets a joiner in, from the confirmed handshake to the \<open>enter\<close> message, across
  the owner's and the joiner's client.
\<close>

section \<open>Admission\<close>

text \<open>
  A client in the middle of an admission: the handshake \<open>hsId\<close> is confirmed, its secret is the
  array \<open>kr\<close>, and the published public key belongs to the private one.
\<close>

definition admitting :: "'p prims \<Rightarrow> client \<Rightarrow> session \<Rightarrow> jsstr \<Rightarrow> hs_record \<Rightarrow> ref \<Rightarrow> bool" where
  "admitting P s ss hsId rec kr \<longleftrightarrow> client_ok s \<and> connected ss s \<and> awaits_key s ss hsId rec kr
     \<and> hr_pending rec = None \<and> s_pub ss = x25519_public P (deref s (s_priv ss))"

definition frame_in :: "server_msg \<Rightarrow> jsstr \<Rightarrow> jsstr \<Rightarrow> jsstr \<Rightarrow> bool" where
  "frame_in m t hsId d \<longleftrightarrow> sm_type m = t \<and> sm_handshake m = Some hsId \<and> sm_data m = Some d"

lemma dispatch_joining:
  "sm_type m = js ''member_key'' \<Longrightarrow> dispatch P m s = onMemberKey P m s"
  "sm_type m = js ''key_deliver'' \<Longrightarrow> dispatch P m s = Done (onKeyDeliver P m s)"
  by (simp_all add: dispatch_def)

text \<open>
  C12: A joiner is admitted: when the owner and the joiner have confirmed a handshake and each
  gets the other's public key sealed under its secret, the owner makes a fresh room key, puts it
  in front of its window, files the joiner's key, sends the room key to the joiner and then to
  every other member it has a key of; and the joiner, whether the room key or the owner's public
  key reaches it first, ends with exactly that room key in front of its window, has sent
  \<open>enter\<close>, and has zeroed the handshake secret. (No known member's key may be one the key exchange
  rejects, and the handshake must be the first on file for that member id.)
\<close>

theorem joiner_is_admitted:
  assumes "aead_ok P" "hkdf_ok P" "x25519_ok P"
    and O: "admitting P sO ssO hsId recO kO" "hr_role recO = HsOwner" "hr_joiner recO = Some j"
      "find (\<lambda>e. hr_joiner (snd e) = Some j) (s_handshakes ssO) = Some (hsId, recO)"
      "\<forall>i \<in> set (s_knownMembers ssO). \<not> bad_peer P (deref sO) ssO i"
    and J: "admitting P sJ ssJ hsId recJ kJ" "hr_role recJ = HsJoiner" "s_firstOwnerPub ssJ = None"
    and same: "deref sO kO = deref sJ kJ"
    and mO: "frame_in mO (js ''member_key'') hsId (fst (sealUnderKe P (deref sJ kJ) (s_pub ssJ) posJ))"
    and mJ: "frame_in mJ (js ''member_key'') hsId (fst (sealUnderKe P (deref sO kO) (s_pub ssO) posO))"
  shows "\<exists>t ss' k env fs. dispatch P mO sO = Done t \<and> connected ss' t
    \<and> deref t k = fst (generateRoomKey P (cl_random sO))
    \<and> held_keys t = window_push (deref t k) (held_keys sO) \<and> pub_on_file t j = Some (s_pub ssJ)
    \<and> sent_on t (s_ws ssO) = sent_on sO (s_ws ssO) @ map client_msg_text (KeyDeliver hsId env # fs)
    \<and> list_all2 (rekeys P (deref t) ss' k)
        [i \<leftarrow> s_knownMembers ssO. i \<noteq> s_memberId ssO \<and> i \<noteq> j \<and> map_of (s_memberPubs ssO) i \<noteq> None] fs
    \<and> (\<forall>m ms. frame_in m (js ''key_deliver'') hsId env \<longrightarrow> ms \<in> {[mJ, m], [m, mJ]} \<longrightarrow>
        (\<exists>u. for_each (dispatch P) ms sJ = Done u \<and> has_joined (deref t k) hsId ssJ kJ sJ u))"
proof -
  have okO: "client_ok sO" "connected ssO sO" "awaits_key sO ssO hsId recO kO"
    and okJ: "client_ok sJ" "connected ssJ sJ" "awaits_key sJ ssJ hsId recJ kJ" "hr_pending recJ = None"
    and pubs: "s_pub ssO = x25519_public P (deref sO (s_priv ssO))" "s_pub ssJ = x25519_public P (deref sJ (s_priv ssJ))"
    using O(1) J(1) by (simp_all add: admitting_def)
  have ssO: "cl_session sO = Some ssO" and ssJ: "cl_session sJ = Some ssJ"
    using okO(2) okJ(2) by (simp_all add: connected_session)
  have len: "length (deref sO (s_priv ssO)) = 32" "length (deref sJ (s_priv ssJ)) = 32"
    by (rule ok_lengths(1) [OF okO(1) ssO], rule ok_lengths(1) [OF okJ(1) ssJ])
  obtain sh where "x25519_shared P (deref sO (s_priv ssO)) (s_pub ssJ) = Some sh"
    using x25519_okD [OF assms(3) len] pubs(2) by metis
  then have good: "x25519_shared P (deref sO (s_priv ssO)) (s_pub ssJ) \<noteq> None" by simp
  have rec: "hsId \<noteq> []" "map_of (s_handshakes ssO) hsId = Some recO" using okO(3) by (simp_all add: awaits_key_def)
  have mO': "sm_handshake mO = Some hsId" "sm_data mO = Some (fst (sealUnderKe P (deref sJ kJ) (s_pub ssJ) posJ))"
    and mJ': "sm_handshake mJ = Some hsId" "sm_data mJ = Some (fst (sealUnderKe P (deref sO kO) (s_pub ssO) posO))"
    using mO mJ by (simp_all add: frame_in_def)
  have peerO: "openUnderKe P (deref sO kO) (fst (sealUnderKe P (deref sJ kJ) (s_pub ssJ) posJ)) = Inr (s_pub ssJ)"
    and peerJ: "openUnderKe P (deref sJ kJ) (fst (sealUnderKe P (deref sO kO) (s_pub ssO) posO)) = Inr (s_pub ssO)"
    by (simp_all add: same open_seal_under_ke assms(1,2))
  obtain t ss' k env pos fs where run: "accept_peer_key P hsId recO (s_pub ssJ) sO = Done t" and t: "connected ss' t"
      "deref t k = fst (generateRoomKey P (cl_random sO))" "held_keys t = window_push (deref t k) (held_keys sO)"
      "pub_on_file t j = Some (s_pub ssJ)"
      "sent_on t (s_ws ssO) = sent_on sO (s_ws ssO) @ map client_msg_text (KeyDeliver hsId env # fs)"
      "list_all2 (rekeys P (deref t) ss' k)
        [i \<leftarrow> s_knownMembers ssO. i \<noteq> s_memberId ssO \<and> i \<noteq> j \<and> map_of (s_memberPubs ssO) i \<noteq> None] fs"
    and seal: "sealRoomKey P (deref sO (s_priv ssO)) (s_pub ssJ) (deref t k) (cl_random sO + KEY_LEN) = Inr (env, pos)"
    by (rule owner_admits [OF okO(1,2) rec O(2,3,4) good O(5)])
  have "dispatch P mO sO = Done t"
    using mO onMemberKey_opens [OF ssO okO(3) mO' peerO] run by (simp add: frame_in_def dispatch_joining)
  moreover have "openRoomKey P (deref sJ (s_priv ssJ)) (s_pub ssO) env = Inr (deref t k)"
    using open_seal_room_key [OF assms(1-3) len, of "deref t k" "cl_random sO + KEY_LEN"] seal t(2)
    by (auto simp: pubs generateRoomKey_def KEY_LEN_def)
  note both = joiner_orders [OF okJ(1-3) J(2) okJ(4) J(3) mJ' peerJ _ _ this]
  have "\<exists>u. for_each (dispatch P) ms sJ = Done u \<and> has_joined (deref t k) hsId ssJ kJ sJ u"
    if "frame_in m (js ''key_deliver'') hsId env" "ms \<in> {[mJ, m], [m, mJ]}" for m ms
    using that mJ both [of m] by (auto simp: frame_in_def dispatch_joining)
  ultimately show ?thesis using t by blast
qed

text \<open>The owner \<open>o\<close> admits \<open>c\<close> into the example room.\<close>

definition example_handshake :: handshake where
  "example_handshake = \<lparr>hs_state = \<lparr>st_role = RoleA, st_scalar = 1, st_w = 1, st_own = [], st_idA = [], st_idB = [], st_aad = []\<rparr>,
     hs_result = None, hs_pending = None, hs_done = True\<rparr>"

definition example_record :: "hs_role \<Rightarrow> jsstr option \<Rightarrow> hs_record" where
  "example_record r j = \<lparr>hr_hs = example_handshake, hr_role = r, hr_joiner = j, hr_ke = Some 5, hr_pending = None\<rparr>"

definition admitting_session :: "jsstr \<Rightarrow> member_role \<Rightarrow> hs_role \<Rightarrow> jsstr option \<Rightarrow> session" where
  "admitting_session me r hr j = (example_session me r)\<lparr>s_handshakes := [(js ''h'', example_record hr j)]\<rparr>"

definition admitting_client :: "jsstr \<Rightarrow> member_role \<Rightarrow> hs_role \<Rightarrow> jsstr option \<Rightarrow> client" where
  "admitting_client me r hr j = (example_client me r)
     \<lparr>cl_heap := [replicate 32 7, replicate 32 1, replicate 32 2, replicate 32 3, replicate 32 4, replicate 32 9],
      cl_session := Some (admitting_session me r hr j)\<rparr>"

definition sealed_frame :: "jsstr \<Rightarrow> jsstr \<Rightarrow> server_msg" where
  "sealed_frame t d = \<lparr>sm_type = t, sm_room = None, sm_memberId = None, sm_members = None, sm_nick = None, sm_body = None,
     sm_reason = None, sm_error = None, sm_token = None, sm_handshake = Some (js ''h''), sm_data = Some d,
     sm_transfer = None, sm_keyId = None, sm_index = None\<rparr>"

lemma admitting_example:
  "admitting toy (admitting_client me r hr j) (admitting_session me r hr j) (js ''h'') (example_record hr j) 5"
  by (simp add: admitting_def admitting_client_def admitting_session_def client_ok_def example_client_def
      example_session_def initial_client_def session_ok_def shape_def other_ref_def values_sat_def KEY_LEN_def
      MAX_KEPT_KEYS_def nth_Cons' connected_def open_socket_def awaits_key_def example_record_def deref_def toy_def)

theorem joiner_is_admitted_witness:
  "\<exists>t env u. dispatch toy (sealed_frame (js ''member_key'') (fst (sealUnderKe toy (replicate 32 9) (replicate 32 1) 0)))
      (admitting_client (js ''o'') Owner HsOwner (Some (js ''c''))) = Done t
    \<and> for_each (dispatch toy)
        [sealed_frame (js ''key_deliver'') env,
         sealed_frame (js ''member_key'') (fst (sealUnderKe toy (replicate 32 9) (replicate 32 1) 0))]
        (admitting_client (js ''c'') Member HsJoiner None) = Done u
    \<and> hd (held_keys t) = fst (generateRoomKey toy 0) \<and> hd (held_keys u) = fst (generateRoomKey toy 0)"
proof -
  let ?o = "admitting_client (js ''o'') Owner HsOwner (Some (js ''c''))" and ?ro = "example_record HsOwner (Some (js ''c''))"
  let ?so = "admitting_session (js ''o'') Owner HsOwner (Some (js ''c''))"
  let ?j = "admitting_client (js ''c'') Member HsJoiner None" and ?rj = "example_record HsJoiner None"
  let ?sj = "admitting_session (js ''c'') Member HsJoiner None"
  let ?mk = "sealed_frame (js ''member_key'') (fst (sealUnderKe toy (replicate 32 9) (replicate 32 1) 0))"
  have ke: "deref (admitting_client me r hr j) 5 = replicate 32 9" "s_pub (admitting_session me r hr j) = replicate 32 1" for me r hr j
    by (simp_all add: admitting_client_def deref_def admitting_session_def example_session_def)
  have frames: "frame_in (sealed_frame t d) t (js ''h'') d" for t d by (simp add: frame_in_def sealed_frame_def)
  have roles: "hr_role ?ro = HsOwner" "hr_joiner ?ro = Some (js ''c'')"
    "find (\<lambda>e. hr_joiner (snd e) = Some (js ''c'')) (s_handshakes ?so) = Some (js ''h'', ?ro)"
    "hr_role ?rj = HsJoiner" "s_firstOwnerPub ?sj = None" "cl_random ?o = 0" "deref ?o 5 = deref ?j 5"
    by (simp_all add: example_record_def admitting_session_def example_session_def ke)
      (simp add: admitting_client_def example_client_def initial_client_def)
  have good: "\<forall>i \<in> set (s_knownMembers ?so). \<not> bad_peer toy (deref ?o) ?so i"
    by (simp add: bad_peer_def admitting_client_def admitting_session_def example_session_def deref_def toy_def nth_Cons')
  have frame1: "frame_in ?mk (js ''member_key'') (js ''h'') (fst (sealUnderKe toy (deref ?j 5) (s_pub ?sj) 0))"
    and frame2: "frame_in ?mk (js ''member_key'') (js ''h'') (fst (sealUnderKe toy (deref ?o 5) (s_pub ?so) 0))"
    unfolding ke by (rule frames)+
  from joiner_is_admitted [OF toy_aead_ok toy_hkdf_ok toy_x25519_ok admitting_example roles(1,2,3) good
      admitting_example roles(4,5,7) frame1 frame2]
  obtain t ss' k env where run: "dispatch toy ?mk ?o = Done t" "deref t k = fst (generateRoomKey toy 0)"
      "held_keys t = window_push (deref t k) (held_keys ?o)"
    and joins: "\<And>m ms. frame_in m (js ''key_deliver'') (js ''h'') env \<Longrightarrow> ms \<in> {[?mk, m], [m, ?mk]} \<Longrightarrow>
      \<exists>u. for_each (dispatch toy) ms ?j = Done u \<and> has_joined (deref t k) (js ''h'') ?sj 5 ?j u"
    unfolding roles(6) by (elim exE conjE) (rule that, assumption+, drule spec, drule spec, drule (1) mp, drule (1) mp)
  obtain u where "for_each (dispatch toy) [sealed_frame (js ''key_deliver'') env, ?mk] ?j = Done u"
      and u: "has_joined (deref t k) (js ''h'') ?sj 5 ?j u"
    using joins [OF frames] by blast
  moreover have "hd (held_keys u) = deref t k" using u by (simp add: has_joined_def window_push_def)
  moreover have "hd (held_keys t) = deref t k" by (simp add: run(3) window_push_def)
  ultimately show ?thesis
    unfolding run(2) by (intro exI [of _ t] exI [of _ env] exI [of _ u] conjI run(1))
qed

end
