(* ===== verification/Provenance.thy ===== *)
theory Provenance
  imports SessionView Admission
begin

text \<open>
  Where keys come from. Whatever frame arrives, a room key that is new in the window was made by
  this client or opened with a public key on file, and a public key that is new on file was opened
  under the secret of a confirmed handshake or under a held room key.
\<close>

section \<open>The parts of a session that are trusted\<close>

definition trusted :: "session \<Rightarrow> ref list \<times> (jsstr, ref) js_map \<times> ref option" where
  "trusted ss = (s_keys ss, s_memberPubs ss, s_firstOwnerPub ss)"

interpretation trust: session_view trusted
  by unfold_locales (simp_all add: trusted_def)

interpretation keys: session_view s_keys
  by unfold_locales simp_all

interpretation pubs: session_view s_memberPubs
  by unfold_locales simp_all

text \<open>An operation that keeps them, or ends the session.\<close>

definition keeps_trust :: "client \<Rightarrow> client \<Rightarrow> bool" where
  "keeps_trust s t \<longleftrightarrow> cl_session t = None \<or> view trusted t = view trusted s"

lemma kept_trust: "view trusted t = view trusted s \<Longrightarrow> keeps_trust s t"
  by (simp add: keeps_trust_def)

lemma keeps_trust_trans: "keeps_trust s t \<Longrightarrow> keeps_trust t u \<Longrightarrow> (cl_session t = None \<Longrightarrow> cl_session u = None) \<Longrightarrow> keeps_trust s u"
  by (auto simp: keeps_trust_def)

lemma teardown_ends [simp]: "cl_session (teardown b s) = None"
proof (cases "cl_session s")
  case None
  then show ?thesis by (simp add: teardown_def Let_def)
qed (rule teardown_session(1))

lemma callback_no_session: "cl_session s = None \<Longrightarrow> cl_session (run_callback P h r x s) = None"
  by (cases x) (auto simp: run_callback_def hs_failed_defs hs_confirmed_def with_session_def delete_handshake_def split: hs_role.split)

lemma callback_keeps_trust: "keeps_trust s (run_callback P h r x s)"
  by (cases x; cases r) (simp_all add: run_callback_def hs_failed_defs kept_trust session_kept, simp_all add: keeps_trust_def)

lemma callbacks_keep_trust: "keeps_trust s (run_callbacks P h r xs s)"
proof (induction xs arbitrary: s)
  case (Cons x xs)
  have "cl_session t = None \<Longrightarrow> cl_session (run_callbacks P h r xs t) = None" for t
    by (induction xs arbitrary: t) (simp_all add: callback_no_session)
  then show ?case unfolding run_callbacks_simps by (rule keeps_trust_trans [OF callback_keeps_trust Cons])
qed (simp add: kept_trust)

lemma keeps_trust_cong: "keeps_trust s' t \<Longrightarrow> view trusted s' = view trusted s \<Longrightarrow> keeps_trust s t"
  by (simp add: keeps_trust_def)

lemma keeps_trust_after: "keeps_trust s t \<Longrightarrow> (\<And>x. trusted (f x) = trusted x) \<Longrightarrow> keeps_trust s (upd_session f t)"
  by (auto simp: keeps_trust_def)

lemma begin_handshake_keeps_trust: "keeps_trust s (state_of (begin_handshake P r role j code h s))"
proof (cases "new_handshake P r code h (cl_random s)")
  case (Inl e)
  then show ?thesis by (simp add: begin_handshake_def kept_trust)
next
  case (Inr x)
  obtain hs outs pos where x: "x = ((hs, outs), pos)" by (cases x) auto
  have "keeps_trust s (run_callbacks P h role outs (s\<lparr>cl_random := pos\<rparr>))"
    by (rule keeps_trust_cong [OF callbacks_keep_trust]) simp
  then show ?thesis
    using Inr x by (simp add: begin_handshake_def Let_def keeps_trust_after trusted_def)
qed

lemma handlers_keep_trust:
  "keeps_trust s (state_of (onInviteRedeemed P m s))" "keeps_trust s (state_of (onRedeemOk P m s))"
  "keeps_trust s (state_of (onPake P m s))" "keeps_trust s (handleError m s)"
proof -
  have self: "keeps_trust s s" by (simp add: kept_trust)
  have start: "keeps_trust s (state_of (begin_handshake P r role j code h s'))" if "view trusted s' = view trusted s"
    for r role j code h s' by (rule keeps_trust_cong [OF begin_handshake_keeps_trust that])
  show "keeps_trust s (state_of (onInviteRedeemed P m s))" "keeps_trust s (state_of (onRedeemOk P m s))"
    by (auto simp: onInviteRedeemed_def onRedeemOk_def with_session_out_def Let_def self trusted_def
        intro!: start split: option.split prod.split)
  have "keeps_trust s (run_callbacks P h r outs (upd_handshake h f s))" for h r outs f
    by (rule keeps_trust_cong [OF callbacks_keep_trust]) (rule trust.upd_handshake_kept)
  then show "keeps_trust s (state_of (onPake P m s))"
    by (auto simp: onPake_def self split: option.split sum.split)
  show "keeps_trust s (handleError m s)"
    by (auto simp: handleError_def Let_def self kept_trust session_kept) (simp_all add: keeps_trust_def)
qed

section \<open>Room keys\<close>

text \<open>A key array of \<open>t\<close> that \<open>s\<close> did not have holds the bytes \<open>b\<close>.\<close>

definition new_key :: "client \<Rightarrow> client \<Rightarrow> bytes \<Rightarrow> bool" where
  "new_key s t b \<longleftrightarrow> (\<forall>ss ss' q. cl_session s = Some ss \<and> cl_session t = Some ss'
     \<and> q \<in> set (s_keys ss') \<and> q \<notin> set (s_keys ss) \<longrightarrow> deref t q = b)"

lemma new_key_same: "view s_keys t = view s_keys s \<Longrightarrow> new_key s t b"
  by (auto simp: new_key_def view_def)

lemma new_key_view:
  "new_key s t b \<longleftrightarrow> (case (view s_keys s, view s_keys t) of
     (Some ks, Some ks') \<Rightarrow> \<forall>q \<in> set ks' - set ks. deref t q = b | _ \<Rightarrow> True)"
  by (auto simp: new_key_def view_def split: option.split)

lemma new_key_cong:
  "new_key s t b \<Longrightarrow> view s_keys t' = view s_keys t \<Longrightarrow> deref t' = deref t \<Longrightarrow> new_key s t' b"
  by (auto simp: new_key_view split: option.splits)

lemma new_key_start: "new_key s' t b \<Longrightarrow> view s_keys s' = view s_keys s \<Longrightarrow> new_key s t b"
  by (simp add: new_key_view)

lemma push_new:
  assumes "client_ok s" and "cl_session s = Some ss" and "alloc b s = (r, s1)"
  shows "new_key s (pushKey r s1) b"
proof -
  note new = alloc_eq [OF assms(3)]
  have fresh: "r \<notin> set (s_keys ss)"
    using fresh_ref_not_key [OF assms(1,2)] by (simp add: new(1) shape_def)
  have s1: "cl_session s1 = Some ss" by (simp add: new(2) assms(2))
  have "deref (pushKey r s1) r = b"
    using fresh dropped_in_tail [of r r "s_keys ss"] by (auto simp: pushKey_session(2) [OF s1] new(3))
  then show ?thesis
    using assms(2) alloc_push(1) [OF assms] by (auto simp: new_key_def dest!: in_set_takeD)
qed

lemma fresh_push_new:
  assumes "client_ok s" and "cl_session s = Some ss" and "fresh_key P s = (k, s1)"
  shows "new_key s (pushKey k s1) (fst (generateRoomKey P (cl_random s)))"
  using fresh_push(1,2) [OF assms] assms(2) by (auto simp: new_key_def dest!: in_set_takeD)

text \<open>What follows the push keeps the window and the store.\<close>

definition same_window :: "client \<Rightarrow> client \<Rightarrow> bool" where
  "same_window t u \<longleftrightarrow> view s_keys u = view s_keys t \<and> cl_heap u = cl_heap t"

lemma same_window_new: "new_key s t b \<Longrightarrow> same_window t u \<Longrightarrow> new_key s u b"
  by (rule new_key_cong) (simp_all add: same_window_def deref_cong [of u t])

lemma same_window_trans: "same_window t u \<Longrightarrow> same_window u v \<Longrightarrow> same_window t v"
  by (simp add: same_window_def)

lemma same_window_refl [simp]: "same_window t t"
  by (simp add: same_window_def)

lemma same_window_rekey: "same_window t (state_of (rekeyMember P i k t))"
proof -
  have "cl_heap (state_of (rekeyMember P i k t)) = cl_heap t"
    by (simp add: rekeyMember_def with_session_out_def split: option.split sum.split prod.split)
  then show ?thesis by (simp add: same_window_def session_kept)
qed

lemma same_window_rekeys:
  "same_window t (state_of (for_each (\<lambda>i. rekeyMember P i k) ids t))"
  "same_window t (state_of (for_each (\<lambda>i t. with_session_out t (\<lambda>ss.
     if i \<noteq> s_memberId ss then rekeyMember P i k t else Done t)) ids t))"
proof -
  have two: "same_window t (state_of (rekeyMember P i k u))" if "same_window t u" for i u
    by (rule same_window_trans [OF that same_window_rekey])
  have one: "same_window t (state_of (with_session_out u (\<lambda>ss. if i \<noteq> s_memberId ss then rekeyMember P i k u else Done u)))"
    if "same_window t u" for i u
    using that two [OF that] by (simp add: with_session_out_def split: option.split)
  show "same_window t (state_of (for_each (\<lambda>i. rekeyMember P i k) ids t))"
    by (rule outcome_invariant_for_each [where I = "same_window t"]) (simp_all add: two)
  show "same_window t (state_of (for_each (\<lambda>i t. with_session_out t (\<lambda>ss.
     if i \<noteq> s_memberId ss then rekeyMember P i k t else Done t)) ids t))"
    by (rule outcome_invariant_for_each [where I = "same_window t"]) (simp_all add: one)
qed

lemma rotateForJoin_window:
  assumes Some: "cl_session s = Some ss" and new: "fresh_key P s = (k, s1)"
  shows "same_window (pushKey k s1) (state_of (rotateForJoin P j pub s))"
proof -
  let ?p = "pushKey k s1"
  have send: "same_window t (send x (t\<lparr>cl_random := pos\<rparr>))" for t x pos by (simp add: same_window_def)
  have last: "same_window t (upd_session (\<lambda>x. x\<lparr>s_knownMembers := f x\<rparr>) u)" if "same_window t u" for t u f
    using that by (simp add: same_window_def)
  have loop: "same_window t (state_of (and_then (for_each (\<lambda>i. rekeyMember P i k) ids u)
      (\<lambda>t2. Done (upd_session (\<lambda>x. x\<lparr>s_knownMembers := set_add j (s_knownMembers x)\<rparr>) t2))))"
    if "same_window t u" for t u ids
    by (rule outcome_invariant_and_then [where I = "same_window t"])
      (simp_all add: last same_window_trans [OF that same_window_rekeys(1)])
  show ?thesis
    unfolding rotateForJoin_def with_session_out_def Some option.case new Let_def prod.case
    by (rule outcome_invariant_and_then [where I = "same_window ?p"])
      (auto intro!: loop send split: option.split sum.split)
qed

lemma rotateForJoin_new:
  assumes ok: "client_ok s"
  shows "new_key s (state_of (rotateForJoin P j pub s)) (fst (generateRoomKey P (cl_random s)))"
proof (cases "cl_session s")
  case None
  then show ?thesis by (simp add: new_key_def)
next
  case (Some ss)
  obtain k s1 where new: "fresh_key P s = (k, s1)" by (cases "fresh_key P s")
  show ?thesis by (rule same_window_new [OF fresh_push_new [OF ok Some new] rotateForJoin_window [OF Some new]])
qed

lemma rotate_for_leavers_new:
  assumes ok: "client_ok s"
  shows "new_key s (state_of (rotate_for_leavers P removed current s)) (fst (generateRoomKey P (cl_random s)))"
proof (cases "cl_session s")
  case None
  then show ?thesis by (simp add: new_key_def)
next
  case (Some ss)
  let ?s1 = "s\<lparr>cl_session := Some (forget removed ss)\<rparr>"
  obtain k s2 where new: "fresh_key P ?s1 = (k, s2)" by (cases "fresh_key P ?s1")
  have "new_key ?s1 (pushKey k s2) (fst (generateRoomKey P (cl_random s)))"
    using fresh_push_new [OF forget_ok [OF ok Some] _ new] by simp
  then have "new_key ?s1 (state_of (rotate_for_leavers P removed current s)) (fst (generateRoomKey P (cl_random s)))"
    unfolding rotate_for_leavers_def forget_all [OF Some] Let_def new prod.case
    by (rule same_window_new) (rule same_window_rekeys(2))
  then show ?thesis by (rule new_key_start) (simp add: view_def Some)
qed

text \<open>Where a room key that is new in the window comes from, for each kind of frame.\<close>

inductive key_source :: "'p prims \<Rightarrow> server_msg \<Rightarrow> client \<Rightarrow> session \<Rightarrow> bytes \<Rightarrow> bool"
  for P m s ss where
  made_for_leavers: "sm_type m = js ''presence'' \<Longrightarrow> ownerIdOf (or_else (sm_members m) []) = s_memberId ss \<Longrightarrow>
    key_source P m s ss (fst (generateRoomKey P (cl_random s)))"
| made_for_joiner: "sm_type m = js ''member_key'' \<Longrightarrow> sm_handshake m = Some h \<Longrightarrow> sm_data m = Some d \<Longrightarrow>
    awaits_key s ss h rec kr \<Longrightarrow> hr_role rec = HsOwner \<Longrightarrow> openUnderKe P (deref s kr) d = Inr pub \<Longrightarrow>
    key_source P m s ss (fst (generateRoomKey P (cl_random s)))"
| from_owner: "sm_type m = js ''rekey'' \<Longrightarrow> sm_data m = Some d \<Longrightarrow> map_of (s_memberPubs ss) (s_ownerId ss) = Some ro \<Longrightarrow>
    openRoomKey P (deref s (s_priv ss)) (deref s ro) d = Inr b \<Longrightarrow> key_source P m s ss b"
| delivered: "sm_type m = js ''key_deliver'' \<Longrightarrow> sm_data m = Some d \<Longrightarrow> s_firstOwnerPub ss = Some ro \<Longrightarrow>
    openRoomKey P (deref s (s_priv ss)) (deref s ro) d = Inr b \<Longrightarrow> key_source P m s ss b"
| delivered_early: "sm_type m = js ''member_key'' \<Longrightarrow> sm_handshake m = Some h \<Longrightarrow> sm_data m = Some d \<Longrightarrow>
    awaits_key s ss h rec kr \<Longrightarrow> hr_role rec = HsJoiner \<Longrightarrow> hr_pending rec = Some env \<Longrightarrow>
    openUnderKe P (deref s kr) d = Inr pub \<Longrightarrow> openRoomKey P (deref s (s_priv ss)) pub env = Inr b \<Longrightarrow>
    key_source P m s ss b"

inductive_cases key_source_cases: "key_source P m s ss b"

text \<open>Every key that is new in \<open>t\<close> satisfies \<open>Q\<close>.\<close>

definition new_keys :: "client \<Rightarrow> client \<Rightarrow> (bytes \<Rightarrow> bool) \<Rightarrow> bool" where
  "new_keys s t Q \<longleftrightarrow> (\<forall>ss ss' q. cl_session s = Some ss \<and> cl_session t = Some ss'
     \<and> q \<in> set (s_keys ss') \<and> q \<notin> set (s_keys ss) \<longrightarrow> Q (deref t q))"

lemma new_keys_one: "new_key s t b \<Longrightarrow> Q b \<Longrightarrow> new_keys s t Q"
  by (auto simp: new_key_def new_keys_def)

lemma new_keys_same: "view s_keys t = view s_keys s \<Longrightarrow> new_keys s t Q"
  by (auto simp: new_keys_def view_def)

lemma new_keys_ended: "cl_session t = None \<Longrightarrow> new_keys s t Q"
  by (simp add: new_keys_def)

lemma new_keys_view:
  "new_keys s t Q \<longleftrightarrow> (case (view s_keys s, view s_keys t) of
     (Some ks, Some ks') \<Rightarrow> \<forall>q \<in> set ks' - set ks. Q (deref t q) | _ \<Rightarrow> True)"
  by (auto simp: new_keys_def view_def split: option.split)

lemma trusted_views:
  assumes "view trusted t = view trusted s"
  shows "view s_keys t = view s_keys s" and "view s_memberPubs t = view s_memberPubs s"
  using assms by (cases "cl_session s"; cases "cl_session t"; simp add: view_def trusted_def)+

lemma new_keys_trust: "keeps_trust s t \<Longrightarrow> new_keys s t Q"
  using trusted_views(1) [of t s] by (auto simp: keeps_trust_def new_keys_ended new_keys_same)

lemma onRekey_new:
  assumes "client_ok s" and ss: "cl_session s = Some ss" and "sm_type m = js ''rekey''"
  shows "new_keys s (onRekey P m s) (key_source P m s ss)"
proof -
  have "new_keys s (let (r, s1) = alloc b s in pushKey r s1) (key_source P m s ss)" if "key_source P m s ss b" for b
  proof (cases "alloc b s")
    case (Pair r s1)
    from new_keys_one [OF push_new [OF assms(1,2) this], of "key_source P m s ss"] that show ?thesis by (simp add: Pair)
  qed
  with assms show ?thesis
    by (auto simp: onRekey_def with_session_def new_keys_same simp del: not_None_eq
        intro: key_source.from_owner split: option.split sum.split)
qed

lemma finishJoin_new:
  assumes ok: "client_ok s" and ss: "cl_session s = Some ss"
    and ke: "\<forall>kr. hr_ke rec = Some kr \<longrightarrow> kr < length (cl_heap s)"
    and src: "\<And>ro b. s_firstOwnerPub ss = Some ro \<Longrightarrow> openRoomKey P (deref s (s_priv ss)) (deref s ro) d = Inr b \<Longrightarrow> Q b"
  shows "new_keys s (finishJoin P h rec d s) Q"
proof -
  have "new_keys s (let (r, s1) = alloc b s; s2 = pushKey r s1;
      s3 = (case hr_ke rec of None \<Rightarrow> s2 | Some ke \<Rightarrow> wipeKey ke s2)
      in send (Enter h) (delete_handshake h s3)) Q" if "Q b" for b
  proof -
    obtain r s1 where new: "alloc b s = (r, s1)" by (cases "alloc b s")
    let ?p = "pushKey r s1" and ?w = "case hr_ke rec of None \<Rightarrow> pushKey r s1 | Some ke \<Rightarrow> wipeKey ke (pushKey r s1)"
    have "new_key s ?w b"
    proof (cases "hr_ke rec")
      case (Some kr)
      then have "kr \<noteq> r" using ke alloc_eq(1) [OF new] by auto
      moreover have "set (s_keys x) - set (s_keys ss) \<subseteq> {r}" if "cl_session ?p = Some x" for x
        using that alloc_push(1) [OF ok ss new] by (auto dest!: in_set_takeD)
      ultimately show ?thesis
        using push_new [OF ok ss new] Some ss by (auto simp: new_key_def deref_wipeKey)
    qed (simp add: push_new [OF ok ss new])
    from new_keys_one [where Q = Q, OF new_key_cong [OF this, of "send (Enter h) (delete_handshake h ?w)"]] that
    show ?thesis by (simp add: new Let_def session_kept)
  qed
  then show ?thesis
    using ss src
    by (auto simp: finishJoin_def with_session_def new_keys_same new_keys_ended split: option.split sum.split)
qed

lemma onKeyDeliver_new:
  assumes ok: "client_ok s" and ss: "cl_session s = Some ss" and m: "sm_type m = js ''key_deliver''"
  shows "new_keys s (onKeyDeliver P m s) (key_source P m s ss)"
proof -
  have "new_keys s (finishJoin P h rec d s) (key_source P m s ss)"
    if "map_of (s_handshakes ss) h = Some rec" "sm_data m = Some d" for h rec d
  proof (rule finishJoin_new [OF ok ss])
    show "\<forall>kr. hr_ke rec = Some kr \<longrightarrow> kr < length (cl_heap s)"
      using session_refs(3) [OF ok ss that(1)] other_ref_in_store by blast
  qed (rule key_source.delivered [OF m that(2)])
  then show ?thesis
    using ss by (auto simp: onKeyDeliver_def with_session_def new_keys_same session_kept split: option.split)
qed

lemma accept_new:
  assumes ok: "client_ok s" and ss: "cl_session s = Some ss" and m: "sm_type m = js ''member_key''"
    and frame: "sm_handshake m = Some h" "sm_data m = Some d" and waits: "awaits_key s ss h rec kr"
    and opened: "openUnderKe P (deref s kr) d = Inr pub"
  shows "new_keys s (state_of (accept_peer_key P h rec pub s)) (key_source P m s ss)"
proof -
  obtain r s1 where new: "alloc pub s = (r, s1)" by (cases "alloc pub s")
  note new' = alloc_eq [OF new]
  show ?thesis
  proof (cases "hr_role rec")
    case HsOwner
    let ?j = "or_else (hr_joiner rec) []"
    let ?u = "upd_session (\<lambda>x. x\<lparr>s_memberPubs := map_set ?j r (s_memberPubs x)\<rparr>) s1"
    have "client_ok ?u"
      using ok_alloc [OF new ok] by (intro ok_upd_session) (simp_all add: session_ok_def distinct_map_set)
    note made = rotateForJoin_new [OF this, of P ?j r]
    have u: "view s_keys ?u = view s_keys s" "cl_random ?u = cl_random s"
      by (simp_all add: view_cong [of s1 s] new'(2))
    have "new_key s (state_of (rotateForJoin P ?j r ?u)) (fst (generateRoomKey P (cl_random s)))"
      using new_key_start [OF made u(1)] unfolding u(2) .
    then have "new_key s (state_of (and_then (rotateForJoin P ?j r ?u) (\<lambda>t. Done (delete_handshake h t))))
        (fst (generateRoomKey P (cl_random s)))"
      by (rule new_key_cong) (cases "rotateForJoin P ?j r ?u"; simp add: session_kept)+
    from new_keys_one [where Q = "key_source P m s ss", OF this] show ?thesis
      using key_source.made_for_joiner [OF m frame waits HsOwner opened]
      by (simp add: accept_peer_key_def new HsOwner Let_def)
  next
    case HsJoiner
    let ?u = "upd_session (\<lambda>x. x\<lparr>s_firstOwnerPub := Some r\<rparr>) s1" and ?su = "ss\<lparr>s_firstOwnerPub := Some r\<rparr>"
    have okU: "client_ok ?u"
      using ok_alloc [OF new ok] by (intro ok_upd_session) (simp_all add: session_ok_def)
    have u: "cl_session ?u = Some ?su" "view s_keys ?u = view s_keys s" by (simp_all add: new'(2) ss)
    have rec: "map_of (s_handshakes ss) h = Some rec" "hr_ke rec = Some kr" using waits by (simp_all add: awaits_key_def)
    have kr: "hr_ke rec = Some kr" "kr < length (cl_heap s)"
      using rec other_ref_in_store [OF session_refs(3) [OF ok ss rec]] by simp_all
    have "s_priv ss < length (cl_heap s)" by (rule other_ref_in_store [OF session_refs(1) [OF ok ss]])
    then have priv: "deref s1 (s_priv ss) = deref s (s_priv ss)" by (rule new'(4))
    have "new_keys ?u (finishJoin P h rec env ?u) (key_source P m s ss)" if "hr_pending rec = Some env" for env
    proof (rule finishJoin_new [OF okU u(1)])
      show "\<forall>kr. hr_ke rec = Some kr \<longrightarrow> kr < length (cl_heap ?u)" using kr by (simp add: new'(2))
      show "key_source P m s ss b" if "s_firstOwnerPub ?su = Some ro"
        "openRoomKey P (deref ?u (s_priv ?su)) (deref ?u ro) env = Inr b" for ro b
        using that priv new'(3)
        by (intro key_source.delivered_early [OF m frame waits HsJoiner \<open>hr_pending rec = Some env\<close> opened]) simp
    qed
    then have "new_keys s (finishJoin P h rec env ?u) (key_source P m s ss)" if "hr_pending rec = Some env" for env
      using that u(2) by (simp add: new_keys_view)
    moreover have "new_keys s ?u (key_source P m s ss)" by (rule new_keys_same [OF u(2)])
    ultimately show ?thesis
      by (auto simp: accept_peer_key_def new HsJoiner Let_def falsy_def or_else_def split: option.split)
  qed
qed

lemma onMemberKey_new:
  assumes "client_ok s" and "cl_session s = Some ss" and "sm_type m = js ''member_key''"
  shows "new_keys s (state_of (onMemberKey P m s)) (key_source P m s ss)"
proof -
  have "new_keys s s Q" for Q by (rule new_keys_same) simp
  moreover have "new_keys s (state_of (accept_peer_key P h rec pub s)) (key_source P m s ss)"
    if "sm_handshake m = Some h" "h \<noteq> []" "sm_data m = Some d" "map_of (s_handshakes ss) h = Some rec"
      "hr_ke rec = Some kr" "openUnderKe P (deref s kr) d = Inr pub" for h d rec kr pub
    using that by (intro accept_new [OF assms]) (simp_all add: awaits_key_def)
  ultimately show ?thesis
    using assms(2)
    by (auto simp: onMemberKey_def with_session_out_def falsy_def or_else_def split: option.split sum.split)
qed

lemma broadcastRoster_deref: "deref (broadcastRoster P s) = deref s"
  by (simp add: broadcastRoster_def with_session_def draw_eq split: option.split list.split)

lemma onPresence_new:
  assumes ok: "client_ok s" and ss: "cl_session s = Some ss" and m: "sm_type m = js ''presence''"
  defines "ms \<equiv> or_else (sm_members m) []"
  shows "new_keys s (state_of (onPresence P ms s)) (key_source P m s ss)"
proof -
  let ?b = "fst (generateRoomKey P (cl_random s))"
  let ?s1 = "renderMembers ms (inviteBtn_for (if ownerIdOf ms = s_memberId ss then Owner else Member)
    (upd_session (\<lambda>x. x\<lparr>s_ownerId := ownerIdOf ms, s_role := if ownerIdOf ms = s_memberId ss then Owner else Member\<rparr>) s))"
  have "client_ok ?s1"
    by (intro ok_renderMembers ok_texts ok_upd_session ok) (simp add: session_ok_def)
  then have s1: "view s_keys ?s1 = view s_keys s" "client_ok ?s1" "cl_random ?s1 = cl_random s"
    by (simp_all add: session_kept)
  show ?thesis
  proof (cases "ownerIdOf ms = s_memberId ss")
    case False
    with s1(1) show ?thesis
      using ss by (simp add: onPresence_def with_session_out_def new_keys_same Let_def)
  next
    case True
    have known: "view s_keys (if c then upd_session (\<lambda>x. x\<lparr>s_knownMembers := l\<rparr>) ?s1 else ?s1) = view s_keys s"
      "client_ok (if c then upd_session (\<lambda>x. x\<lparr>s_knownMembers := set_of_list l\<rparr>) ?s1 else ?s1)"
      "cl_random (if c then upd_session (\<lambda>x. x\<lparr>s_knownMembers := l\<rparr>) ?s1 else ?s1) = cl_random s" for c l
      using s1 by (auto intro!: ok_upd_session simp: session_ok_def)
    have "new_key s (state_of (owner_duties P c ms ?s1)) ?b" for c
    proof -
      let ?cur = "set_of_list (map mi_id ms)"
      let ?u = "if c then upd_session (\<lambda>x. x\<lparr>s_knownMembers := ?cur\<rparr>) ?s1 else ?s1"
      have "new_key s (state_of (rotate_for_leavers P rem ?cur ?u)) ?b" for rem
        using new_key_start [OF rotate_for_leavers_new [OF known(2)] known(1)] unfolding known(3) .
      moreover have "new_key s ?u ?b" by (rule new_key_same [OF known(1)])
      moreover have "new_key s (broadcastRoster P (upd_session (\<lambda>x. x\<lparr>s_knownMembers := ?cur\<rparr>) t)) ?b"
        if "new_key s t ?b" for t
        using that by (rule new_key_cong) (simp_all add: session_kept broadcastRoster_deref)
      ultimately show ?thesis
        unfolding owner_duties_def Let_def
        by (intro outcome_invariant_and_then [where I = "\<lambda>t. new_key s t ?b"]) auto
    qed
    from new_keys_one [where Q = "key_source P m s ss", OF this] show ?thesis
      using key_source.made_for_leavers [OF m, of ss P] True ss
      by (simp add: onPresence_def with_session_out_def Let_def ms_def)
  qed
qed

lemma dispatch_new_keys:
  assumes ok: "client_ok s" and ss: "cl_session s = Some ss"
  shows "new_keys s (state_of (dispatch P m s)) (key_source P m s ss)"
proof -
  have entered: "view s_keys (onWelcome m s) = view s_keys s"
    by (simp add: onWelcome_def with_session_def Let_def session_kept split: option.split)
  have roster: "view s_keys (applyRoster P d s) = view s_keys s" for d
    by (cases "cl_session s")
      (simp_all add: applyRoster_def with_session_def for_each_kept set_member_pub_def alloc_def
        split: option.split sum.split json.split)
  show ?thesis
    by (simp add: dispatch_def Let_def new_keys_same entered roster new_keys_ended new_keys_trust [OF handlers_keep_trust(1)]
        new_keys_trust [OF handlers_keep_trust(2)] new_keys_trust [OF handlers_keep_trust(3)]
        new_keys_trust [OF handlers_keep_trust(4)] onPresence_new [OF ok ss] onMemberKey_new [OF ok ss]
        onKeyDeliver_new [OF ok ss] onRekey_new [OF ok ss] session_kept)
qed

section \<open>Public keys\<close>

text \<open>Where a public key that is new on file comes from.\<close>

inductive pub_source :: "'p prims \<Rightarrow> server_msg \<Rightarrow> client \<Rightarrow> session \<Rightarrow> jsstr \<Rightarrow> bytes \<Rightarrow> bool"
  for P m s ss where
  exchanged: "sm_type m = js ''member_key'' \<Longrightarrow> sm_handshake m = Some h \<Longrightarrow> sm_data m = Some d \<Longrightarrow>
    awaits_key s ss h rec kr \<Longrightarrow> hr_role rec = HsOwner \<Longrightarrow> openUnderKe P (deref s kr) d = Inr b \<Longrightarrow>
    pub_source P m s ss (or_else (hr_joiner rec) []) b"
| replicated: "sm_type m = js ''roster'' \<Longrightarrow> decryptAny P (or_else (sm_data m) []) s = Some json \<Longrightarrow>
    bind_result (json_parse json) object_entries = Inr es \<Longrightarrow> (i, JStr t) \<in> set es \<Longrightarrow> b64urlToBytes t = Inr b \<Longrightarrow>
    pub_source P m s ss i b"
| first_owner: "sm_type m = js ''welcome'' \<Longrightarrow> s_firstOwnerPub ss = Some r \<Longrightarrow>
    pub_source P m s ss (ownerIdOf (or_else (sm_members m) [])) (deref s r)"

definition new_pubs :: "client \<Rightarrow> client \<Rightarrow> (jsstr \<Rightarrow> bytes \<Rightarrow> bool) \<Rightarrow> bool" where
  "new_pubs s t Q \<longleftrightarrow> (\<forall>ss ss' i r. cl_session s = Some ss \<and> cl_session t = Some ss'
     \<and> map_of (s_memberPubs ss') i = Some r \<and> map_of (s_memberPubs ss) i \<noteq> Some r \<longrightarrow> Q i (deref t r))"

lemma new_pubs_view:
  "new_pubs s t Q \<longleftrightarrow> (case (view s_memberPubs s, view s_memberPubs t) of
     (Some m, Some m') \<Rightarrow> \<forall>i r. map_of m' i = Some r \<and> map_of m i \<noteq> Some r \<longrightarrow> Q i (deref t r) | _ \<Rightarrow> True)"
  by (auto simp: new_pubs_def view_def split: option.split)

lemma new_pubs_same: "view s_memberPubs t = view s_memberPubs s \<Longrightarrow> new_pubs s t Q"
  by (simp add: new_pubs_view split: option.split)

lemma new_pubs_ended: "cl_session t = None \<Longrightarrow> new_pubs s t Q"
  by (simp add: new_pubs_def)

lemma new_pubs_trust: "keeps_trust s t \<Longrightarrow> new_pubs s t Q"
  using trusted_views(2) [of t s] by (auto simp: keeps_trust_def new_pubs_ended new_pubs_same)

lemma new_pubs_fewer:
  assumes "view s_memberPubs s = Some m" and "view s_memberPubs t = Some m'"
    and "\<And>i r. map_of m' i = Some r \<Longrightarrow> map_of m i = Some r"
  shows "new_pubs s t Q"
  using assms(3) by (auto simp: new_pubs_view assms(1,2))

lemma push_keeps_pubs: "view s_memberPubs (pushKey k s) = view s_memberPubs s"
  by (simp add: pushKey_def with_session_def Let_def split: option.split)

lemma onWelcome_deref: "deref (onWelcome m s) = deref s"
  by (simp add: onWelcome_def with_session_def Let_def showRoom_def split: option.split)

lemma onWelcome_view:
  assumes "cl_session s = Some ss"
  shows "view s_memberPubs (onWelcome m s) = Some (case s_firstOwnerPub ss of None \<Rightarrow> s_memberPubs ss
    | Some r \<Rightarrow> if ownerIdOf (or_else (sm_members m) []) \<noteq> []
        then map_set (ownerIdOf (or_else (sm_members m) [])) r (s_memberPubs ss) else s_memberPubs ss)"
  by (simp add: onWelcome_def with_session_def assms Let_def session_kept) (simp add: view_def assms split: option.split)

lemma onWelcome_pubs:
  assumes ss: "cl_session s = Some ss" and m: "sm_type m = js ''welcome''"
  shows "new_pubs s (onWelcome m s) (pub_source P m s ss)"
  using onWelcome_view [OF ss, of m]
  by (auto simp: onWelcome_deref new_pubs_view view_def ss map_of_map_set split: option.splits if_splits
      intro: pub_source.first_owner [OF m])

lemma onPresence_pubs: "new_pubs s (state_of (onPresence P ms s)) Q"
proof (cases "cl_session s")
  case None
  then show ?thesis by (simp add: new_pubs_def)
next
  case (Some ss)
  define fewer where "fewer t \<longleftrightarrow> (\<exists>m'. view s_memberPubs t = Some m' \<and> (\<forall>i r. map_of m' i = Some r \<longrightarrow>
    map_of (s_memberPubs ss) i = Some r))" for t
  have same: "fewer t \<Longrightarrow> view s_memberPubs u = view s_memberPubs t \<Longrightarrow> fewer u" for t u
    by (simp add: fewer_def)
  have rotate: "fewer (state_of (rotate_for_leavers P removed current t))" if "fewer t" for t removed current
  proof -
    let ?f = "\<lambda>t i. upd_session (\<lambda>ss. ss\<lparr>s_knownMembers := set_delete i (s_knownMembers ss),
        s_memberPubs := map_delete i (s_memberPubs ss)\<rparr>) t"
    have one: "fewer (?f t i)" if "fewer t" for t i
      using that by (auto simp: fewer_def view_def map_of_map_delete split: if_splits)
    have "fewer (foldl ?f t removed)"
      by (rule foldl_preserves [where I = fewer, OF that]) (rule one)
    then have "fewer (pushKey k (snd (fresh_key P (foldl ?f t removed))))" for k
      by (rule same) (simp add: push_keeps_pubs session_kept)
    then show ?thesis
      unfolding rotate_for_leavers_def Let_def split_beta
      by (rule same) (rule for_each_kept, simp add: with_session_out_def session_kept split: option.split)
  qed
  have start: "fewer s" by (simp add: fewer_def view_def Some)
  have known: "fewer (upd_session (\<lambda>x. x\<lparr>s_knownMembers := l\<rparr>) t)" if "fewer t" for t l
    by (rule same [OF that]) simp
  have duties: "fewer (state_of (owner_duties P c ms t))" if "fewer t" for t c
  proof -
    let ?u = "if c then upd_session (\<lambda>x. x\<lparr>s_knownMembers := set_of_list (map mi_id ms)\<rparr>) t else t"
    have u: "fewer ?u" using that known [OF that] by simp
    have cast: "fewer (state_of (Done (broadcastRoster P (upd_session (\<lambda>x. x\<lparr>s_knownMembers := l\<rparr>) v))))"
      if "fewer v" for v l
      unfolding state_of.simps by (rule same [OF known [OF that]]) (rule broadcastRoster_kept)
    have "fewer (state_of (if removed \<noteq> [] then rotate_for_leavers P removed current ?u else Done ?u))" for removed current
      using u rotate [OF u] by simp
    then show ?thesis
      unfolding owner_duties_def Let_def by (rule outcome_invariant_and_then [where I = fewer, OF _ cast])
  qed
  have "fewer (renderMembers ms (inviteBtn_for r (upd_session (\<lambda>x. x\<lparr>s_ownerId := i, s_role := r\<rparr>) s)))" for r i
    by (rule same [OF start]) (simp add: session_kept)
  then have "fewer (state_of (onPresence P ms s))"
    by (simp add: onPresence_def with_session_out_def Some Let_def duties)
  then show ?thesis
    using new_pubs_fewer [of s "s_memberPubs ss"] by (auto simp: fewer_def view_def Some)
qed

lemma finishJoin_pubs: "new_pubs s (finishJoin P h rec d s) Q"
proof -
  have "view s_memberPubs (finishJoin P h rec d s) = view s_memberPubs s \<or> cl_session (finishJoin P h rec d s) = None"
    by (auto simp: finishJoin_def with_session_def Let_def split_beta push_keeps_pubs session_kept
        split: option.split sum.split)
  then show ?thesis by (auto intro: new_pubs_same new_pubs_ended)
qed

lemma room_key_frames_pubs: "new_pubs s (onKeyDeliver P m s) Q" "new_pubs s (onRekey P m s) Q"
proof -
  have self: "new_pubs s s Q" by (rule new_pubs_same) simp
  have "new_pubs s (upd_handshake h f s) Q" for h f by (rule new_pubs_same) (rule pubs.upd_handshake_kept)
  with self show "new_pubs s (onKeyDeliver P m s) Q"
    by (auto simp: onKeyDeliver_def with_session_def intro: finishJoin_pubs split: option.split)
  show "new_pubs s (onRekey P m s) Q"
    by (rule new_pubs_same)
      (simp add: onRekey_def with_session_def Let_def split_beta push_keeps_pubs session_kept split: option.split sum.split)
qed

lemma rotateForJoin_pubs: "view s_memberPubs (state_of (rotateForJoin P j pub s)) = view s_memberPubs s"
  by (simp add: rotateForJoin_def with_session_out_def Let_def split_beta and_then_kept for_each_kept push_keeps_pubs
      session_kept split: option.split sum.split)

lemma rotateForJoin_deref:
  assumes "client_ok s" and "cl_session s = Some ss" and "other_ref (shape s) (s_keys ss) q"
  shows "deref (state_of (rotateForJoin P j pub s)) q = deref s q"
proof -
  obtain k s1 where new: "fresh_key P s = (k, s1)" by (cases "fresh_key P s")
  have "cl_heap (state_of (rotateForJoin P j pub s)) = cl_heap (pushKey k s1)"
    using rotateForJoin_window [OF assms(2) new, of j pub] by (simp add: same_window_def)
  from deref_cong [OF this] show ?thesis
    using fresh_push(3) [OF assms(1,2) new other_ref_in_store [OF assms(3)] other_ref_kept [OF assms(3)]] by simp
qed

lemma onMemberKey_pubs:
  assumes ok: "client_ok s" and ss: "cl_session s = Some ss" and m: "sm_type m = js ''member_key''"
  shows "new_pubs s (state_of (onMemberKey P m s)) (pub_source P m s ss)"
proof -
  have accept: "new_pubs s (state_of (accept_peer_key P h rec pub s)) (pub_source P m s ss)"
    if frame: "sm_handshake m = Some h" "sm_data m = Some d" and waits: "awaits_key s ss h rec kr"
      and opened: "openUnderKe P (deref s kr) d = Inr pub" for h d rec kr pub
  proof -
    obtain r s1 where new: "alloc pub s = (r, s1)" by (cases "alloc pub s")
    have view_s: "view s_memberPubs s = Some (s_memberPubs ss)" by (simp add: view_def ss)
    have s1: "view s_memberPubs s1 = view s_memberPubs s" using alloc_kept [of s_memberPubs pub s] by (simp add: new)
    show ?thesis
    proof (cases "hr_role rec")
      case HsOwner
      let ?j = "or_else (hr_joiner rec) []"
      let ?u = "upd_session (\<lambda>x. x\<lparr>s_memberPubs := map_set ?j r (s_memberPubs x)\<rparr>) s1"
      let ?t = "state_of (accept_peer_key P h rec pub s)" and ?v = "state_of (rotateForJoin P ?j r ?u)"
      have okU: "client_ok ?u"
        using ok_alloc [OF new ok] by (intro ok_upd_session) (simp_all add: session_ok_def distinct_map_set)
      have t: "?t = (case rotateForJoin P ?j r ?u of Done v \<Rightarrow> delete_handshake h v | Throws e v \<Rightarrow> v)"
        by (cases "rotateForJoin P ?j r ?u") (simp_all add: accept_peer_key_def new HsOwner Let_def)
      have view_t: "view s_memberPubs ?t = view s_memberPubs ?v" and deref_t: "deref ?t = deref ?v"
        unfolding t by (cases "rotateForJoin P ?j r ?u"; simp add: session_kept)+
      have pubs: "view s_memberPubs ?t = Some (map_set ?j r (s_memberPubs ss))"
        unfolding view_t rotateForJoin_pubs by (simp add: view_def alloc_eq(2) [OF new] ss)
      have su: "cl_session ?u = Some (ss\<lparr>s_memberPubs := map_set ?j r (s_memberPubs ss)\<rparr>)"
        by (simp add: alloc_eq(2) [OF new] ss)
      have ref: "other_ref (shape ?u) (s_keys ss) r"
        using session_refs(2) [OF okU su, of ?j r] by (simp add: map_of_map_set)
      have "deref ?v r = deref ?u r" by (rule rotateForJoin_deref [OF okU su]) (use ref in simp)
      then have "deref ?t r = pub" using alloc_eq(3) [OF new] by (simp add: deref_t)
      then show ?thesis
        using pub_source.exchanged [OF m frame waits HsOwner opened]
        by (auto simp: new_pubs_view pubs view_s map_of_map_set)
    next
      case HsJoiner
      let ?u = "upd_session (\<lambda>x. x\<lparr>s_firstOwnerPub := Some r\<rparr>) s1"
      have u: "view s_memberPubs ?u = view s_memberPubs s" using s1 by simp
      have "new_pubs s (finishJoin P h rec env ?u) Q" for env Q
        using finishJoin_pubs [of ?u P h rec env Q] u by (simp add: new_pubs_view)
      moreover have "new_pubs s ?u Q" for Q by (rule new_pubs_same [OF u])
      ultimately show ?thesis by (simp add: accept_peer_key_def new HsJoiner Let_def)
    qed
  qed
  have self: "new_pubs s s Q" for Q by (rule new_pubs_same) simp
  show ?thesis
  proof (cases "\<exists>h d rec kr. sm_handshake m = Some h \<and> sm_data m = Some d \<and> awaits_key s ss h rec kr")
    case True
    then obtain h d rec kr where frame: "sm_handshake m = Some h" "sm_data m = Some d" and waits: "awaits_key s ss h rec kr"
      by blast
    show ?thesis
    proof (cases "openUnderKe P (deref s kr) d")
      case (Inr pub)
      from accept [OF frame waits Inr] show ?thesis by (simp add: onMemberKey_opens [OF ss waits frame Inr])
    next
      case (Inl e)
      then have "onMemberKey P m s = Done s"
        using frame waits ss by (simp add: onMemberKey_def with_session_out_def awaits_key_def falsy_def or_else_def)
      then show ?thesis by (simp add: self)
    qed
  next
    case False
    then have "onMemberKey P m s = Done s"
      using ss by (auto simp: onMemberKey_def with_session_out_def awaits_key_def falsy_def or_else_def split: option.split)
    then show ?thesis by (simp add: self)
  qed
qed

lemma set_member_pubs_source:
  assumes "client_ok s" and "\<And>i t b. (i, JStr t) \<in> set es \<Longrightarrow> b64urlToBytes t = Inr b \<Longrightarrow> Q i b"
  shows "new_pubs s (state_of (for_each set_member_pub es s)) Q"
proof (cases "cl_session s")
  case None
  then show ?thesis by (simp add: new_pubs_def)
next
  case (Some ss)
  define I where "I t \<longleftrightarrow> client_ok t \<and> new_pubs s t Q \<and> cl_session t \<noteq> None
    \<and> (\<forall>q < length (cl_heap s). deref t q = deref s q) \<and> length (cl_heap s) \<le> length (cl_heap t)" for t
  have "I (state_of (set_member_pub e t))" if e: "e \<in> set es" and I: "I t" for e t
  proof (cases "\<exists>x b. snd e = JStr x \<and> b64urlToBytes x = Inr b")
    case False
    then have "state_of (set_member_pub e t) = t"
      by (auto simp: set_member_pub_def split: json.split sum.split)
    with I show ?thesis by simp
  next
    case True
    then obtain x b where x: "snd e = JStr x" "b64urlToBytes x = Inr b" by blast
    obtain r t1 where new: "alloc b t = (r, t1)" by (cases "alloc b t")
    note new' = alloc_eq [OF new]
    let ?u = "upd_session (\<lambda>ss. ss\<lparr>s_memberPubs := map_set (fst e) r (s_memberPubs ss)\<rparr>) t1"
    have u: "state_of (set_member_pub e t) = ?u" by (simp add: set_member_pub_def x new)
    have okU: "client_ok ?u" using ok_set_member_pub [of t e] I by (simp add: u I_def)
    obtain tt where tt: "cl_session t = Some tt" using I by (auto simp: I_def)
    have old: "deref t1 q = deref t q" if "map_of (s_memberPubs tt) i = Some q" for i q
      using I by (intro new'(4) other_ref_in_store [OF session_refs(2) [OF _ tt that]]) (simp add: I_def)
    have "Q (fst e) b" using e x by (intro assms(2) [of _ x]) (cases e, simp_all)
    then have "new_pubs s ?u Q"
      using I new'(3) old by (auto simp: new_pubs_def I_def new'(2) tt Some map_of_map_set)
    then show ?thesis using I okU new'(4) by (auto simp: u I_def new'(2) tt)
  qed
  then have "I (state_of (for_each set_member_pub es s))"
    by (rule outcome_invariant_for_each) (simp_all add: I_def assms(1) new_pubs_same Some)
  then show ?thesis by (simp add: I_def)
qed

lemma applyRoster_pubs:
  assumes "client_ok s" and "sm_type m = js ''roster''"
  shows "new_pubs s (applyRoster P (or_else (sm_data m) []) s) (pub_source P m s ss)"
proof -
  have self: "new_pubs s s Q" for Q by (rule new_pubs_same) simp
  have "new_pubs s (state_of (for_each set_member_pub es s)) (pub_source P m s ss)"
    if "decryptAny P (or_else (sm_data m) []) s = Some json" "bind_result (json_parse json) object_entries = Inr es" for json es
    by (rule set_member_pubs_source [OF assms(1)]) (rule pub_source.replicated [OF assms(2) that])
  then show ?thesis
    by (auto simp: applyRoster_def with_session_def self split: option.split sum.split)
qed

lemma dispatch_new_pubs:
  assumes ok: "client_ok s" and ss: "cl_session s = Some ss"
  shows "new_pubs s (state_of (dispatch P m s)) (pub_source P m s ss)"
  by (simp add: dispatch_def Let_def new_pubs_same new_pubs_ended new_pubs_trust [OF handlers_keep_trust(1)]
      new_pubs_trust [OF handlers_keep_trust(2)] new_pubs_trust [OF handlers_keep_trust(3)]
      new_pubs_trust [OF handlers_keep_trust(4)] onPresence_pubs onMemberKey_pubs [OF ok ss]
      room_key_frames_pubs applyRoster_pubs [OF ok] onWelcome_pubs [OF ss] session_kept)

end
