(* ===== verification/ProvenanceProperties.thy ===== *)
theory ProvenanceProperties
  imports Provenance AdmissionProperties
begin

text \<open>
  Which keys a client comes to trust, and one it should not: every key has a source, but a roster
  counts as one under any of the five room keys still held, also under those a member that has
  been removed knows.
\<close>

section \<open>Sources\<close>

text \<open>
  C13: The relay cannot introduce a room key: whatever frame a well-formed client receives, an
  array that is new in its key window holds either a key the client has just made (as the owner,
  for a leaver or for a joiner whose handshake is confirmed), or a key opened with its private
  key and the public key of the room's owner that it has on file or has just opened under the
  secret of a confirmed handshake.
\<close>

theorem room_keys_have_a_source:
  assumes "client_ok s" and "cl_session s = Some ss" and "t = state_of (dispatch P m s)" and "cl_session t = Some ss'"
    and "q \<in> set (s_keys ss')" and "q \<notin> set (s_keys ss)"
  shows "key_source P m s ss (deref t q)"
  using dispatch_new_keys [OF assms(1,2), of P m] assms by (auto simp: new_keys_def)

text \<open>
  C14: The relay cannot introduce a public key: whatever frame a well-formed client receives, an
  array that is new among the members' public keys holds bytes opened under the secret of a
  confirmed handshake (for the member the handshake was started for), or listed for that member
  in a roster that one of the held room keys opens, or the first owner's key, filed under the
  owner's id at the welcome.
\<close>

theorem public_keys_have_a_source:
  assumes "client_ok s" and "cl_session s = Some ss" and "t = state_of (dispatch P m s)" and "cl_session t = Some ss'"
    and "map_of (s_memberPubs ss') i = Some r" and "map_of (s_memberPubs ss) i \<noteq> Some r"
  shows "pub_source P m s ss i (deref t r)"
  using dispatch_new_pubs [OF assms(1,2), of P m] assms by (auto simp: new_pubs_def)

text \<open>The owner's key is sent to the member \<open>a\<close>; the welcome files the first owner's key.\<close>

theorem room_keys_have_a_source_witness:
  "\<exists>env t. dispatch toy (sealed_frame (js ''rekey'') env) (example_pair_client (js ''a'') Member 2) = Done t
    \<and> deref t 5 = replicate 32 6
    \<and> key_source toy (sealed_frame (js ''rekey'') env) (example_pair_client (js ''a'') Member 2)
        (example_session (js ''a'') Member) (replicate 32 6)"
proof -
  let ?s = "example_pair_client (js ''a'') Member 2" and ?ss = "example_session (js ''a'') Member"
  have toy_id: "x25519_public toy b = b" for b by (simp add: toy_def)
  obtain env where env: "openRoomKey toy (replicate 32 2) (replicate 32 4) env = Inr (replicate 32 6)"
    using open_seal_room_key [OF toy_aead_ok toy_hkdf_ok toy_x25519_ok, of "replicate 32 4" "replicate 32 2" "replicate 32 6" 0]
    by (auto simp: toy_id KEY_LEN_def)
  obtain r s1 where new: "alloc (replicate 32 (6 :: byte)) ?s = (r, s1)" by (cases "alloc (replicate 32 (6 :: byte)) ?s")
  have r: "r = 5" using alloc_eq(1) [OF new] by (simp add: example_pair_client_def)
  let ?m = "sealed_frame (js ''rekey'') env" and ?t = "pushKey r s1"
  have run: "dispatch toy ?m ?s = Done ?t"
    using env new example_pair_facts(4,6) [where me = "js ''a''" and r = Member and own = 2]
    by (simp add: dispatch_def sealed_frame_def onRekey_def with_session_def example_pair_facts(2))
      (simp add: example_session_def)
  note push = alloc_push(1) [OF example_pair_ok example_pair_facts(2) new]
  have keys: "s_keys ?ss = [0]" by (simp add: example_session_def)
  have b: "deref ?t r = replicate 32 6"
    using push_new [OF example_pair_ok example_pair_facts(2) new] push
    by (simp add: new_key_def example_pair_facts(2) keys r MAX_KEPT_KEYS_def)
  have "key_source toy ?m ?s ?ss (deref ?t r)"
    by (rule room_keys_have_a_source [OF example_pair_ok example_pair_facts(2) _ push])
      (simp_all add: run keys r MAX_KEPT_KEYS_def)
  then show ?thesis using run b by (auto simp: r)
qed

definition newcomer_session :: session where
  "newcomer_session = (example_session (js ''a'') Member)\<lparr>s_memberPubs := [], s_firstOwnerPub := Some 4\<rparr>"

definition example_newcomer :: client where
  "example_newcomer = (example_client (js ''a'') Member)\<lparr>cl_session := Some newcomer_session\<rparr>"

theorem public_keys_have_a_source_witness:
  "pub_source toy ((sealed_frame (js ''welcome'') [])\<lparr>sm_members := Some [member_named (js ''o'') Owner]\<rparr>) example_newcomer
    newcomer_session (js ''o'') (replicate 32 4)"
proof -
  let ?m = "(sealed_frame (js ''welcome'') [])\<lparr>sm_members := Some [member_named (js ''o'') Owner]\<rparr>"
  let ?s = example_newcomer and ?ss = newcomer_session
  let ?t = "state_of (dispatch toy ?m ?s)"
  have ss: "cl_session ?s = Some ?ss" by (simp add: example_newcomer_def)
  have ok: "client_ok ?s"
    by (simp add: example_newcomer_def newcomer_session_def client_ok_def example_client_def example_session_def initial_client_def
        session_ok_def shape_def other_ref_def values_sat_def KEY_LEN_def MAX_KEPT_KEYS_def nth_Cons')
  have t: "?t = onWelcome ?m ?s" by (simp add: dispatch_def sealed_frame_def)
  have d: "deref ?t 4 = replicate 32 4"
  proof -
    have "deref ?s 4 = replicate 32 4" by (simp add: example_newcomer_def example_client_def deref_def)
    then show ?thesis unfolding t onWelcome_deref .
  qed
  have "view s_memberPubs ?t = Some [(js ''o'', 4)]"
    unfolding t onWelcome_view [OF ss]
    by (simp add: newcomer_session_def ownerIdOf_def member_named_def or_else_def)
  then obtain ss' where ss': "cl_session ?t = Some ss'" "s_memberPubs ss' = [(js ''o'', 4)]" by (auto simp: view_def)
  have "pub_source toy ?m ?s ?ss (js ''o'') (deref ?t 4)"
    by (rule public_keys_have_a_source [OF ok ss refl ss'(1)])
      (simp_all add: ss'(2) newcomer_session_def)
  then show ?thesis by (simp add: d)
qed

section \<open>A roster under an old key\<close>

text \<open>What a member does with a roster of one entry and with a rotated key from the owner it then has on file.\<close>

lemma one_entry_roster:
  assumes "cl_session s = Some ss" and "decryptAny P env s = Some (stringify (JObj [(i, JStr (bytesToB64url b))]))"
    and "alloc b s = (r, s1)"
  shows "applyRoster P env s = upd_session (\<lambda>x. x\<lparr>s_memberPubs := map_set i r (s_memberPubs x)\<rparr>) s1"
proof -
  have "json_parse (stringify (JObj [(i, JStr (bytesToB64url b))])) = Inr (JObj [(i, JStr (bytesToB64url b))])"
    by (rule json_roundtrip) simp
  then show ?thesis
    using assms by (simp add: applyRoster_def with_session_def object_entries_def set_member_pub_def b64url_roundtrip del: stringify.simps)
      simp
qed

lemma rekey_opens:
  assumes "cl_session s = Some ss" and "map_of (s_memberPubs ss) (s_ownerId ss) = Some r"
    and "openRoomKey P (deref s (s_priv ss)) (deref s r) env = Inr x" and "alloc x s = (q, s1)" and "sm_data m = Some env"
  shows "onRekey P m s = pushKey q s1"
  using assms by (simp add: onRekey_def with_session_def)

lemma pushKey_staged: "cl_staged (pushKey k s) = cl_staged s"
  by (simp add: pushKey_def with_session_def Let_def split: option.split)

lemma submitted_under_newest:
  assumes "aead_ok P" and "client_ok t" and "connected ss t" and "cl_staged t = None" and "held_keys t = x # ks"
    and "js_trim body \<noteq> []" and "plain_text body"
  shows "\<exists>env. sent_on (message_submitted P body t) (s_ws ss) = sent_on t (s_ws ss) @ [client_msg_text (Msg env)]
    \<and> decryptMessage P x env = Inr body"
proof -
  obtain k rest where keys: "s_keys ss = k # rest" "deref t k = x"
    using assms(5) connected_session [OF assms(3)] by (auto simp: held_keys_def)
  let ?env = "fst (encryptMessage P x body (cl_random t))"
  have "length x = 32" using ok_lengths(3) [OF assms(2) connected_session [OF assms(3)], of x] assms(5) by simp
  then have "decryptMessage P x ?env = Inr body" using assms(1,7) by (simp add: decrypt_encrypt KEY_LEN_def)
  moreover have "connected ss (t\<lparr>cl_random := cl_random t + NONCE_LEN\<rparr>)" using assms(3) by simp
  from sent_send(1) [OF this, of "Msg ?env"]
  have "sent_on (message_submitted P body t) (s_ws ss) = sent_on t (s_ws ss) @ [client_msg_text (Msg ?env)]"
    unfolding message_submitted_sends [OF assms(3) keys(1) assms(6,4)] keys(2) by simp
  ultimately show ?thesis by blast
qed

text \<open>
  C15: Whoever knows one of the five room keys a member still holds (a member that was removed up
  to four rotations ago, say) can take over the member's channel with two frames the relay lets
  through: a roster sealed under that key that gives the owner's id a public key of their own,
  and a room key of their choice sealed with it. The member then puts that key in front of its
  window and seals what its user types under it.
\<close>

theorem old_key_roster_takes_over:
  assumes "aead_ok P" "hkdf_ok P" "x25519_ok P"
    and "client_ok s" and "connected ss s" and "cl_staged s = None" and "held_keys s = newer @ k # older"
    and "\<forall>q \<in> set newer. \<exists>e. decryptMessage P q (fst (encryptMessage P k roster pos)) = Inl e"
    and roster: "roster = stringify (JObj [(s_ownerId ss, JStr (bytesToB64url (x25519_public P priv)))])"
    and "length priv = 32" and "length x = 32"
    and seal: "sealRoomKey P priv (x25519_public P (deref s (s_priv ss))) x pos' = Inr (env, pos'')"
    and m1: "sm_type m1 = js ''roster''" "sm_data m1 = Some (fst (encryptMessage P k roster pos))"
    and m2: "sm_type m2 = js ''rekey''" "sm_data m2 = Some env"
  shows "\<exists>t ss'. for_each (dispatch P) [m1, m2] s = Done t \<and> connected ss' t \<and> held_keys t = window_push x (held_keys s)
    \<and> (\<forall>body. js_trim body \<noteq> [] \<and> plain_text body \<longrightarrow>
        (\<exists>env. sent_on (message_submitted P body t) (s_ws ss) = sent_on s (s_ws ss) @ [client_msg_text (Msg env)]
          \<and> decryptMessage P x env = Inr body))"
proof -
  have ss: "cl_session s = Some ss" using assms(5) by (rule connected_session)
  let ?A = "x25519_public P priv" and ?o = "s_ownerId ss"
  obtain r s1 where new: "alloc ?A s = (r, s1)" by (cases "alloc ?A s")
  let ?u = "upd_session (\<lambda>y. y\<lparr>s_memberPubs := map_set ?o r (s_memberPubs y)\<rparr>) s1"
  let ?su = "ss\<lparr>s_memberPubs := map_set ?o r (s_memberPubs ss)\<rparr>"
  note filed = owner_files_key [OF assms(4,5) new]
  have "plain_text roster" unfolding roster by (rule plain_text_object)
  then have "decryptAny P (fst (encryptMessage P k roster pos)) s = Some roster"
    using decryptAny_held [OF assms(1) _ _ assms(7,8)] ok_lengths(3) [OF assms(4) ss, of k] assms(7) by simp
  then have "applyRoster P (fst (encryptMessage P k roster pos)) s = ?u"
    unfolding roster by (rule one_entry_roster [OF ss _ new])
  then have run1: "dispatch P m1 s = Done ?u" by (simp add: dispatch_def m1 or_else_def)
  have su: "cl_session ?u = Some ?su" using filed(2) by (rule connected_session)
  have "length (deref s (s_priv ss)) = 32" by (rule ok_lengths(1) [OF assms(4) ss])
  then have "openRoomKey P (deref s (s_priv ss)) ?A env = Inr x"
    using open_seal_room_key [OF assms(1-3,10), of "deref s (s_priv ss)" x pos'] assms(11) seal by (auto simp: KEY_LEN_def)
  then have opened: "openRoomKey P (deref s1 (s_priv ss)) (deref s1 r) env = Inr x"
    using filed(4,5) session_refs(1) [OF assms(4) ss] by simp
  obtain q u1 where newx: "alloc x ?u = (q, u1)" by (cases "alloc x ?u")
  let ?t = "pushKey q u1" and ?st = "?su\<lparr>s_keys := take MAX_KEPT_KEYS (q # s_keys ss)\<rparr>"
  have run2: "dispatch P m2 ?u = Done ?t"
    using rekey_opens [OF su _ _ newx m2(2), of r P] opened m2(1) by (simp add: dispatch_def map_of_map_set)
  note push = alloc_push [OF filed(1) su newx]
  have conn: "connected ?st ?t" by (rule connected_cong [OF filed(2)]) (simp_all add: push)
  have staged: "cl_staged ?t = None"
    using assms(6) unfolding pushKey_staged by (simp add: alloc_eq(2) [OF new] alloc_eq(2) [OF newx])
  have okT: "client_ok ?t" using ok_alloc_push [OF newx filed(1)] assms(11) by (simp add: KEY_LEN_def)
  have held: "held_keys ?t = window_push x (held_keys s)" using push(2) filed(6) by simp
  then have front: "held_keys ?t = x # take 4 (held_keys s)" by (simp add: window_push_def)
  have "sent_on ?t (s_ws ss) = sent_on s (s_ws ss)"
    using sent_on_cong [OF push(5)] filed(7) by simp
  then have "\<exists>env. sent_on (message_submitted P body ?t) (s_ws ss) = sent_on s (s_ws ss) @ [client_msg_text (Msg env)]
      \<and> decryptMessage P x env = Inr body" if "js_trim body \<noteq> []" "plain_text body" for body
    using submitted_under_newest [OF assms(1) okT conn staged front that] by simp
  then show ?thesis
    using run1 run2 conn held by (intro exI [of _ ?t] exI [of _ ?st]) simp
qed

text \<open>The member \<open>a\<close> of the example room, where someone knows the room key and has the private key 8.\<close>

theorem old_key_roster_takes_over_witness:
  "\<exists>env1 env2 t. for_each (dispatch toy) [sealed_frame (js ''roster'') env1, sealed_frame (js ''rekey'') env2]
      (example_client (js ''a'') Member) = Done t
    \<and> held_keys t = [replicate 32 6, replicate 32 7]
    \<and> (\<exists>env. sent_on (message_submitted toy (js ''hi'') t) 0 = [client_msg_text (Msg env)]
        \<and> decryptMessage toy (replicate 32 6) env = Inr (js ''hi''))"
proof -
  let ?s = "example_client (js ''a'') Member" and ?ss = "example_session (js ''a'') Member"
  let ?priv = "replicate 32 (8 :: byte)" and ?x = "replicate 32 (6 :: byte)" and ?k = "replicate 32 (7 :: byte)"
  let ?roster = "stringify (JObj [(s_ownerId ?ss, JStr (bytesToB64url (x25519_public toy ?priv)))])"
  let ?env1 = "fst (encryptMessage toy ?k ?roster 0)"
  have held: "held_keys ?s = [] @ ?k # []"
    by (simp add: held_keys_def example_client_def example_session_def deref_def)
  have start: "cl_staged ?s = None" "sent_on ?s 0 = []" "s_ws ?ss = 0"
    by (simp_all add: example_client_def initial_client_def sent_on_def open_socket_def example_session_def)
  obtain env2 where env2: "sealRoomKey toy ?priv (x25519_public toy (deref ?s (s_priv ?ss))) ?x 24 = Inr (env2, 24 + NONCE_LEN)"
    using open_seal_room_key [OF toy_aead_ok toy_hkdf_ok toy_x25519_ok, of ?priv "deref ?s (s_priv ?ss)" ?x 24]
      ok_lengths(1) [OF example_client_ok connected_session [OF example_connected]]
    by (auto simp: KEY_LEN_def)
  let ?m1 = "sealed_frame (js ''roster'') ?env1" and ?m2 = "sealed_frame (js ''rekey'') env2"
  have words: "js_trim (js ''hi'') \<noteq> [] \<and> plain_text (js ''hi'')" by code_simp
  have frames: "sm_type ?m1 = js ''roster''" "sm_data ?m1 = Some ?env1" "sm_type ?m2 = js ''rekey''" "sm_data ?m2 = Some env2"
    by (simp_all add: sealed_frame_def)
  from old_key_roster_takes_over [OF toy_aead_ok toy_hkdf_ok toy_x25519_ok example_client_ok example_connected start(1) held
      _ refl _ _ env2 frames]
  obtain t where run: "for_each (dispatch toy) [?m1, ?m2] ?s = Done t" "held_keys t = window_push ?x (held_keys ?s)"
    and sends: "\<And>body. js_trim body \<noteq> [] \<and> plain_text body \<Longrightarrow>
      \<exists>env. sent_on (message_submitted toy body t) (s_ws ?ss) = sent_on ?s (s_ws ?ss) @ [client_msg_text (Msg env)]
        \<and> decryptMessage toy ?x env = Inr body"
    by auto
  have "held_keys t = [?x, ?k]" by (simp add: run(2) held window_push_def)
  moreover have "\<exists>env. sent_on (message_submitted toy (js ''hi'') t) 0 = [client_msg_text (Msg env)]
      \<and> decryptMessage toy ?x env = Inr (js ''hi'')"
    using sends [OF words] unfolding start by simp
  ultimately show ?thesis using run(1) by blast
qed

end
