(* ===== verification/FileTransfer.thy ===== *)
theory FileTransfer
  imports Delivery
begin

text \<open>
  A file on its way from one client to another: the chunks of a buffer make up the buffer, an
  upload sends them in order, and a download puts them together in whatever order they arrive.
\<close>

section \<open>Cutting a buffer into chunks\<close>

lemma chunk_size_pos: "0 < CHUNK_SIZE"
  by (simp add: CHUNK_SIZE_def)

lemma chunk_total_pos: "0 < chunk_total buf"
  by (simp add: chunk_total_def)

lemma chunks_prefix: "concat (map (chunk_of buf) [0..<n]) = take (n * CHUNK_SIZE) buf"
proof (induction n)
  case (Suc n)
  then show ?case by (simp add: chunk_of_def take_add add.commute [of CHUNK_SIZE])
qed simp

lemma chunks_cover: "length buf \<le> chunk_total buf * CHUNK_SIZE"
proof -
  let ?q = "(length buf + CHUNK_SIZE - 1) div CHUNK_SIZE"
  have "length buf + CHUNK_SIZE - 1 = ?q * CHUNK_SIZE + (length buf + CHUNK_SIZE - 1) mod CHUNK_SIZE" by simp
  moreover have "(length buf + CHUNK_SIZE - 1) mod CHUNK_SIZE < CHUNK_SIZE" using chunk_size_pos by simp
  ultimately have "length buf \<le> ?q * CHUNK_SIZE" using chunk_size_pos by linarith
  also have "\<dots> \<le> chunk_total buf * CHUNK_SIZE" by (simp add: chunk_total_def)
  finally show ?thesis .
qed

lemma chunks_concat: "concat (map (chunk_of buf) [0..<chunk_total buf]) = buf"
  using chunks_cover [of buf] by (simp add: chunks_prefix)

section \<open>The file message of a transfer\<close>

text \<open>A file message that is on the page and belongs to a transfer in progress.\<close>

definition shows_transfer :: "client \<Rightarrow> jsstr \<Rightarrow> nat \<Rightarrow> jsstr \<Rightarrow> file_meta \<Rightarrow> bool \<Rightarrow> bool" where
  "shows_transfer s transfer h nick meta mine \<longleftrightarrow> fileMsg transfer s = Some h \<and> h < length (cl_views s)
     \<and> fv_nick (cl_views s ! h) = nick \<and> fv_meta (cl_views s ! h) = meta \<and> fv_mine (cl_views s ! h) = mine"

definition shown_state :: "jsstr \<Rightarrow> nat \<Rightarrow> file_state" where
  "shown_state t url = (if is_image t then ShownImage url else ShownLink url)"

text \<open>The file is on the page: its message has a link or an image whose URL gives its bytes.\<close>

definition file_shown :: "client \<Rightarrow> nat \<Rightarrow> jsstr \<Rightarrow> file_meta \<Rightarrow> bool \<Rightarrow> bytes \<Rightarrow> bool" where
  "file_shown s h nick meta mine buf \<longleftrightarrow> h < length (cl_views s) \<and> FileItem h \<in> set (ui_messages (cl_ui s))
     \<and> fv_nick (cl_views s ! h) = nick \<and> fv_meta (cl_views s ! h) = meta \<and> fv_mine (cl_views s ! h) = mine
     \<and> (\<exists>url. fv_state (cl_views s ! h) = shown_state (fm_type meta) url
         \<and> (url, buf) \<in> set (cl_blobs s) \<and> (\<exists>ss. cl_session s = Some ss \<and> url \<in> set (s_objectUrls ss)))"

lemma startFileMessage_shows:
  assumes "cl_session s = Some ss" and "startFileMessage transfer nick meta mine s = (h, t)"
  shows "shows_transfer t transfer h nick meta mine" and "FileItem h \<in> set (ui_messages (cl_ui t))"
    and "cl_session t = Some (ss\<lparr>s_fileMsgs := map_set transfer h (s_fileMsgs ss)\<rparr>)"
    and "cl_heap t = cl_heap s" and "cl_sockets t = cl_sockets s" and "cl_random t = cl_random s"
    and "cl_uploads t = cl_uploads s" and "h = length (cl_views s)"
  using assms
  by (auto simp: startFileMessage_def Let_def shows_transfer_def fileMsg_def map_of_map_set upd_ui_def upd_session_def)

lemma finishFileMessage_shown:
  assumes "cl_session s = Some ss" and "shows_transfer s transfer h nick meta mine"
    and "FileItem h \<in> set (ui_messages (cl_ui s))" and "createObjectURL buf s = (url, s1)"
  shows "file_shown (finishFileMessage transfer url (trackUrl url s1)) h nick meta mine buf"
proof -
  have s1: "url = cl_nextUrl s" "s1 = s\<lparr>cl_blobs := cl_blobs s @ [(url, buf)], cl_nextUrl := Suc url\<rparr>"
    using assms(4) by (auto simp: createObjectURL_def)
  have msg: "fileMsg transfer (trackUrl url s1) = Some h"
    using assms(1,2) by (simp add: shows_transfer_def fileMsg_def trackUrl_def s1)
  show ?thesis
    using assms(1-3) msg
    by (auto simp: file_shown_def finishFileMessage_def shown_state_def shows_transfer_def s1 trackUrl_def upd_view_def
        upd_session_def)
qed

section \<open>A download\<close>

text \<open>A frame that carries chunk \<open>i\<close>, sealed under the key of the transfer.\<close>

definition chunk_frame :: "'p prims \<Rightarrow> bytes \<Rightarrow> jsstr \<Rightarrow> (nat \<Rightarrow> bytes) \<Rightarrow> nat \<Rightarrow> server_msg \<Rightarrow> bool" where
  "chunk_frame P key transfer ch i m \<longleftrightarrow> sm_type m = js ''file_chunk'' \<and> sm_transfer m = Some transfer
     \<and> sm_index m = Some (JNum (int i)) \<and> (\<exists>d. sm_data m = Some d \<and> openBytes P key d = Inr (ch i))"

text \<open>What a download holds once the chunks with index in \<open>S\<close> have arrived.\<close>

definition parts_of :: "(nat \<Rightarrow> bytes) \<Rightarrow> nat \<Rightarrow> nat set \<Rightarrow> bytes option list" where
  "parts_of ch n S = map (\<lambda>i. if i \<in> S then Some (ch i) else None) [0..<n]"

definition holds_parts :: "client \<Rightarrow> bytes \<Rightarrow> file_meta \<Rightarrow> (nat \<Rightarrow> bytes) \<Rightarrow> nat \<Rightarrow> nat set \<Rightarrow> incoming \<Rightarrow> bool" where
  "holds_parts s key meta ch n S inc \<longleftrightarrow> in_meta inc = meta \<and> fm_chunks meta = int n
     \<and> deref s (in_key inc) = key \<and> in_parts inc = parts_of ch n S \<and> in_received inc = card S"

definition downloading :: "client \<Rightarrow> jsstr \<Rightarrow> nat \<Rightarrow> bytes \<Rightarrow> jsstr \<Rightarrow> file_meta \<Rightarrow> (nat \<Rightarrow> bytes) \<Rightarrow> nat \<Rightarrow> nat set \<Rightarrow> bool" where
  "downloading s transfer h key nick meta ch n S \<longleftrightarrow> S \<subset> {..<n}
     \<and> (\<exists>inc. incoming_of transfer s = Some inc \<and> holds_parts s key meta ch n S inc)
     \<and> shows_transfer s transfer h nick meta False \<and> FileItem h \<in> set (ui_messages (cl_ui s))"

lemma parts_of_update:
  assumes "i < n"
  shows "(parts_of ch n S)[i := Some (ch i)] = parts_of ch n (insert i S)"
  by (rule nth_equalityI) (use assms in \<open>auto simp: parts_of_def nth_list_update\<close>)

lemma parts_of_all:
  "concat (map (\<lambda>p. case p of Some b \<Rightarrow> b | None \<Rightarrow> u) (parts_of ch n {..<n})) = concat (map ch [0..<n])"
proof -
  have "map (\<lambda>p. case p of Some b \<Rightarrow> b | None \<Rightarrow> u) (parts_of ch n {..<n}) = map ch [0..<n]"
    by (auto simp: parts_of_def)
  then show ?thesis by simp
qed

lemma place_parts:
  assumes "holds_parts s key meta ch n S inc" and "i < n" and "finite S"
  shows "place_chunk (Some (JNum (int i))) (ch i) inc =
    (if i \<in> S then None else Some (inc\<lparr>in_parts := parts_of ch n (insert i S), in_received := card (insert i S)\<rparr>))"
proof -
  have "parts_of ch n S ! i = (if i \<in> S then Some (ch i) else None)"
    using assms(2) by (simp add: parts_of_def)
  then show ?thesis
    using assms parts_of_update [OF assms(2), of ch S] by (simp add: place_chunk_def holds_parts_def)
qed

lemma setFileProgress_shows:
  "shows_transfer s transfer h nick meta mine \<Longrightarrow> shows_transfer (setFileProgress h1 a c s) transfer h nick meta mine"
  by (auto simp: shows_transfer_def setFileProgress_def upd_view_def fileMsg_def nth_list_update split: file_state.split)

lemma chunk_arrives:
  assumes d: "downloading s transfer h key nick meta ch n S" and m: "chunk_frame P key transfer ch i m"
    and i: "i < n"
  shows "if insert i S = {..<n}
    then file_shown (onFileChunk P m s) h nick meta False (concat (map ch [0..<n])) \<and> incoming_of transfer (onFileChunk P m s) = None
    else downloading (onFileChunk P m s) transfer h key nick meta ch n (insert i S)"
proof -
  obtain inc where S: "S \<subset> {..<n}" and inc: "incoming_of transfer s = Some inc" "holds_parts s key meta ch n S inc"
    and shown: "shows_transfer s transfer h nick meta False" "FileItem h \<in> set (ui_messages (cl_ui s))"
    using d by (auto simp: downloading_def)
  have fin: "finite S" using S finite_subset by blast
  obtain ss where ss: "cl_session s = Some ss" "map_of (s_incoming ss) transfer = Some inc"
    using inc(1) by (auto simp: incoming_of_def split: option.splits)
  obtain dat where dat: "sm_data m = Some dat" "openBytes P key dat = Inr (ch i)"
    and m': "sm_transfer m = Some transfer" "sm_index m = Some (JNum (int i))"
    using m by (auto simp: chunk_frame_def)
  have meta: "in_meta inc = meta" "fm_chunks meta = int n" "deref s (in_key inc) = key"
    using inc(2) by (simp_all add: holds_parts_def)
  note place = place_parts [OF inc(2) i fin]
  show ?thesis
  proof (cases "i \<in> S")
    case True
    then have "onFileChunk P m s = s"
      using dat m' inc(1) meta place by (simp add: onFileChunk_def or_else_def)
    with True d S show ?thesis by (auto simp: insert_absorb)
  next
    case False
    let ?inc = "inc\<lparr>in_parts := parts_of ch n (insert i S), in_received := card (insert i S)\<rparr>"
    let ?s1 = "upd_session (\<lambda>x. x\<lparr>s_incoming := map_set transfer ?inc (s_incoming x)\<rparr>) s"
    let ?s2 = "setFileProgress h (int (card (insert i S))) (int n) ?s1"
    let ?ss = "ss\<lparr>s_incoming := map_set transfer ?inc (s_incoming ss)\<rparr>"
    have msg: "fileMsg transfer (upd_session (\<lambda>x. x\<lparr>s_incoming := f x\<rparr>) s) = Some h" for f
      using shown(1) ss(1) by (simp add: shows_transfer_def fileMsg_def)
    have run: "onFileChunk P m s =
        (if int (card (insert i S)) = int n then finishIncoming transfer ?s2 else ?s2)"
      using dat m' inc(1) meta place False by (simp add: onFileChunk_def or_else_def msg Let_def cong: if_weak_cong)
    have full: "card (insert i S) = n \<longleftrightarrow> insert i S = {..<n}"
    proof
      assume "card (insert i S) = n"
      then show "insert i S = {..<n}"
        using card_subset_eq [of "{..<n}" "insert i S"] S i by auto
    qed simp
    have shows1: "shows_transfer ?s1 transfer h nick meta False"
      using shown(1) ss(1) msg by (simp add: shows_transfer_def)
    have s2: "cl_session ?s2 = Some ?ss" "deref ?s2 = deref s" "FileItem h \<in> set (ui_messages (cl_ui ?s2))"
      using ss shown(2) by simp_all
    note shows2 = setFileProgress_shows [OF shows1, of h "int (card (insert i S))" "int n"]
    have inc2: "incoming_of transfer ?s2 = Some ?inc" by (simp add: incoming_of_def ss(1) map_of_map_set)
    have holds2: "holds_parts ?s2 key meta ch n (insert i S) ?inc" using inc(2) s2(2) by (simp add: holds_parts_def)
    show ?thesis
    proof (cases "insert i S = {..<n}")
      case False
      then have "insert i S \<subset> {..<n}" using S i by auto
      with False show ?thesis
        using run full inc2 holds2 shows2 s2(3) by (auto simp: downloading_def)
    next
      case True
      let ?s3 = "delete_incoming transfer ?s2"
      have parts: "concat (map (\<lambda>p. case p of Some b \<Rightarrow> b | None \<Rightarrow> u) (in_parts ?inc)) = concat (map ch [0..<n])" for u
        using parts_of_all [of u ch n] unfolding True [symmetric] by simp
      let ?buf = "concat (map ch [0..<n])"
      obtain url s4 where url: "createObjectURL ?buf ?s3 = (url, s4)" by (cases "createObjectURL ?buf ?s3")
      have fin: "finishIncoming transfer ?s2 = finishFileMessage transfer url (trackUrl url s4)"
        unfolding finishIncoming_def inc2 option.case parts Let_def url by simp
      have s3: "cl_session ?s3 = Some (?ss\<lparr>s_incoming := map_delete transfer (s_incoming ?ss)\<rparr>)"
        by (simp add: delete_incoming_def ss(1))
      have "shows_transfer ?s3 transfer h nick meta False"
        using shows2 by (simp add: shows_transfer_def fileMsg_def delete_incoming_def ss(1))
      moreover have "FileItem h \<in> set (ui_messages (cl_ui ?s3))" using s2(3) by simp
      ultimately have "file_shown (finishIncoming transfer ?s2) h nick meta False (concat (map ch [0..<n]))"
        unfolding fin using finishFileMessage_shown [OF s3 _ _ url] by blast
      moreover have "incoming_of transfer (finishIncoming transfer ?s2) = None"
        unfolding fin using s3 url
        by (auto simp: incoming_of_def finishFileMessage_def trackUrl_def createObjectURL_def map_of_map_delete split: option.split)
      moreover have "int (card (insert i S)) = int n" using full True by simp
      ultimately show ?thesis using run True by simp
    qed
  qed
qed

lemma onFileChunk_idle:
  "incoming_of transfer s = None \<Longrightarrow> sm_transfer m = Some transfer \<Longrightarrow> onFileChunk P m s = s"
  by (simp add: onFileChunk_def or_else_def)

lemma dispatch_files:
  "sm_type m = js ''file_start'' \<Longrightarrow> dispatch P m s = onFileStart P m s"
  "sm_type m = js ''file_chunk'' \<Longrightarrow> dispatch P m s = Done (onFileChunk P m s)"
  "sm_type m = js ''file_end'' \<Longrightarrow> dispatch P m s = Done (onFileEnd m s)"
  by (simp_all add: dispatch_def)

lemma for_each_append: "for_each f (xs @ ys) s = and_then (for_each f xs s) (for_each f ys)"
proof (induction xs arbitrary: s)
  case (Cons x xs)
  then show ?case by (cases "f x s") simp_all
qed simp

lemma chunks_late:
  assumes "list_all2 (chunk_frame P key transfer ch) is ms" and "incoming_of transfer s = None"
  shows "for_each (dispatch P) ms s = Done s"
  using assms by (induction rule: list_all2_induct) (simp_all add: dispatch_files chunk_frame_def onFileChunk_idle)

lemma chunks_arrive:
  assumes "list_all2 (chunk_frame P key transfer ch) idx ms" and "set idx \<subseteq> {..<n}"
    and "S \<union> set idx = {..<n}" and "downloading s transfer h key nick meta ch n S"
  shows "\<exists>t. for_each (dispatch P) ms s = Done t \<and> file_shown t h nick meta False (concat (map ch [0..<n])) \<and> incoming_of transfer t = None"
  using assms
proof (induction arbitrary: S s rule: list_all2_induct)
  case Nil
  then show ?case by (auto simp: downloading_def)
next
  case (Cons i idx m ms)
  let ?s = "onFileChunk P m s"
  have step: "dispatch P m s = Done ?s" using Cons.hyps(1) by (simp add: chunk_frame_def dispatch_files)
  have "i < n" using Cons.prems(1) by simp
  note next_state = chunk_arrives [OF Cons.prems(3) Cons.hyps(1) this]
  show ?case
  proof (cases "insert i S = {..<n}")
    case True
    then show ?thesis using next_state step chunks_late [OF Cons.hyps(2)] by auto
  next
    case False
    then have "downloading ?s transfer h key nick meta ch n (insert i S)" using next_state by simp
    moreover have "insert i S \<union> set idx = {..<n}" "set idx \<subseteq> {..<n}"
      using Cons.prems(1,2) by auto
    ultimately show ?thesis using Cons.IH [of "insert i S" ?s] step Cons.prems(2) by auto
  qed
qed

section \<open>The start of a download\<close>

text \<open>A frame that announces a file, its metadata sealed under a key the receiver can look up.\<close>

definition start_frame :: "'p prims \<Rightarrow> bytes \<Rightarrow> jsstr \<Rightarrow> jsstr \<Rightarrow> file_meta \<Rightarrow> server_msg \<Rightarrow> bool" where
  "start_frame P key kid transfer meta m \<longleftrightarrow> sm_type m = js ''file_start'' \<and> sm_transfer m = Some transfer
     \<and> sm_keyId m = Some kid
     \<and> (\<exists>d. sm_data m = Some d \<and> decryptMessage P key d = Inr (stringify (meta_json meta)))"

lemma meta_read: "json_parse (stringify (meta_json meta)) = Inr (meta_json meta)"
  by (rule json_roundtrip) (simp add: meta_json_def js_def js_char_def)

lemma meta_fields:
  "0 < fm_chunks meta \<Longrightarrow> fm_chunks meta \<le> 100000 \<Longrightarrow> chunk_count (meta_json meta) = Some (Inr (fm_chunks meta))"
  "meta_of (meta_json meta) (fm_chunks meta) = meta" "meta_json meta \<noteq> JNull"
  by (simp_all add: chunk_count_def meta_of_def meta_json_def dom_string_def)

lemma file_announced:
  assumes m: "start_frame P key kid transfer meta m" and names: "transfer \<noteq> []" "kid \<noteq> []"
    and held: "findKeyById P kid s = Some r" "deref s r = key"
    and chunks: "fm_chunks meta = int n" and pos: "0 < n" "n \<le> 100000"
  shows "\<exists>t h. dispatch P m s = Done t \<and> downloading t transfer h key (or_else (sm_nick m) (js ''?'')) meta ch n {}"
proof -
  obtain ss where ss: "cl_session s = Some ss" using held(1) by (auto simp: findKeyById_def split: option.splits)
  obtain d where m': "sm_data m = Some d" "decryptMessage P key d = Inr (stringify (meta_json meta))"
    "sm_type m = js ''file_start''" "sm_transfer m = Some transfer" "sm_keyId m = Some kid"
    using m by (auto simp: start_frame_def)
  let ?nick = "or_else (sm_nick m) (js ''?'')"
  let ?inc = "\<lparr>in_key = r, in_meta = meta, in_nick = ?nick,
     in_parts = replicate (nat (fm_chunks meta)) None, in_extra = [], in_received = 0\<rparr>"
  let ?s1 = "upd_session (\<lambda>x. x\<lparr>s_incoming := map_set transfer ?inc (s_incoming x)\<rparr>) s"
  obtain h t where start: "startFileMessage transfer ?nick meta False ?s1 = (h, t)"
    by (cases "startFileMessage transfer ?nick meta False ?s1")
  have count: "chunk_count (meta_json meta) = Some (Inr (fm_chunks meta))"
    using chunks pos by (intro meta_fields) simp_all
  have run: "dispatch P m s = Done t"
    using m' names held count start
    by (simp add: dispatch_files onFileStart_def with_session_out_def ss falsy_def or_else_def [of "Some x" for x]
        meta_read meta_fields Let_def)
  have "cl_session ?s1 = Some (ss\<lparr>s_incoming := map_set transfer ?inc (s_incoming ss)\<rparr>)" by (simp add: ss)
  note started = startFileMessage_shows [OF this start]
  have "parts_of ch n {} = replicate (n) None"
    by (simp add: parts_of_def map_replicate_const)
  moreover have "deref t r = key" using started(4) held(2) deref_cong [of t s] by simp
  ultimately have "holds_parts t key meta ch n {} ?inc" using chunks(1) by (simp add: holds_parts_def)
  moreover have "incoming_of transfer t = Some ?inc" using started(3) by (simp add: incoming_of_def map_of_map_set)
  ultimately have "downloading t transfer h key ?nick meta ch n {}"
    using started(1,2) pos by (auto simp: downloading_def)
  with run show ?thesis by blast
qed

section \<open>An upload\<close>

text \<open>An upload whose chunks up to \<open>i\<close> are on their way.\<close>

definition uploading :: "client \<Rightarrow> session \<Rightarrow> nat \<Rightarrow> upload \<Rightarrow> nat \<Rightarrow> bool" where
  "uploading s ss n up i \<longleftrightarrow> connected ss s \<and> n < length (cl_uploads s) \<and> cl_uploads s ! n = up \<and> up_stage up = AfterChunk i
     \<and> shows_transfer s (up_transfer up) (up_view up) (js ''you'') (file_meta_for (up_file up)) True
     \<and> FileItem (up_view up) \<in> set (ui_messages (cl_ui s))"

definition up_total :: "upload \<Rightarrow> nat" where
  "up_total up = chunk_total (fo_bytes (up_file up))"

text \<open>The envelopes \<open>es\<close> carry the chunks \<open>idx\<close> of a buffer.\<close>

definition sealed_chunks :: "'p prims \<Rightarrow> bytes \<Rightarrow> bytes \<Rightarrow> nat list \<Rightarrow> jsstr list \<Rightarrow> bool" where
  "sealed_chunks P key buf = list_all2 (\<lambda>i e. openBytes P key e = Inr (chunk_of buf i))"

lemma send_chunk_eq:
  assumes "connected ss s"
  shows "sent_on (send_chunk P up i s) (s_ws ss) = sent_on s (s_ws ss) @
      [client_msg_text (FileChunk (up_transfer up) (int i)
        (fst (sealBytes P (deref s (up_key up)) (chunk_of (fo_bytes (up_file up)) i) (cl_random s))))]"
    and "connected ss (send_chunk P up i s)" and "cl_heap (send_chunk P up i s) = cl_heap s"
    and "cl_uploads (send_chunk P up i s) = cl_uploads s" and "cl_ui (send_chunk P up i s) = cl_ui s"
    and "shows_transfer s t h nick meta mine \<Longrightarrow> shows_transfer (send_chunk P up i s) t h nick meta mine"
proof -
  let ?s1 = "s\<lparr>cl_random := cl_random s + NONCE_LEN\<rparr>"
  let ?m = "FileChunk (up_transfer up) (int i)
        (fst (sealBytes P (deref s (up_key up)) (chunk_of (fo_bytes (up_file up)) i) (cl_random s)))"
  have eq: "send_chunk P up i s = setFileProgress (up_view up) (int (i + 1)) (int (up_total up)) (send ?m ?s1)"
    by (simp add: send_chunk_def Let_def draw_eq up_total_def)
  have conn: "connected ss ?s1" using assms by simp
  note sent = sent_send [OF conn, of ?m]
  have keep: "sent_on (setFileProgress h a c t) w = sent_on t w" "connected ss (setFileProgress h a c t) = connected ss t"
    for h a c t w ss by (rule sent_on_cong, simp) (simp add: connected_def)
  show "sent_on (send_chunk P up i s) (s_ws ss) = sent_on s (s_ws ss) @ [client_msg_text ?m]"
    unfolding eq keep sent by simp
  show "connected ss (send_chunk P up i s)" unfolding eq keep by (rule sent)
  show "cl_heap (send_chunk P up i s) = cl_heap s" "cl_uploads (send_chunk P up i s) = cl_uploads s"
    "cl_ui (send_chunk P up i s) = cl_ui s"
    unfolding eq by simp_all
  show "shows_transfer (send_chunk P up i s) t h nick meta mine" if "shows_transfer s t h nick meta mine"
    unfolding eq by (rule setFileProgress_shows) (use that in \<open>simp add: shows_transfer_def fileMsg_def\<close>)
qed

lemma upload_continues:
  assumes up: "uploading s ss n up i" and more: "i + 1 < up_total up" and P: "aead_ok P" and key: "deref s (up_key up) = key" "length key = 32"
    and step: "t = client_step P (UploadReady n) s"
  shows "uploading t ss n (up\<lparr>up_stage := AfterChunk (i + 1)\<rparr>) (i + 1)" and "deref t = deref s"
    and "cl_uploads t = (cl_uploads s)[n := up\<lparr>up_stage := AfterChunk (i + 1)\<rparr>]"
    and "\<exists>e. sent_on t (s_ws ss) = sent_on s (s_ws ss) @ [client_msg_text (FileChunk (up_transfer up) (int (i + 1)) e)]
           \<and> openBytes P key e = Inr (chunk_of (fo_bytes (up_file up)) (i + 1))"
proof -
  have facts: "connected ss s" "n < length (cl_uploads s)" "cl_uploads s ! n = up" "up_stage up = AfterChunk i"
    and shown: "shows_transfer s (up_transfer up) (up_view up) (js ''you'') (file_meta_for (up_file up)) True"
    "FileItem (up_view up) \<in> set (ui_messages (cl_ui s))"
    using up by (simp_all add: uploading_def)
  let ?c = "send_chunk P up (i + 1) s" and ?up = "up\<lparr>up_stage := AfterChunk (i + 1)\<rparr>"
  note c = send_chunk_eq [OF facts(1), where P = P and up = up and i = "i + 1"]
  have t: "t = ?c\<lparr>cl_uploads := (cl_uploads ?c)[n := ?up]\<rparr>"
    using facts more connected_session [OF facts(1)]
    by (simp add: step client_step_def handle_event_def resume_nth_def resume_upload_def up_total_def Let_def)
  show "cl_uploads t = (cl_uploads s)[n := ?up]" using c(4) by (simp add: t)
  show "deref t = deref s" by (rule deref_cong) (use c(3) in \<open>simp add: t\<close>)
  show "uploading t ss n ?up (i + 1)"
    using facts shown c(6) [OF shown(1)] c(2) c(4,5)
    by (simp add: uploading_def t connected_def shows_transfer_def fileMsg_def)
  have "sent_on t (s_ws ss) = sent_on ?c (s_ws ss)" unfolding t by (rule sent_on_cong) simp
  then show "\<exists>e. sent_on t (s_ws ss) = sent_on s (s_ws ss) @ [client_msg_text (FileChunk (up_transfer up) (int (i + 1)) e)]
           \<and> openBytes P key e = Inr (chunk_of (fo_bytes (up_file up)) (i + 1))"
    using c(1) open_seal_bytes [OF P, of key] key by (auto simp: KEY_LEN_def)
qed

text \<open>The file is on the page of its sender and the upload is over.\<close>

definition upload_over :: "client \<Rightarrow> client \<Rightarrow> nat \<Rightarrow> upload \<Rightarrow> bool" where
  "upload_over s t n up \<longleftrightarrow> cl_uploads t = take n (cl_uploads s) @ drop (Suc n) (cl_uploads s)
     \<and> (\<exists>h. file_shown t h (js ''you'') (file_meta_for (up_file up)) True (fo_bytes (up_file up)))"

lemma upload_ends:
  assumes up: "uploading s ss n up i" and last: "\<not> i + 1 < up_total up" and step: "t = client_step P (UploadReady n) s"
  shows "sent_on t (s_ws ss) = sent_on s (s_ws ss) @ [client_msg_text (FileEnd (up_transfer up))]"
    and "upload_over s t n up"
proof -
  let ?tr = "up_transfer up" and ?buf = "fo_bytes (up_file up)"
  have facts: "connected ss s" "n < length (cl_uploads s)" "cl_uploads s ! n = up" "up_stage up = AfterChunk i"
    and shown: "shows_transfer s ?tr (up_view up) (js ''you'') (file_meta_for (up_file up)) True"
    "FileItem (up_view up) \<in> set (ui_messages (cl_ui s))"
    using up by (simp_all add: uploading_def)
  note ss = connected_session [OF facts(1)]
  let ?s1 = "send (FileEnd ?tr) s"
  obtain url s2 where url: "createObjectURL ?buf ?s1 = (url, s2)" by (cases "createObjectURL ?buf ?s1")
  then have s2: "s2 = ?s1\<lparr>cl_blobs := cl_blobs s @ [(url, ?buf)], cl_nextUrl := Suc url\<rparr>" by (auto simp: createObjectURL_def)
  let ?f = "finishFileMessage ?tr url (trackUrl url s2)"
  have keep: "cl_sockets ?f = cl_sockets ?s1" "cl_uploads ?f = cl_uploads s"
    by (simp_all add: finishFileMessage_def s2 split: option.split)
  have t: "t = ?f\<lparr>cl_uploads := take n (cl_uploads ?f) @ drop (Suc n) (cl_uploads ?f)\<rparr>"
    using facts last ss url
    by (simp add: step client_step_def handle_event_def resume_nth_def resume_upload_def up_total_def Let_def)
  have "sent_on t (s_ws ss) = sent_on ?s1 (s_ws ss)" by (rule sent_on_cong) (simp add: t keep)
  then show "sent_on t (s_ws ss) = sent_on s (s_ws ss) @ [client_msg_text (FileEnd ?tr)]"
    by (simp add: sent_send [OF facts(1)])
  have "cl_session ?s1 = Some ss" "shows_transfer ?s1 ?tr (up_view up) (js ''you'') (file_meta_for (up_file up)) True"
    "FileItem (up_view up) \<in> set (ui_messages (cl_ui ?s1))"
    using ss shown by (simp_all add: shows_transfer_def fileMsg_def)
  from finishFileMessage_shown [OF this url]
  have "file_shown ?f (up_view up) (js ''you'') (file_meta_for (up_file up)) True ?buf" .
  then have "file_shown t (up_view up) (js ''you'') (file_meta_for (up_file up)) True ?buf"
    by (simp add: t file_shown_def)
  then show "upload_over s t n up" using keep(2) by (auto simp: upload_over_def t)
qed

lemma upload_fields:
  "up_key (up\<lparr>up_stage := st\<rparr>) = up_key up" "up_key (up\<lparr>up_view := h\<rparr>) = up_key up"
  "up_file (up\<lparr>up_stage := st\<rparr>) = up_file up" "up_file (up\<lparr>up_view := h\<rparr>) = up_file up"
  "up_transfer (up\<lparr>up_stage := st\<rparr>) = up_transfer up" "up_transfer (up\<lparr>up_view := h\<rparr>) = up_transfer up"
  by simp_all

lemma upload_over_update: "upload_over s t n up' \<Longrightarrow> cl_uploads s = (cl_uploads r)[n := x] \<Longrightarrow> up_file up' = up_file up
    \<Longrightarrow> upload_over r t n up"
  by (simp add: upload_over_def)

text \<open>What follows chunk \<open>i\<close>: the other chunks and the end, one resumption each.\<close>

lemma upload_rest:
  assumes "uploading s ss n up i" and "i < up_total up" and "aead_ok P" and "deref s (up_key up) = key" "length key = 32"
  shows "\<exists>es t. (client_step P (UploadReady n) ^^ (up_total up - i)) s = t \<and> upload_over s t n up
    \<and> sealed_chunks P key (fo_bytes (up_file up)) [Suc i..<up_total up] es
    \<and> sent_on t (s_ws ss) = sent_on s (s_ws ss) @ map client_msg_text
        (map2 (\<lambda>j e. FileChunk (up_transfer up) (int j) e) [Suc i..<up_total up] es @ [FileEnd (up_transfer up)])"
  using assms
proof (induction "up_total up - i" arbitrary: s up i)
  case (Suc k)
  let ?t = "client_step P (UploadReady n) s"
  show ?case
  proof (cases "i + 1 < up_total up")
    case False
    then have "up_total up - i = 1" "[Suc i..<up_total up] = []" using Suc.prems(2) by auto
    then show ?thesis
      using upload_ends [OF Suc.prems(1) False refl, of P] by (simp add: sealed_chunks_def)
  next
    case True
    let ?up = "up\<lparr>up_stage := AfterChunk (i + 1)\<rparr>"
    note one = upload_continues [OF Suc.prems(1) True Suc.prems(3-5) refl]
    obtain e where e: "sent_on ?t (s_ws ss) = sent_on s (s_ws ss) @ [client_msg_text (FileChunk (up_transfer up) (int (i + 1)) e)]"
      "openBytes P key e = Inr (chunk_of (fo_bytes (up_file up)) (i + 1))" using one(4) by blast
    have total: "up_total ?up = up_total up" by (simp add: up_total_def)
    have "k = up_total ?up - (i + 1)" "i + 1 < up_total ?up" unfolding total using Suc.hyps(2) True by simp_all
    note bounds = this
    have "deref ?t (up_key ?up) = key" using Suc.prems(4) one(2) by simp
    from Suc.hyps(1) [OF bounds(1) one(1) bounds(2) Suc.prems(3) this Suc.prems(5)]
    obtain es t where rest: "(client_step P (UploadReady n) ^^ (up_total up - (i + 1))) ?t = t" "upload_over ?t t n ?up"
      "sealed_chunks P key (fo_bytes (up_file up)) [Suc (i + 1)..<up_total up] es"
      "sent_on t (s_ws ss) = sent_on ?t (s_ws ss) @ map client_msg_text
        (map2 (\<lambda>j e. FileChunk (up_transfer up) (int j) e) [Suc (i + 1)..<up_total up] es @ [FileEnd (up_transfer up)])"
      unfolding total upload_fields by (elim exE conjE) (rule that, assumption+)
    have "up_total up - i = Suc (up_total up - (i + 1))" "[Suc i..<up_total up] = (i + 1) # [Suc (i + 1)..<up_total up]"
      using True by (simp_all add: upt_conv_Cons)
    moreover have "upload_over s t n up" by (rule upload_over_update [OF rest(2) one(3)]) simp
    ultimately show ?thesis
      using rest e by (intro exI [of _ "e # es"] exI [of _ t]) (simp add: funpow_swap1 sealed_chunks_def)
  qed
qed simp

text \<open>The first resumption: the file message, the sealed metadata and the first chunk.\<close>

lemma upload_starts:
  assumes conn: "connected ss s" and up: "n < length (cl_uploads s)" "cl_uploads s ! n = up" "up_stage up = ReadingFile"
    and P: "aead_ok P" and key: "deref s (up_key up) = key" "length key = 32"
    and step: "t = client_step P (UploadReady n) s"
  shows "\<exists>h ss' env e. let up' = up\<lparr>up_view := h, up_stage := AfterChunk 0\<rparr> in
      uploading t ss' n up' 0 \<and> s_ws ss' = s_ws ss \<and> deref t = deref s \<and> cl_uploads t = (cl_uploads s)[n := up']
    \<and> sent_on t (s_ws ss) = sent_on s (s_ws ss) @
        map client_msg_text [FileStart (up_transfer up) (up_kid up) env, FileChunk (up_transfer up) 0 e]
    \<and> decryptMessage P key env = Inr (stringify (meta_json (file_meta_for (up_file up))))
    \<and> openBytes P key e = Inr (chunk_of (fo_bytes (up_file up)) 0)"
proof -
  let ?meta = "file_meta_for (up_file up)" and ?tr = "up_transfer up"
  note ss = connected_session [OF conn]
  obtain h s1 where start: "startFileMessage ?tr (js ''you'') ?meta True s = (h, s1)"
    by (cases "startFileMessage ?tr (js ''you'') ?meta True s")
  note started = startFileMessage_shows [OF ss start]
  let ?ss = "ss\<lparr>s_fileMsgs := map_set ?tr h (s_fileMsgs ss)\<rparr>"
  have d1: "deref s1 = deref s" by (rule deref_cong) (rule started(4))
  let ?env = "fst (encryptMessage P key (stringify (meta_json ?meta)) (cl_random s))"
  let ?s2 = "s1\<lparr>cl_random := cl_random s + NONCE_LEN\<rparr>" and ?m = "FileStart ?tr (up_kid up) ?env"
  have conn2: "connected ?ss ?s2" using conn started(3,5) by (simp add: connected_def)
  have sent2: "sent_on ?s2 w = sent_on s w" for w by (rule sent_on_cong) (simp add: started(5))
  note sent3 = sent_send [OF conn2, of ?m]
  let ?s3 = "send ?m ?s2" and ?up = "up\<lparr>up_view := h, up_stage := AfterChunk 0\<rparr>"
  let ?c = "send_chunk P ?up 0 ?s3"
  note c = send_chunk_eq [OF sent3(2), where P = P and up = ?up and i = 0]
  have t: "t = ?c\<lparr>cl_uploads := (cl_uploads ?c)[n := ?up]\<rparr>"
    using up start d1 key(1) started(6)
    by (simp add: step client_step_def handle_event_def resume_nth_def resume_upload_def Let_def draw_eq)
  have dt: "deref t = deref s"
    by (rule deref_cong) (simp add: t c(3) started(4))
  have upl: "cl_uploads t = (cl_uploads s)[n := ?up]" unfolding t using c(4) by (simp add: started(7))
  have shown3: "shows_transfer ?s3 ?tr h (js ''you'') ?meta True"
    using started(1) by (simp add: shows_transfer_def fileMsg_def)
  have "uploading t ?ss n ?up 0"
    using c(2,4,5) c(6) [OF shown3] started(2,7) up
    by (simp add: uploading_def t connected_def shows_transfer_def fileMsg_def)
  moreover have "sent_on t (s_ws ss) = sent_on ?c (s_ws ss)" by (rule sent_on_cong) (simp add: t)
  then have "sent_on t (s_ws ss) = sent_on s (s_ws ss) @ map client_msg_text
      [?m, FileChunk ?tr 0 (fst (sealBytes P key (chunk_of (fo_bytes (up_file up)) 0) (cl_random s + NONCE_LEN)))]"
    using c(1) sent3(1) sent2 key(1) d1 by simp
  moreover have "decryptMessage P key ?env = Inr (stringify (meta_json ?meta))"
    by (rule decrypt_encrypt) (use P key(2) in \<open>simp add: KEY_LEN_def\<close>, unfold meta_json_def, rule plain_text_object)
  moreover have "openBytes P key (fst (sealBytes P key b pos)) = Inr b" for b pos
    using open_seal_bytes [OF P] key(2) by (simp add: KEY_LEN_def)
  ultimately show ?thesis
    using dt upl by (intro exI [of _ h] exI [of _ ?ss]) (auto simp: Let_def)
qed

lemma upload_completes_run:
  assumes "connected ss s" and "n < length (cl_uploads s)" "cl_uploads s ! n = up" "up_stage up = ReadingFile"
    and "aead_ok P" and "deref s (up_key up) = key" "length key = 32"
  shows "\<exists>env es t. (client_step P (UploadReady n) ^^ Suc (up_total up)) s = t \<and> upload_over s t n up
    \<and> decryptMessage P key env = Inr (stringify (meta_json (file_meta_for (up_file up))))
    \<and> sealed_chunks P key (fo_bytes (up_file up)) [0..<up_total up] es
    \<and> sent_on t (s_ws ss) = sent_on s (s_ws ss) @ map client_msg_text
        (FileStart (up_transfer up) (up_kid up) env
          # map2 (\<lambda>j e. FileChunk (up_transfer up) (int j) e) [0..<up_total up] es @ [FileEnd (up_transfer up)])"
proof -
  let ?u = "client_step P (UploadReady n) s"
  from upload_starts [OF assms refl] obtain h ss' env e where
    start: "uploading ?u ss' n (up\<lparr>up_view := h, up_stage := AfterChunk 0\<rparr>) 0" "s_ws ss' = s_ws ss" "deref ?u = deref s"
    "cl_uploads ?u = (cl_uploads s)[n := up\<lparr>up_view := h, up_stage := AfterChunk 0\<rparr>]"
    "sent_on ?u (s_ws ss) = sent_on s (s_ws ss) @
        map client_msg_text [FileStart (up_transfer up) (up_kid up) env, FileChunk (up_transfer up) 0 e]"
    and opens: "decryptMessage P key env = Inr (stringify (meta_json (file_meta_for (up_file up))))"
    "openBytes P key e = Inr (chunk_of (fo_bytes (up_file up)) 0)"
    unfolding Let_def by blast
  let ?up = "up\<lparr>up_view := h, up_stage := AfterChunk 0\<rparr>"
  have total: "up_total ?up = up_total up" and pos: "0 < up_total up" by (simp_all add: up_total_def chunk_total_pos)
  have "deref ?u (up_key up) = key" using assms(6) start(3) by simp
  with upload_rest [OF start(1) _ assms(5) _ assms(7)] obtain es t where
    rest: "(client_step P (UploadReady n) ^^ up_total up) ?u = t" "upload_over ?u t n ?up"
    "sealed_chunks P key (fo_bytes (up_file up)) [Suc 0..<up_total up] es"
    "sent_on t (s_ws ss) = sent_on ?u (s_ws ss) @ map client_msg_text
        (map2 (\<lambda>j e. FileChunk (up_transfer up) (int j) e) [Suc 0..<up_total up] es @ [FileEnd (up_transfer up)])"
    unfolding total upload_fields start(2) diff_zero using pos by blast
  have "[0..<up_total up] = 0 # [Suc 0..<up_total up]" using pos by (simp add: upt_conv_Cons)
  moreover have "upload_over s t n up" by (rule upload_over_update [OF rest(2) start(4)]) simp
  ultimately show ?thesis
    using rest start(5) opens
    by (intro exI [of _ env] exI [of _ "e # es"] exI [of _ t]) (simp add: funpow_swap1 sealed_chunks_def)
qed

end
