(* ===== verification/FileProperties.thy ===== *)
theory FileProperties
  imports FileTransfer DeliveryProperties
begin

text \<open>
  A file from the form of its sender to the page of a member: the upload ends, what it sent makes
  up the file at every member that holds its key, in whatever order and however often the chunks
  arrive; and what happens to an upload whose key leaves the window of its sender.
\<close>

section \<open>Sending\<close>

lemma sendFile_starts:
  assumes "connected ss s" and "s_keys ss = k # ks"
  shows "\<exists>up t. sendFile P f s = t \<and> connected ss t \<and> deref t = deref s \<and> cl_uploads t = cl_uploads s @ [up]
    \<and> (\<forall>w. sent_on t w = sent_on s w) \<and> up_stage up = ReadingFile \<and> up_key up = k \<and> up_file up = f
    \<and> up_kid up = keyId P (deref s k) \<and> up_transfer up = fst (randomId P (cl_random s))"
proof -
  have "sent_on (s\<lparr>cl_random := x, cl_uploads := u\<rparr>) w = sent_on s w" for x u w by (rule sent_on_cong) simp
  then show ?thesis
    using assms(2) connected_session [OF assms(1)] assms(1)
    by (simp add: sendFile_def with_session_def draw_eq Let_def connected_def)
qed

lemma names_not_empty:
  "fst (randomId P pos) \<noteq> []"
  "hkdf_ok P \<Longrightarrow> keyId P key \<noteq> []"
proof -
  have "length (fst (random_bytes P 16 pos)) = 16" by simp
  then show "fst (randomId P pos) \<noteq> []"
    by (cases "fst (random_bytes P 16 pos)") (auto simp: randomId_def split_beta hex_pair_def)
  show "keyId P key \<noteq> []" if "hkdf_ok P"
  proof
    assume "keyId P key = []"
    moreover have "bytesToB64url [] = []" by code_simp
    ultimately have "b64urlToBytes (keyId P key) = b64urlToBytes (bytesToB64url [])" by simp
    then show False
      using hkdf_okD [OF that, of key "[]" KEYID_INFO 8] by (auto simp: keyId_def b64url_roundtrip)
  qed
qed

lemma file_sent:
  assumes "aead_ok P" "client_ok s" "connected ss s" "s_keys ss = k # ks"
  shows "\<exists>env es h t. (client_step P (UploadReady (length (cl_uploads s))) ^^ Suc (chunk_total (fo_bytes f))) (sendFile P f s) = t
    \<and> cl_uploads t = cl_uploads s \<and> file_shown t h (js ''you'') (file_meta_for f) True (fo_bytes f)
    \<and> decryptMessage P (deref s k) env = Inr (stringify (meta_json (file_meta_for f)))
    \<and> sealed_chunks P (deref s k) (fo_bytes f) [0..<chunk_total (fo_bytes f)] es
    \<and> sent_on t (s_ws ss) = sent_on s (s_ws ss) @ map client_msg_text
        (FileStart (fst (randomId P (cl_random s))) (keyId P (deref s k)) env
          # map2 (\<lambda>i e. FileChunk (fst (randomId P (cl_random s))) (int i) e) [0..<chunk_total (fo_bytes f)] es
          @ [FileEnd (fst (randomId P (cl_random s)))])"
proof -
  obtain up t where t: "sendFile P f s = t" "connected ss t" "deref t = deref s" "cl_uploads t = cl_uploads s @ [up]"
    "\<forall>w. sent_on t w = sent_on s w" "up_stage up = ReadingFile" "up_key up = k" "up_file up = f"
    "up_kid up = keyId P (deref s k)" "up_transfer up = fst (randomId P (cl_random s))"
    using sendFile_starts [OF assms(3,4), of P f] by blast
  let ?n = "length (cl_uploads s)"
  have up: "?n < length (cl_uploads t)" "cl_uploads t ! ?n = up" by (simp_all add: t(4))
  have len: "length (deref s k) = 32" using ok_lengths(2) [OF assms(2) connected_session [OF assms(3)], of k] assms(4) by simp
  have "deref t (up_key up) = deref s k" by (simp add: t(3,7))
  from upload_completes_run [OF t(2) up t(6) assms(1) this len]
  obtain env es u where u: "(client_step P (UploadReady ?n) ^^ Suc (chunk_total (fo_bytes f))) t = u" "upload_over t u ?n up"
    "decryptMessage P (deref s k) env = Inr (stringify (meta_json (file_meta_for f)))"
    "sealed_chunks P (deref s k) (fo_bytes f) [0..<chunk_total (fo_bytes f)] es"
    "sent_on u (s_ws ss) = sent_on t (s_ws ss) @ map client_msg_text
        (FileStart (up_transfer up) (up_kid up) env
          # map2 (\<lambda>j e. FileChunk (up_transfer up) (int j) e) [0..<chunk_total (fo_bytes f)] es @ [FileEnd (up_transfer up)])"
    unfolding up_total_def t(8) by (elim exE conjE) (rule that, assumption+)
  obtain h where "file_shown u h (js ''you'') (file_meta_for f) True (fo_bytes f)" "cl_uploads u = cl_uploads s"
    using u(2) by (auto simp: upload_over_def t(4,8))
  then show ?thesis
    using u t(1,5,9,10) by (intro exI [of _ env] exI [of _ es] exI [of _ h] exI [of _ u]) simp
qed

text \<open>
  C17: An upload ends: after \<open>sendFile\<close>, resuming it once for each chunk and once more ends it;
  the file is then on the sender's own page, and what went out is the metadata, every chunk in
  order and the end of the file, metadata and chunks sealed under the room key that was newest
  when the upload began.
\<close>

theorem upload_completes:
  assumes "aead_ok P" "client_ok s" "connected ss s" "s_keys ss = k # ks"
  shows "\<exists>env es h t. (client_step P (UploadReady (length (cl_uploads s))) ^^ Suc (chunk_total (fo_bytes f))) (sendFile P f s) = t
    \<and> cl_uploads t = cl_uploads s \<and> file_shown t h (js ''you'') (file_meta_for f) True (fo_bytes f)
    \<and> decryptMessage P (deref s k) env = Inr (stringify (meta_json (file_meta_for f)))
    \<and> list_all2 (\<lambda>i e. openBytes P (deref s k) e = Inr (chunk_of (fo_bytes f) i)) [0..<chunk_total (fo_bytes f)] es
    \<and> (let tr = fst (randomId P (cl_random s)) in
        sent_on t (s_ws ss) = sent_on s (s_ws ss) @ map client_msg_text
          (FileStart tr (keyId P (deref s k)) env
            # map2 (\<lambda>i e. FileChunk tr (int i) e) [0..<chunk_total (fo_bytes f)] es @ [FileEnd tr]))"
  using file_sent [OF assms] unfolding sealed_chunks_def Let_def .

text \<open>The frame \<open>m\<close> has the fields of the sent message (the relay adds the sender's nickname).\<close>

fun forwards :: "client_msg \<Rightarrow> server_msg \<Rightarrow> bool" where
  "forwards (FileStart tr kid e) m \<longleftrightarrow> sm_type m = js ''file_start'' \<and> sm_transfer m = Some tr
     \<and> sm_keyId m = Some kid \<and> sm_data m = Some e"
| "forwards (FileChunk tr i e) m \<longleftrightarrow> sm_type m = js ''file_chunk'' \<and> sm_transfer m = Some tr
     \<and> sm_index m = Some (JNum i) \<and> sm_data m = Some e"
| "forwards (FileEnd tr) m \<longleftrightarrow> sm_type m = js ''file_end'' \<and> sm_transfer m = Some tr"
| "forwards _ m \<longleftrightarrow> False"

text \<open>Frames that forward each message of \<open>cs\<close> at least once, in any order.\<close>

definition relayed :: "client_msg list \<Rightarrow> server_msg list \<Rightarrow> bool" where
  "relayed cs ms \<longleftrightarrow> (\<forall>m \<in> set ms. \<exists>c \<in> set cs. forwards c m) \<and> (\<forall>c \<in> set cs. \<exists>m \<in> set ms. forwards c m)"

lemma relayed_chunks:
  assumes opens: "\<And>i. i < n \<Longrightarrow> openBytes P key (xs i) = Inr (ch i)"
    and ms: "relayed (map (\<lambda>i. FileChunk tr (int i) (xs i)) [0..<n]) ms"
  obtains idx where "list_all2 (chunk_frame P key tr ch) idx ms" and "set idx = {..<n}"
proof -
  have msgs: "set (map (\<lambda>i. FileChunk tr (int i) (xs i)) [0..<n]) = (\<lambda>i. FileChunk tr (int i) (xs i)) ` {..<n}"
    by (simp add: lessThan_atLeast0)
  define at where "at m = nat (case sm_index m of Some (JNum i) \<Rightarrow> i | _ \<Rightarrow> 0)" for m :: server_msg
  have one: "at m < n \<and> chunk_frame P key tr ch (at m) m" if "m \<in> set ms" for m
  proof -
    have "\<exists>c \<in> (\<lambda>i. FileChunk tr (int i) (xs i)) ` {..<n}. forwards c m"
      using ms that unfolding relayed_def msgs by (elim conjE) (rule bspec)
    then obtain i where "i < n" "forwards (FileChunk tr (int i) (xs i)) m" by auto
    then show ?thesis by (simp add: at_def chunk_frame_def opens)
  qed
  then have "list_all2 (chunk_frame P key tr ch) (map at ms) ms" by (simp add: list_all2_conv_all_nth)
  moreover have "i \<in> at ` set ms" if "i < n" for i
  proof -
    have "FileChunk tr (int i) (xs i) \<in> (\<lambda>i. FileChunk tr (int i) (xs i)) ` {..<n}" using that by simp
    then have "\<exists>m \<in> set ms. forwards (FileChunk tr (int i) (xs i)) m"
      using ms unfolding relayed_def msgs by (elim conjE) (rule bspec)
    then obtain m where m: "m \<in> set ms" "forwards (FileChunk tr (int i) (xs i)) m" by (elim bexE) (rule that)
    then have "at m = i" by (simp add: at_def)
    then show ?thesis using m(1) by blast
  qed
  then have "set (map at ms) = {..<n}" using one by auto
  ultimately show thesis by (rule that)
qed

text \<open>What a member makes of an announced file whose slots are filled by envelopes that open.\<close>

lemma slots_make_file:
  assumes m: "start_frame P key kid tr meta m" "tr \<noteq> []" "kid \<noteq> []" and held: "findKeyById P kid s = Some r" "deref s r = key"
    and chunks: "fm_chunks meta = int n" "0 < n" "n \<le> 100000"
    and ms: "\<And>i. i < n \<Longrightarrow> openBytes P key (xs i) = Inr (ch i)" "relayed (map (\<lambda>i. FileChunk tr (int i) (xs i)) [0..<n]) ms"
    and last: "forwards (FileEnd tr) e"
  shows "\<exists>u h. for_each (dispatch P) (m # ms @ [e]) s = Done u
    \<and> file_shown u h (or_else (sm_nick m) (js ''?'')) meta False (concat (map ch [0..<n]))"
proof -
  from file_announced [OF m held chunks] obtain s1 h where start: "dispatch P m s = Done s1"
    "downloading s1 tr h key (or_else (sm_nick m) (js ''?'')) meta ch n {}" by blast
  obtain idx where idx: "list_all2 (chunk_frame P key tr ch) idx ms" "set idx = {..<n}"
    by (rule relayed_chunks [OF ms])
  from chunks_arrive [OF idx(1) _ _ start(2)] obtain u where
    u: "for_each (dispatch P) ms s1 = Done u" "file_shown u h (or_else (sm_nick m) (js ''?'')) meta False (concat (map ch [0..<n]))"
    "incoming_of tr u = None" by (auto simp: idx(2))
  have "dispatch P e u = Done u"
    using last u(3) by (simp add: dispatch_files onFileEnd_def or_else_def)
  then have "for_each (dispatch P) (m # ms @ [e]) s = Done u" using start(1) u(1) by (simp add: for_each_append)
  with u(2) show ?thesis by blast
qed

text \<open>
  Sender and receiver together, where the relay puts into slot \<open>i\<close> the envelope that was sent
  for slot \<open>\<sigma> i\<close>.
\<close>

lemma file_relayed:
  assumes "aead_ok P" "hkdf_ok P"
    and sender: "client_ok sA" "connected ssA sA" "s_keys ssA = k # ks"
    and size: "chunk_total (fo_bytes f) \<le> 100000"
    and receiver: "findKeyById P (keyId P (deref sA k)) sB = Some r" "deref sB r = deref sA k"
    and perm: "\<And>i. i < chunk_total (fo_bytes f) \<Longrightarrow> \<sigma> i < chunk_total (fo_bytes f)"
  shows "let tr = fst (randomId P (cl_random sA)) in \<exists>env es t.
    (client_step P (UploadReady (length (cl_uploads sA))) ^^ Suc (chunk_total (fo_bytes f))) (sendFile P f sA) = t
    \<and> length es = chunk_total (fo_bytes f)
    \<and> sent_on t (s_ws ssA) = sent_on sA (s_ws ssA) @ map client_msg_text (FileStart tr (keyId P (deref sA k)) env
        # map (\<lambda>i. FileChunk tr (int i) (es ! i)) [0..<chunk_total (fo_bytes f)] @ [FileEnd tr])
    \<and> (\<forall>m ms e. forwards (FileStart tr (keyId P (deref sA k)) env) m
        \<and> relayed (map (\<lambda>i. FileChunk tr (int i) (es ! \<sigma> i)) [0..<chunk_total (fo_bytes f)]) ms \<and> forwards (FileEnd tr) e \<longrightarrow>
        (\<exists>u h. for_each (dispatch P) (m # ms @ [e]) sB = Done u \<and> file_shown u h (or_else (sm_nick m) (js ''?''))
            (file_meta_for f) False (concat (map (\<lambda>i. chunk_of (fo_bytes f) (\<sigma> i)) [0..<chunk_total (fo_bytes f)]))))"
proof -
  let ?key = "deref sA k" and ?tr = "fst (randomId P (cl_random sA))" and ?buf = "fo_bytes f" and ?meta = "file_meta_for f"
  obtain env es t where t: "(client_step P (UploadReady (length (cl_uploads sA))) ^^ Suc (chunk_total ?buf)) (sendFile P f sA) = t"
    "decryptMessage P ?key env = Inr (stringify (meta_json ?meta))" "sealed_chunks P ?key ?buf [0..<chunk_total ?buf] es"
    "sent_on t (s_ws ssA) = sent_on sA (s_ws ssA) @ map client_msg_text
        (FileStart ?tr (keyId P ?key) env # map2 (\<lambda>i e. FileChunk ?tr (int i) e) [0..<chunk_total ?buf] es @ [FileEnd ?tr])"
    using file_sent [OF assms(1) sender, of f] by blast
  have len: "length es = chunk_total ?buf" using list_all2_lengthD [OF t(3) [unfolded sealed_chunks_def]] by simp
  have opens: "openBytes P ?key (es ! \<sigma> i) = Inr (chunk_of ?buf (\<sigma> i))" if "i < chunk_total ?buf" for i
    using list_all2_nthD [OF t(3) [unfolded sealed_chunks_def], of "\<sigma> i"] perm [OF that] by simp
  have one: "\<exists>u h. for_each (dispatch P) (m # ms @ [e]) sB = Done u
      \<and> file_shown u h (or_else (sm_nick m) (js ''?'')) ?meta False (concat (map (\<lambda>i. chunk_of ?buf (\<sigma> i)) [0..<chunk_total ?buf]))"
    if "forwards (FileStart ?tr (keyId P ?key) env) m" "forwards (FileEnd ?tr) e"
      "relayed (map (\<lambda>i. FileChunk ?tr (int i) (es ! \<sigma> i)) [0..<chunk_total ?buf]) ms" for m ms e
  proof (rule slots_make_file [OF _ names_not_empty(1) names_not_empty(2) [OF assms(2)] receiver _ _ size opens that(3,2)])
    show "start_frame P ?key (keyId P ?key) ?tr ?meta m" using that(1) t(2) by (simp add: start_frame_def)
  qed (simp_all add: file_meta_for_def chunk_total_pos)
  have frames: "map2 (\<lambda>i e. FileChunk ?tr (int i) e) [0..<chunk_total ?buf] es = map (\<lambda>i. FileChunk ?tr (int i) (es ! i)) [0..<chunk_total ?buf]"
    by (rule nth_equalityI) (simp_all add: len)
  show ?thesis
    unfolding Let_def
    by (rule exI [of _ env], rule exI [of _ es], rule exI [of _ t], intro conjI allI impI)
      (rule t(1), rule len, rule t(4) [unfolded frames], elim conjE, rule one)
qed

text \<open>
  C16: A file reaches a member: whatever the sender's form sends, forwarded as one start frame
  followed by the chunk frames in any order and any number of times, puts the file with the
  sender's bytes, name and type on the page of every member that finds the sender's key under
  its tag (for files of at most 100000 chunks; \<open>file_end\<close> may come at any time after that).
\<close>

theorem file_reaches_member:
  assumes "aead_ok P" "hkdf_ok P"
    and sender: "client_ok sA" "connected ssA sA" "s_keys ssA = k # ks"
    and size: "chunk_total (fo_bytes f) \<le> 100000"
    and receiver: "findKeyById P (keyId P (deref sA k)) sB = Some r" "deref sB r = deref sA k"
  shows "let tr = fst (randomId P (cl_random sA)) in \<exists>env es t.
    (client_step P (UploadReady (length (cl_uploads sA))) ^^ Suc (chunk_total (fo_bytes f))) (sendFile P f sA) = t
    \<and> length es = chunk_total (fo_bytes f)
    \<and> sent_on t (s_ws ssA) = sent_on sA (s_ws ssA) @ map client_msg_text (FileStart tr (keyId P (deref sA k)) env
        # map (\<lambda>i. FileChunk tr (int i) (es ! i)) [0..<chunk_total (fo_bytes f)] @ [FileEnd tr])
    \<and> (\<forall>m ms e. forwards (FileStart tr (keyId P (deref sA k)) env) m
        \<and> relayed (map (\<lambda>i. FileChunk tr (int i) (es ! i)) [0..<chunk_total (fo_bytes f)]) ms \<and> forwards (FileEnd tr) e \<longrightarrow>
        (\<exists>u h. for_each (dispatch P) (m # ms @ [e]) sB = Done u
          \<and> file_shown u h (or_else (sm_nick m) (js ''?'')) (file_meta_for f) False (fo_bytes f)))"
  using file_relayed [OF assms, where \<sigma> = "\<lambda>i. i"] unfolding chunks_concat by blast

text \<open>A short file, and the frames a relay makes of its messages.\<close>

definition example_file :: file_obj where
  "example_file = \<lparr>fo_name = js ''n'', fo_type = js ''image/png'', fo_bytes = [1, 2, 3]\<rparr>"

definition file_frame :: "jsstr \<Rightarrow> jsstr \<Rightarrow> jsstr \<Rightarrow> jsstr \<Rightarrow> server_msg" where
  "file_frame ty tr kid d = (server_msg_of JNull)\<lparr>sm_type := ty, sm_transfer := Some tr, sm_keyId := Some kid,
     sm_index := Some (JNum 0), sm_data := Some d, sm_nick := Some (js ''o'')\<rparr>"

lemma example_file_facts:
  "fo_bytes example_file = [1, 2, 3]" "chunk_total [1, 2, 3] = 1"
  by (simp_all add: example_file_def chunk_total_def CHUNK_SIZE_def)

lemma example_key:
  "s_keys (example_session me r) = [0]" "deref (example_client me r) 0 = replicate 32 7"
  "findKeyById P (keyId P (replicate 32 7)) (example_client me r) = Some 0"
  by (simp_all add: example_client_def example_session_def deref_def findKeyById_def)

theorem upload_completes_witness:
  "\<exists>t h. (client_step toy (UploadReady 0) ^^ 2) (sendFile toy example_file (example_client (js ''o'') Owner)) = t
    \<and> cl_uploads t = [] \<and> file_shown t h (js ''you'') (file_meta_for example_file) True [1, 2, 3]"
proof -
  have "cl_uploads (example_client (js ''o'') Owner) = []" by (simp add: example_client_def initial_client_def)
  then show ?thesis
    using upload_completes [OF toy_aead_ok example_client_ok [of "js ''o''" Owner] example_connected example_key(1),
        of example_file, unfolded example_file_facts]
    by (auto simp: numeral_2_eq_2)
qed

theorem file_reaches_member_witness:
  "\<exists>t m c e u h. (client_step toy (UploadReady 0) ^^ 2) (sendFile toy example_file (example_client (js ''o'') Owner)) = t
    \<and> for_each (dispatch toy) [m, c, c, e] (example_client (js ''a'') Member) = Done u
    \<and> file_shown u h (js ''o'') (file_meta_for example_file) False [1, 2, 3]"
proof -
  let ?A = "example_client (js ''o'') Owner" and ?B = "example_client (js ''a'') Member" and ?kid = "keyId toy (replicate 32 7)"
  let ?tr = "fst (randomId toy (cl_random ?A))"
  have none: "cl_uploads ?A = []" by (simp add: example_client_def initial_client_def)
  have size: "chunk_total (fo_bytes example_file) \<le> 100000" unfolding example_file_facts by simp
  note end_to_end = file_reaches_member [OF toy_aead_ok toy_hkdf_ok example_client_ok [of "js ''o''" Owner] example_connected
    example_key(1) size, of ?B 0]
  obtain env es t where run: "(client_step toy (UploadReady 0) ^^ 2) (sendFile toy example_file ?A) = t"
    and es: "length es = 1"
    and all: "\<forall>m ms e. forwards (FileStart ?tr ?kid env) m
        \<and> relayed (map (\<lambda>i. FileChunk ?tr (int i) (es ! i)) [0..<1]) ms \<and> forwards (FileEnd ?tr) e \<longrightarrow>
        (\<exists>u h. for_each (dispatch toy) (m # ms @ [e]) ?B = Done u
          \<and> file_shown u h (or_else (sm_nick m) (js ''?'')) (file_meta_for example_file) False [1, 2, 3])"
    using end_to_end unfolding Let_def example_file_facts example_key none numeral_2_eq_2 list.size One_nat_def by blast
  obtain c where c: "es = [c]" using es by (cases es) auto
  let ?m = "file_frame (js ''file_start'') ?tr ?kid env" and ?c = "file_frame (js ''file_chunk'') ?tr ?kid c"
    and ?e = "file_frame (js ''file_end'') ?tr ?kid c"
  have "forwards (FileStart ?tr ?kid env) ?m" "forwards (FileEnd ?tr) ?e"
    "relayed (map (\<lambda>i. FileChunk ?tr (int i) (es ! i)) [0..<1]) [?c, ?c]"
    by (simp_all add: file_frame_def relayed_def c)
  with all have "\<exists>u h. for_each (dispatch toy) (?m # [?c, ?c] @ [?e]) ?B = Done u
      \<and> file_shown u h (or_else (sm_nick ?m) (js ''?'')) (file_meta_for example_file) False [1, 2, 3]" by blast
  moreover have "or_else (sm_nick ?m) (js ''?'') = js ''o''" by (simp add: file_frame_def or_else_def)
  ultimately obtain u h where "for_each (dispatch toy) [?m, ?c, ?c, ?e] ?B = Done u"
    "file_shown u h (js ''o'') (file_meta_for example_file) False [1, 2, 3]" by (auto simp del: for_each.simps)
  then show ?thesis
    using run by (intro exI [of _ t] exI [of _ ?m] exI [of _ ?c] exI [of _ ?e] exI [of _ u] exI [of _ h]) (intro conjI)
qed

section \<open>What the relay can do to a file\<close>

text \<open>
  C18: The relay can rearrange a file: nothing in a chunk's envelope says which slot it is for, so
  for any choice of slots, a relay that writes other indices on the same chunk frames makes the
  member's page show as complete, under the sender's name and the file's name, type and size, a
  file whose chunks are in that order (or repeated), although the relay knows no key.
\<close>

theorem relay_rearranges_file:
  assumes "aead_ok P" "hkdf_ok P" "client_ok sA" "connected ssA sA" "s_keys ssA = k # ks"
    and "chunk_total (fo_bytes f) \<le> 100000"
    and "findKeyById P (keyId P (deref sA k)) sB = Some r" "deref sB r = deref sA k"
    and "\<forall>i < chunk_total (fo_bytes f). \<sigma> i < chunk_total (fo_bytes f)"
  shows "let tr = fst (randomId P (cl_random sA)) in \<exists>env es t.
    (client_step P (UploadReady (length (cl_uploads sA))) ^^ Suc (chunk_total (fo_bytes f))) (sendFile P f sA) = t
    \<and> sent_on t (s_ws ssA) = sent_on sA (s_ws ssA) @ map client_msg_text (FileStart tr (keyId P (deref sA k)) env
        # map (\<lambda>i. FileChunk tr (int i) (es ! i)) [0..<chunk_total (fo_bytes f)] @ [FileEnd tr])
    \<and> (\<forall>m ms e. forwards (FileStart tr (keyId P (deref sA k)) env) m
        \<and> relayed (map (\<lambda>i. FileChunk tr (int i) (es ! \<sigma> i)) [0..<chunk_total (fo_bytes f)]) ms \<and> forwards (FileEnd tr) e \<longrightarrow>
        (\<exists>u h. for_each (dispatch P) (m # ms @ [e]) sB = Done u \<and> file_shown u h (or_else (sm_nick m) (js ''?''))
            (file_meta_for f) False (concat (map (\<lambda>i. chunk_of (fo_bytes f) (\<sigma> i)) [0..<chunk_total (fo_bytes f)]))))"
  using file_relayed [OF assms(1-8), where \<sigma> = \<sigma>] assms(9) unfolding Let_def by blast

text \<open>A file of two chunks, shown with the second one first.\<close>

definition two_chunks :: file_obj where
  "two_chunks = example_file\<lparr>fo_bytes := replicate 65536 1 @ [2]\<rparr>"

lemma two_chunks_facts:
  "chunk_total (fo_bytes two_chunks) = 2" "chunk_of (fo_bytes two_chunks) 0 = replicate 65536 1" "chunk_of (fo_bytes two_chunks) 1 = [2]"
  by (simp_all add: two_chunks_def chunk_total_def chunk_of_def CHUNK_SIZE_def)

definition chunk_frame_at :: "nat \<Rightarrow> jsstr \<Rightarrow> jsstr \<Rightarrow> jsstr \<Rightarrow> server_msg" where
  "chunk_frame_at i tr kid d = (file_frame (js ''file_chunk'') tr kid d)\<lparr>sm_index := Some (JNum (int i))\<rparr>"

theorem relay_rearranges_file_witness:
  "\<exists>m c d e u h. for_each (dispatch toy) [m, c, d, e] (example_client (js ''a'') Member) = Done u
    \<and> file_shown u h (js ''o'') (file_meta_for two_chunks) False ([2] @ replicate 65536 1)"
proof -
  let ?A = "example_client (js ''o'') Owner" and ?B = "example_client (js ''a'') Member" and ?kid = "keyId toy (replicate 32 7)"
  let ?tr = "fst (randomId toy (cl_random ?A))" and ?swap = "\<lambda>i :: nat. 1 - i"
  have size: "chunk_total (fo_bytes two_chunks) \<le> 100000" unfolding two_chunks_facts by simp
  have swap: "\<forall>i < chunk_total (fo_bytes two_chunks). ?swap i < chunk_total (fo_bytes two_chunks)"
    unfolding two_chunks_facts by auto
  have upto: "[0..<2] = [0, 1 :: nat]" by (simp add: numeral_2_eq_2)
  have shown: "concat (map (\<lambda>i. chunk_of (fo_bytes two_chunks) (?swap i)) [0..<2]) = [2] @ replicate 65536 1"
    unfolding upto using two_chunks_facts(2,3) by simp
  note end_to_end = relay_rearranges_file [OF toy_aead_ok toy_hkdf_ok example_client_ok [of "js ''o''" Owner] example_connected
    example_key(1) size, of ?B 0 ?swap]
  obtain env es where all: "\<forall>m ms e. forwards (FileStart ?tr ?kid env) m
        \<and> relayed (map (\<lambda>i. FileChunk ?tr (int i) (es ! ?swap i)) [0..<2]) ms \<and> forwards (FileEnd ?tr) e \<longrightarrow>
        (\<exists>u h. for_each (dispatch toy) (m # ms @ [e]) ?B = Done u
          \<and> file_shown u h (or_else (sm_nick m) (js ''?'')) (file_meta_for two_chunks) False ([2] @ replicate 65536 1))"
    using end_to_end [OF _ _ swap] unfolding Let_def two_chunks_facts(1) example_key shown by blast
  let ?m = "file_frame (js ''file_start'') ?tr ?kid env" and ?e = "file_frame (js ''file_end'') ?tr ?kid []"
  let ?c = "chunk_frame_at 0 ?tr ?kid (es ! 1)" and ?d = "chunk_frame_at 1 ?tr ?kid (es ! 0)"
  have "forwards (FileStart ?tr ?kid env) ?m" "forwards (FileEnd ?tr) ?e"
    "relayed (map (\<lambda>i. FileChunk ?tr (int i) (es ! ?swap i)) [0..<2]) [?c, ?d]"
    by (simp_all add: file_frame_def chunk_frame_at_def relayed_def upto)
  with all have "\<exists>u h. for_each (dispatch toy) (?m # [?c, ?d] @ [?e]) ?B = Done u
      \<and> file_shown u h (or_else (sm_nick ?m) (js ''?'')) (file_meta_for two_chunks) False ([2] @ replicate 65536 1)" by blast
  moreover have "or_else (sm_nick ?m) (js ''?'') = js ''o''" by (simp add: file_frame_def or_else_def)
  ultimately obtain u h where "for_each (dispatch toy) [?m, ?c, ?d, ?e] ?B = Done u"
    "file_shown u h (js ''o'') (file_meta_for two_chunks) False ([2] @ replicate 65536 1)" by (auto simp del: for_each.simps)
  then show ?thesis
    by (intro exI [of _ ?m] exI [of _ ?c] exI [of _ ?d] exI [of _ ?e] exI [of _ u] exI [of _ h]) (intro conjI)
qed

section \<open>A download that does not finish\<close>

text \<open>A chunk frame of the transfer that does not open under its key.\<close>

definition junk_frame :: "'p prims \<Rightarrow> bytes \<Rightarrow> jsstr \<Rightarrow> server_msg \<Rightarrow> bool" where
  "junk_frame P key transfer m \<longleftrightarrow> sm_type m = js ''file_chunk'' \<and> sm_transfer m = Some transfer
     \<and> (\<exists>d e. sm_data m = Some d \<and> openBytes P key d = Inl e)"

definition chunk_or_junk :: "'p prims \<Rightarrow> bytes \<Rightarrow> jsstr \<Rightarrow> (nat \<Rightarrow> bytes) \<Rightarrow> nat option \<Rightarrow> server_msg \<Rightarrow> bool" where
  "chunk_or_junk P key transfer ch i m \<longleftrightarrow>
     (case i of Some j \<Rightarrow> chunk_frame P key transfer ch j m | None \<Rightarrow> junk_frame P key transfer m)"

lemma junk_ignored:
  assumes "downloading s transfer h key nick meta ch n S" and "junk_frame P key transfer m"
  shows "dispatch P m s = Done s"
  using assms by (auto simp: downloading_def holds_parts_def junk_frame_def dispatch_files onFileChunk_def or_else_def)

lemma chunks_pending:
  assumes "list_all2 (chunk_or_junk P key transfer ch) idx ms" and "S \<union> {i. Some i \<in> set idx} \<subset> {..<n}"
    and "downloading s transfer h key nick meta ch n S"
  shows "\<exists>t. for_each (dispatch P) ms s = Done t
    \<and> downloading t transfer h key nick meta ch n (S \<union> {i. Some i \<in> set idx})"
  using assms
proof (induction arbitrary: S s rule: list_all2_induct)
  case (Cons j idx m ms)
  show ?case
  proof (cases j)
    case None
    then have "{i. Some i \<in> set (j # idx)} = {i. Some i \<in> set idx}" by auto
    with Cons None junk_ignored [OF Cons.prems(2), of P m] show ?thesis by (simp add: chunk_or_junk_def)
  next
    case (Some i)
    have all: "insert i S \<union> {i. Some i \<in> set idx} = S \<union> {i. Some i \<in> set (j # idx)}" using Some by auto
    let ?s = "onFileChunk P m s"
    have m: "chunk_frame P key transfer ch i m" using Cons.hyps(1) Some by (simp add: chunk_or_junk_def)
    have i: "i < n" and "insert i S \<noteq> {..<n}" using Cons.prems(1) Some by auto
    with chunk_arrives [OF Cons.prems(2) m i] have "downloading ?s transfer h key nick meta ch n (insert i S)" by simp
    from Cons.IH [OF _ this] Cons.prems(1) have "\<exists>t. for_each (dispatch P) ms ?s = Done t
        \<and> downloading t transfer h key nick meta ch n (S \<union> {i. Some i \<in> set (j # idx)})"
      unfolding all by blast
    moreover have "dispatch P m s = Done ?s" using m by (simp add: chunk_frame_def dispatch_files)
    ultimately show ?thesis by simp
  qed
qed auto

lemma onFileEnd_fails:
  assumes d: "downloading s transfer h key nick meta ch n S" and m: "sm_transfer m = Some transfer" and "transfer \<noteq> []"
  shows "FileItem h \<in> set (ui_messages (cl_ui (onFileEnd m s)))" and "incoming_of transfer (onFileEnd m s) = None"
    and "fv_state (cl_views (onFileEnd m s) ! h) = FailedWith (js ''transfer interrupted'')"
proof -
  obtain ss where ss: "cl_session s = Some ss" using d by (auto simp: downloading_def incoming_of_def split: option.splits)
  have h: "fileMsg transfer (delete_incoming transfer s) = Some h" "h < length (cl_views s)"
    using d by (auto simp: downloading_def shows_transfer_def fileMsg_def delete_incoming_def ss)
  have "incoming_of transfer s \<noteq> None" using d by (auto simp: downloading_def)
  then have eq: "onFileEnd m s = failFileMessage transfer (js ''transfer interrupted'') (delete_incoming transfer s)"
    using m \<open>transfer \<noteq> []\<close> by (simp add: onFileEnd_def or_else_def)
  have views: "cl_views (delete_incoming transfer s) = cl_views s" by simp
  show "FileItem h \<in> set (ui_messages (cl_ui (onFileEnd m s)))"
    using d by (simp add: eq failFileMessage_def h downloading_def)
  show "incoming_of transfer (onFileEnd m s) = None"
    unfolding incoming_of_def by (simp add: eq failFileMessage_def h(1)) (simp add: delete_incoming_def ss map_of_map_delete)
  show "fv_state (cl_views (onFileEnd m s) ! h) = FailedWith (js ''transfer interrupted'')"
    using h(2) by (simp add: eq failFileMessage_def h(1)) (simp add: upd_view_def upd_session_def views)
qed

text \<open>
  C19: A transfer that ends early fails for good: if the end of a file arrives while a chunk is
  missing, whatever order the others came in and however many frames that do not open came
  between, the file message says so, nothing is kept of the download, and chunks that arrive
  later change nothing.
\<close>

theorem interrupted_transfer_fails:
  assumes "start_frame P key kid transfer meta m" "transfer \<noteq> []" "kid \<noteq> []"
    and "findKeyById P kid s = Some r" "deref s r = key"
    and "fm_chunks meta = int n" "0 < n" "n \<le> 100000"
    and "list_all2 (chunk_or_junk P key transfer ch) idx ms" "{i. Some i \<in> set idx} \<subset> {..<n}"
    and "sm_type e = js ''file_end''" "sm_transfer e = Some transfer"
    and "\<forall>c \<in> set late. sm_type c = js ''file_chunk'' \<and> sm_transfer c = Some transfer"
  shows "\<exists>t h. for_each (dispatch P) (m # ms @ e # late) s = Done t \<and> FileItem h \<in> set (ui_messages (cl_ui t))
    \<and> fv_state (cl_views t ! h) = FailedWith (js ''transfer interrupted'') \<and> incoming_of transfer t = None"
proof -
  obtain s1 h where start: "dispatch P m s = Done s1"
    "downloading s1 transfer h key (or_else (sm_nick m) (js ''?'')) meta ch n {}"
    using file_announced [OF assms(1-8)] by blast
  have "{} \<union> {i. Some i \<in> set idx} \<subset> {..<n}" using assms(10) by simp
  from chunks_pending [OF assms(9) this start(2)] obtain s2 where s2: "for_each (dispatch P) ms s1 = Done s2"
    "downloading s2 transfer h key (or_else (sm_nick m) (js ''?'')) meta ch n ({} \<union> {i. Some i \<in> set idx})" by blast
  let ?t = "onFileEnd e s2"
  note failed = onFileEnd_fails [OF s2(2) assms(12,2)]
  have "for_each (dispatch P) late ?t = Done ?t"
    using assms(13)
  proof (induction late)
    case (Cons c late)
    then show ?case by (simp add: dispatch_files onFileChunk_idle [OF failed(2)])
  qed simp
  moreover have "dispatch P e s2 = Done ?t" using assms(11) by (simp add: dispatch_files)
  ultimately have "for_each (dispatch P) (m # ms @ e # late) s = Done ?t" using start(1) s2(1) by (simp add: for_each_append)
  then show ?thesis using failed by blast
qed

text \<open>A file of one chunk whose only chunk was tampered with on the way.\<close>

theorem interrupted_transfer_fails_witness:
  "\<exists>m c e t h. for_each (dispatch toy) [m, c, e, c] (example_client (js ''a'') Member) = Done t
    \<and> FileItem h \<in> set (ui_messages (cl_ui t)) \<and> fv_state (cl_views t ! h) = FailedWith (js ''transfer interrupted'')"
proof -
  let ?kid = "keyId toy (replicate 32 7)" and ?meta = "file_meta_for example_file" and ?key = "replicate 32 (7 :: byte)"
  let ?env = "fst (encryptMessage toy ?key (stringify (meta_json ?meta)) 0)" and ?s = "example_client (js ''a'') Member"
  let ?m = "file_frame (js ''file_start'') (js ''t'') ?kid ?env" and ?c = "file_frame (js ''file_chunk'') (js ''t'') ?kid (js ''AA'')"
    and ?e = "file_frame (js ''file_end'') (js ''t'') ?kid []"
  have "decryptMessage toy ?key ?env = Inr (stringify (meta_json ?meta))"
    by (rule decrypt_encrypt) (simp add: toy_aead_ok KEY_LEN_def, unfold meta_json_def, rule plain_text_object)
  then have m: "start_frame toy ?key ?kid (js ''t'') ?meta ?m" by (simp add: start_frame_def file_frame_def)
  have "\<exists>x. openBytes toy ?key (js ''AA'') = Inl x"
    by (rule exI [of _ "MessageError ''ciphertext too short''"]) code_simp
  then have "junk_frame toy ?key (js ''t'') ?c" by (simp add: junk_frame_def file_frame_def)
  then have c: "list_all2 (chunk_or_junk toy ?key (js ''t'') (chunk_of [1, 2, 3])) [None] [?c]" by (simp add: chunk_or_junk_def)
  have kid: "?kid \<noteq> []" by (rule names_not_empty(2)) (rule toy_hkdf_ok)
  have "fm_chunks ?meta = int (chunk_total [1, 2, 3])" by (simp add: file_meta_for_def example_file_facts(1))
  moreover have "js ''t'' \<noteq> []" "0 < chunk_total [1, 2, 3]" "chunk_total [1, 2, 3] \<le> 100000" "{i. Some i \<in> set [None]} \<subset> {..<chunk_total [1, 2, 3]}"
    by (auto simp: js_def example_file_facts(2))
  moreover have "sm_type ?e = js ''file_end''" "sm_transfer ?e = Some (js ''t'')"
    "\<forall>x \<in> set [?c]. sm_type x = js ''file_chunk'' \<and> sm_transfer x = Some (js ''t'')"
    by (simp_all add: file_frame_def)
  ultimately obtain t h where "for_each (dispatch toy) (?m # [?c] @ ?e # [?c]) ?s = Done t" "FileItem h \<in> set (ui_messages (cl_ui t))"
    "fv_state (cl_views t ! h) = FailedWith (js ''transfer interrupted'')"
    using interrupted_transfer_fails [OF m _ kid example_key(3) example_key(2) _ _ _ c, where e = ?e and late = "[?c]" and n = "chunk_total [1, 2, 3]"] by blast
  then show ?thesis by (intro exI [of _ ?m] exI [of _ ?c] exI [of _ ?e] exI [of _ t] exI [of _ h]) (intro conjI, simp_all only: append_Cons append_Nil)
qed

section \<open>A key that leaves the window during an upload\<close>

lemma pushKey_keeps [simp]:
  "cl_uploads (pushKey r s) = cl_uploads s" "cl_ui (pushKey r s) = cl_ui s" "cl_views (pushKey r s) = cl_views s"
  "fileMsg tr (pushKey r s) = fileMsg tr s"
  by (simp_all add: pushKey_def with_session_def Let_def fileMsg_def split: option.split)

text \<open>
  C20: An upload outlives its key: when the room key of an upload in progress falls out of the
  five kept keys (here because a rotated key arrives), the bytes it is sealed with become zero
  under it, and the next chunk of the file leaves the client sealed under 32 zero bytes, so that
  anyone can open it.
\<close>

theorem upload_outlives_its_key:
  assumes "aead_ok P" "client_ok s" "uploading s ss n up i" "i + 1 < up_total up"
    and "up_key up \<in> set (drop 4 (s_keys ss))"
    and "sm_type m = js ''rekey''" "sm_data m = Some d" "map_of (s_memberPubs ss) (s_ownerId ss) = Some ro"
      "openRoomKey P (deref s (s_priv ss)) (deref s ro) d = Inr key"
  shows "\<exists>t e. dispatch P m s = Done t
    \<and> sent_on (client_step P (UploadReady n) t) (s_ws ss) = sent_on s (s_ws ss)
        @ [client_msg_text (FileChunk (up_transfer up) (int (i + 1)) e)]
    \<and> openBytes P (replicate 32 0) e = Inr (chunk_of (fo_bytes (up_file up)) (i + 1))"
proof -
  obtain r s1 where new: "alloc key s = (r, s1)" by (cases "alloc key s")
  have conn: "connected ss s" using assms(3) by (simp add: uploading_def)
  note ss = connected_session [OF conn]
  note push = alloc_push [OF assms(2) ss new]
  let ?t = "pushKey r s1" and ?ss = "ss\<lparr>s_keys := take MAX_KEPT_KEYS (r # s_keys ss)\<rparr>"
  have "dispatch P m s = Done ?t" using assms(6-9) ss new by (simp add: dispatch_def onRekey_def with_session_def)
  moreover have "uploading ?t ?ss n up i"
    using assms(3) ss push(1,5) alloc_eq(2) [OF new] by (simp add: uploading_def connected_def shows_transfer_def fileMsg_def)
  from upload_continues(4) [OF this assms(4) assms(1) push(3) [OF assms(5)] _ refl]
  obtain e where "sent_on (client_step P (UploadReady n) ?t) (s_ws ss) = sent_on ?t (s_ws ss)
      @ [client_msg_text (FileChunk (up_transfer up) (int (i + 1)) e)]"
    "openBytes P (replicate 32 0) e = Inr (chunk_of (fo_bytes (up_file up)) (i + 1))" by auto
  moreover have "sent_on ?t (s_ws ss) = sent_on s (s_ws ss)" by (rule sent_on_cong) (rule push(5))
  ultimately show ?thesis by auto
qed

text \<open>Member \<open>a\<close> with a full window, sending a file of two chunks under the oldest of its keys.\<close>

definition long_upload :: upload where
  "long_upload = \<lparr>up_key = 0, up_kid = js ''k'', up_transfer = js ''t'',
     up_file = example_file\<lparr>fo_bytes := replicate 65537 9\<rparr>, up_view = 0, up_stage = AfterChunk 0\<rparr>"

definition full_session :: session where
  "full_session = (example_session (js ''a'') Member)\<lparr>s_keys := [5, 6, 7, 8, 0], s_fileMsgs := [(js ''t'', 0)]\<rparr>"

definition full_client :: client where
  "full_client = (example_client (js ''a'') Member)
     \<lparr>cl_heap := [replicate 32 7, replicate 32 1, replicate 32 2, replicate 32 3, replicate 32 4,
        replicate 32 8, replicate 32 9, replicate 32 10, replicate 32 11],
      cl_session := Some full_session, cl_uploads := [long_upload],
      cl_views := [\<lparr>fv_nick = js ''you'', fv_meta = file_meta_for (up_file long_upload), fv_mine = True, fv_state = InProgress 50\<rparr>],
      cl_ui := (cl_ui (example_client (js ''a'') Member))\<lparr>ui_messages := [FileItem 0]\<rparr>\<rparr>"

lemma full_client_ok: "client_ok full_client"
  by (simp add: full_client_def client_ok_def full_session_def long_upload_def example_client_def example_session_def
      initial_client_def session_ok_def shape_def other_ref_def values_sat_def KEY_LEN_def MAX_KEPT_KEYS_def nth_Cons')

lemma full_client_uploading: "uploading full_client full_session 0 long_upload 0" "0 + 1 < up_total long_upload"
  by (simp_all add: uploading_def full_client_def full_session_def long_upload_def example_client_def example_session_def
      connected_def open_socket_def shows_transfer_def fileMsg_def up_total_def chunk_total_def CHUNK_SIZE_def)

theorem upload_outlives_its_key_witness:
  "\<exists>m t e. dispatch toy m full_client = Done t
    \<and> sent_on (client_step toy (UploadReady 0) t) 0 = [client_msg_text (FileChunk (js ''t'') 1 e)]
    \<and> openBytes toy (replicate 32 0) e = Inr [9]"
proof -
  let ?key = "replicate 32 (12 :: byte)" and ?o = "replicate 32 (4 :: byte)" and ?a = "replicate 32 (1 :: byte)"
  have pub: "x25519_public toy b = b" for b by (simp add: toy_def)
  obtain d where d: "openRoomKey toy ?a ?o d = Inr ?key"
    using open_seal_room_key [OF toy_aead_ok toy_hkdf_ok toy_x25519_ok, of ?o ?a ?key 0] by (auto simp: pub KEY_LEN_def)
  let ?m = "(server_msg_of JNull)\<lparr>sm_type := js ''rekey'', sm_data := Some d\<rparr>"
  have "up_key long_upload \<in> set (drop 4 (s_keys full_session))" by (simp add: long_upload_def full_session_def)
  moreover have "map_of (s_memberPubs full_session) (s_ownerId full_session) = Some 4"
    by (simp add: full_session_def example_session_def)
  moreover have "openRoomKey toy (deref full_client (s_priv full_session)) (deref full_client 4) d = Inr ?key"
    using d by (simp add: full_client_def full_session_def example_session_def deref_def)
  ultimately obtain t e where "dispatch toy ?m full_client = Done t"
    "sent_on (client_step toy (UploadReady 0) t) (s_ws full_session) = sent_on full_client (s_ws full_session)
      @ [client_msg_text (FileChunk (up_transfer long_upload) (int (0 + 1)) e)]"
    "openBytes toy (replicate 32 0) e = Inr (chunk_of (fo_bytes (up_file long_upload)) (0 + 1))"
    using upload_outlives_its_key [OF toy_aead_ok full_client_ok full_client_uploading, of ?m d 4 ?key] by auto
  moreover have "sent_on full_client 0 = []" "s_ws full_session = 0" "up_transfer long_upload = js ''t''"
    "chunk_of (fo_bytes (up_file long_upload)) (0 + 1) = [9]"
    by (simp_all add: full_client_def full_session_def long_upload_def example_client_def example_session_def
        sent_on_def open_socket_def chunk_of_def CHUNK_SIZE_def)
  ultimately show ?thesis by (intro exI [of _ ?m] exI [of _ t] exI [of _ e]) simp
qed

end
