(* ===== verification/Outgoing.thy ===== *)
theory Outgoing
  imports Provenance
begin

text \<open>
  What leaves the client. An operation \<open>emits\<close> only frames of a given kind when the text it adds
  to each socket is that of such frames; the rules of this theory carry that through every
  operation, from the one place that writes to a socket (\<open>send\<close>, and the first message of a socket)
  up to a whole event.
\<close>

named_theorems emit_rules \<open>operations that emit only frames of the given kind\<close>

section \<open>What a client may send\<close>

text \<open>The frame an event brings, if it brings one that \<open>onMessage\<close> dispatches.\<close>

definition delivered :: "client_event \<Rightarrow> server_msg option" where
  "delivered e =
     (case e of
        SocketMessage w t \<Rightarrow>
          (case json_parse t of Inl _ \<Rightarrow> None | Inr j \<Rightarrow> if j = JNull then None else Some (server_msg_of j))
      | _ \<Rightarrow> None)"

text \<open>The first message of a socket, which creates a room or redeems an invite.\<close>

fun greeting :: "client_msg \<Rightarrow> bool" where
  "greeting (Create n s) \<longleftrightarrow> True"
| "greeting (Redeem t n s) \<longleftrightarrow> True"
| "greeting _ \<longleftrightarrow> False"

text \<open>The greetings of a client: those its sockets were opened for and those of waiting calls.\<close>

definition greetings :: "client \<Rightarrow> client_msg set" where
  "greetings s = so_hello ` set (cl_sockets s) \<union> pc_hello ` set (cl_connects s)"

text \<open>The greeting a click asks for; of an invite it has the token and not the code.\<close>

definition asked :: "client_event \<Rightarrow> client \<Rightarrow> client_msg \<Rightarrow> bool" where
  "asked e s m \<longleftrightarrow>
     (case e of
        CreateClicked nick \<Rightarrow> m = Create (js_trim nick) (pg_session (cl_page s))
      | JoinSubmitted link nick \<Rightarrow>
          (case parseInvite (js_trim link) of
             None \<Rightarrow> False
           | Some (token, code) \<Rightarrow> m = Redeem token (js_trim nick) (pg_session (cl_page s)))
      | _ \<Rightarrow> False)"

text \<open>The key of the next rotation, and the keys that may be the newest when the step sends.\<close>

definition fresh_room_key :: "'p prims \<Rightarrow> client \<Rightarrow> bytes" where
  "fresh_room_key P s = fst (generateRoomKey P (cl_random s))"

definition newest_key :: "'p prims \<Rightarrow> client \<Rightarrow> bytes \<Rightarrow> bool" where
  "newest_key P s k \<longleftrightarrow> k = fresh_room_key P s \<or> (\<exists>ks. held_keys s = k # ks)"

text \<open>
  What the relayed frame \<open>d\<close> makes of the handshake \<open>h\<close>: the outputs of its session, and the public
  key it brings when its record has a confirmed secret.
\<close>

definition hs_outputs :: "'p prims \<Rightarrow> server_msg \<Rightarrow> session \<Rightarrow> jsstr \<Rightarrow> hs_output list \<Rightarrow> bool" where
  "hs_outputs P m ss h outs \<longleftrightarrow>
     (\<exists>d rec hs. sm_handshake m = Some h \<and> sm_data m = Some d \<and> map_of (s_handshakes ss) h = Some rec
        \<and> onData P (hr_hs rec) d = Inr (hs, outs))"

definition peer_key :: "'p prims \<Rightarrow> server_msg \<Rightarrow> client \<Rightarrow> session \<Rightarrow> jsstr \<Rightarrow> hs_record \<Rightarrow> bytes \<Rightarrow> bool" where
  "peer_key P m s ss h rec pub \<longleftrightarrow>
     (\<exists>d kr. sm_handshake m = Some h \<and> sm_data m = Some d \<and> awaits_key s ss h rec kr
        \<and> openUnderKe P (deref s kr) d = Inr pub)"

text \<open>The handshake a frame begins: the owner's for an invite it made, the joiner's for its own.\<close>

definition begins :: "client \<Rightarrow> server_msg \<Rightarrow> session \<Rightarrow> role \<Rightarrow> jsstr \<Rightarrow> bool" where
  "begins s m ss r code \<longleftrightarrow>
     (case r of
        RoleA \<Rightarrow> \<exists>token. sm_token m = Some token \<and> map_of (s_pendingInvites ss) token = Some code
      | RoleB \<Rightarrow> \<exists>token. cl_pendingJoin s = Some (token, code))"

text \<open>The chunk that a resumption of an upload sends.\<close>

definition sends_chunk :: "upload \<Rightarrow> nat \<Rightarrow> bool" where
  "sends_chunk up i \<longleftrightarrow> (case up_stage up of ReadingFile \<Rightarrow> i = 0 | AfterChunk j \<Rightarrow> i = j + 1)"

text \<open>
  A frame that the event \<open>e\<close> may make the client \<open>s\<close> send, one rule for each form. Everything is
  read off the state before the event: a text, a roster and a file each in an envelope under the
  key named there, a room key sealed with the session's own private key to a public key on file or
  just brought by a confirmed handshake, the session's public key under the secret a handshake has
  just confirmed.
\<close>

inductive may_send :: "'p prims \<Rightarrow> client_event \<Rightarrow> client \<Rightarrow> client_msg \<Rightarrow> bool"
  for P e s where
  hello: "e = SocketOpened w \<Longrightarrow> w < length (cl_sockets s) \<Longrightarrow> greeting (so_hello (cl_sockets s ! w)) \<Longrightarrow>
    may_send P e s (so_hello (cl_sockets s ! w))"
| leave: "may_send P e s Leave"
| invite: "e = InviteClicked \<Longrightarrow> may_send P e s Invite"
| kick: "e = MemberAction False confirmed i \<Longrightarrow> may_send P e s (Kick i)"
| transfer: "e = MemberAction True True i \<or> e = ModalClicked TransferAndLeave i \<Longrightarrow> may_send P e s (Transfer i)"
| chat: "e = MessageSubmitted body \<Longrightarrow> held_keys s = k # ks \<Longrightarrow>
    may_send P e s (Msg (fst (encryptMessage P k body (cl_random s))))"
| roster: "cl_session s = Some ss \<Longrightarrow> newest_key P s k \<Longrightarrow>
    (\<forall>(i, b) \<in> set l. b = s_pub ss \<or> pub_on_file s i = Some b) \<Longrightarrow>
    x = stringify (JObj (map (\<lambda>(i, b). (i, JStr (bytesToB64url b))) l)) \<Longrightarrow>
    may_send P e s (Roster (fst (encryptMessage P k x pos)))"
| rekey: "cl_session s = Some ss \<Longrightarrow> pub_on_file s i = Some pub \<Longrightarrow>
    sealRoomKey P (deref s (s_priv ss)) pub (fresh_room_key P s) pos = Inr (x, pos') \<Longrightarrow>
    may_send P e s (Rekey i x)"
| key_deliver: "delivered e = Some m \<Longrightarrow> cl_session s = Some ss \<Longrightarrow> peer_key P m s ss h rec pub \<Longrightarrow>
    hr_role rec = HsOwner \<Longrightarrow> (g, rec') \<in> set (s_handshakes ss) \<Longrightarrow> hr_joiner rec' = Some (or_else (hr_joiner rec) []) \<Longrightarrow>
    sealRoomKey P (deref s (s_priv ss)) pub (fresh_room_key P s) pos = Inr (x, pos') \<Longrightarrow>
    may_send P e s (KeyDeliver g x)"
| member_key: "delivered e = Some m \<Longrightarrow> cl_session s = Some ss \<Longrightarrow> hs_outputs P m ss h outs \<Longrightarrow>
    OnConfirmed ke \<in> set outs \<Longrightarrow> may_send P e s (MemberKey h (fst (sealUnderKe P ke (s_pub ss) pos)))"
| pake_point: "delivered e = Some m \<Longrightarrow> cl_session s = Some ss \<Longrightarrow> sm_handshake m = Some h \<Longrightarrow> begins s m ss r code \<Longrightarrow>
    new_handshake P r code h (cl_random s) = Inr ((hs, [SendPake x]), pos) \<Longrightarrow> may_send P e s (Pake h x)"
| pake_answer: "delivered e = Some m \<Longrightarrow> cl_session s = Some ss \<Longrightarrow> hs_outputs P m ss h outs \<Longrightarrow>
    SendPake x \<in> set outs \<Longrightarrow> may_send P e s (Pake h x)"
| enter_delivered: "delivered e = Some m \<Longrightarrow> cl_session s = Some ss \<Longrightarrow> sm_handshake m = Some h \<Longrightarrow>
    map_of (s_handshakes ss) h = Some rec \<Longrightarrow> s_firstOwnerPub ss = Some ro \<Longrightarrow> sm_data m = Some d \<Longrightarrow>
    openRoomKey P (deref s (s_priv ss)) (deref s ro) d = Inr k \<Longrightarrow> may_send P e s (Enter h)"
| enter_early: "delivered e = Some m \<Longrightarrow> cl_session s = Some ss \<Longrightarrow> peer_key P m s ss h rec pub \<Longrightarrow>
    hr_pending rec = Some d \<Longrightarrow> openRoomKey P (deref s (s_priv ss)) pub d = Inr k \<Longrightarrow> may_send P e s (Enter h)"
| file_start: "e = UploadReady n \<Longrightarrow> n < length (cl_uploads s) \<Longrightarrow> up = cl_uploads s ! n \<Longrightarrow> up_stage up = ReadingFile \<Longrightarrow>
    x = stringify (meta_json (file_meta_for (up_file up))) \<Longrightarrow>
    may_send P e s (FileStart (up_transfer up) (up_kid up) (fst (encryptMessage P (deref s (up_key up)) x (cl_random s))))"
| file_chunk: "e = UploadReady n \<Longrightarrow> n < length (cl_uploads s) \<Longrightarrow> up = cl_uploads s ! n \<Longrightarrow> sends_chunk up i \<Longrightarrow>
    may_send P e s (FileChunk (up_transfer up) (int i)
      (fst (sealBytes P (deref s (up_key up)) (chunk_of (fo_bytes (up_file up)) i) pos)))"
| file_end: "e = UploadReady n \<Longrightarrow> n < length (cl_uploads s) \<Longrightarrow> up = cl_uploads s ! n \<Longrightarrow> up_stage up = AfterChunk i \<Longrightarrow>
    chunk_total (fo_bytes (up_file up)) \<le> i + 1 \<Longrightarrow> may_send P e s (FileEnd (up_transfer up))"

section \<open>Emitting\<close>

text \<open>
  From \<open>s\<close> to \<open>t\<close> only frames of the kind \<open>Q\<close> are added to the sockets, and only greetings of the
  kind \<open>A\<close> to those waiting.
\<close>

definition emits :: "(client_msg \<Rightarrow> bool) \<Rightarrow> (client_msg \<Rightarrow> bool) \<Rightarrow> client \<Rightarrow> client \<Rightarrow> bool" where
  "emits A Q s t \<longleftrightarrow> (\<forall>m \<in> greetings t. m \<in> greetings s \<or> A m)
     \<and> (\<forall>w. \<exists>fs. sent_on t w = sent_on s w @ map client_msg_text fs \<and> list_all Q fs)"

lemma emits_refl [simp]: "emits A Q s s"
proof -
  have "sent_on s w = sent_on s w @ map client_msg_text [] \<and> list_all Q []" for w by simp
  then show ?thesis unfolding emits_def by blast
qed

lemma emits_trans: "emits A Q s t \<Longrightarrow> emits A Q t u \<Longrightarrow> emits A Q s u"
proof -
  assume st: "emits A Q s t" and tu: "emits A Q t u"
  have "\<exists>fs. sent_on u w = sent_on s w @ map client_msg_text fs \<and> list_all Q fs" for w
  proof -
    obtain fs gs where "sent_on t w = sent_on s w @ map client_msg_text fs" "list_all Q fs"
      "sent_on u w = sent_on t w @ map client_msg_text gs" "list_all Q gs"
      using st tu unfolding emits_def by meson
    then show ?thesis by (intro exI [of _ "fs @ gs"]) simp
  qed
  moreover have "\<forall>m \<in> greetings u. m \<in> greetings s \<or> A m" using st tu unfolding emits_def by blast
  ultimately show ?thesis unfolding emits_def by blast
qed

lemma emits_same: "emits A Q s t \<Longrightarrow> cl_sockets u = cl_sockets t \<Longrightarrow> cl_connects u = cl_connects t \<Longrightarrow> emits A Q s u"
  by (simp add: emits_def greetings_def sent_on_cong [of u t])

lemma emits_upd_socket:
  assumes "emits A Q s t" and "\<And>k. so_hello (f k) = so_hello k"
    and "\<And>k. \<exists>fs. so_sent (f k) = so_sent k @ map client_msg_text fs \<and> list_all Q fs"
  shows "emits A Q s (upd_socket w f t)"
proof (rule emits_trans [OF assms(1)])
  have "\<exists>fs. sent_on (upd_socket w f t) v = sent_on t v @ map client_msg_text fs \<and> list_all Q fs" for v
  proof (cases "v = w \<and> w < length (cl_sockets t)")
    case True
    then show ?thesis using assms(3) [of "cl_sockets t ! w"] by (simp add: sent_on_def upd_socket_def)
  next
    case False
    then have "sent_on (upd_socket w f t) v = sent_on t v @ map client_msg_text []"
      by (auto simp: sent_on_def upd_socket_def nth_list_update)
    then show ?thesis by (intro exI [of _ "[]"]) simp
  qed
  moreover have "greetings (upd_socket w f t) = greetings t"
  proof -
    have "map so_hello (cl_sockets (upd_socket w f t)) = map so_hello (cl_sockets t)"
      using assms(2) by (auto simp: upd_socket_def map_update list_update_same_conv)
    then have "so_hello ` set (cl_sockets (upd_socket w f t)) = so_hello ` set (cl_sockets t)"
      by (metis set_map)
    then show ?thesis by (simp add: greetings_def)
  qed
  ultimately show "emits A Q t (upd_socket w f t)" by (simp add: emits_def)
qed

lemma emits_ws_send: "emits A Q s t \<Longrightarrow> Q m \<Longrightarrow> emits A Q s (ws_send w (client_msg_text m) t)"
  unfolding ws_send_def by (rule emits_upd_socket) (auto intro!: exI [of _ "[m]"])

lemma emits_send [emit_rules]: "emits A Q s t \<Longrightarrow> Q m \<Longrightarrow> emits A Q s (send m t)"
  by (simp add: send_def emits_ws_send split: option.split)

lemma emits_ws_close: "emits A Q s t \<Longrightarrow> emits A Q s (ws_close w t)"
  unfolding ws_close_def by (rule emits_upd_socket) (auto intro!: exI [of _ "[]"])

lemma emits_teardown [emit_rules]:
  assumes "emits A Q s t"
  shows "emits A Q s (teardown b t)"
proof (cases "cl_session t")
  case None
  with assms show ?thesis by (intro emits_same [OF assms]) (simp_all add: teardown_def Let_def)
next
  case (Some ss)
  from assms have "emits A Q s (ws_close (s_ws ss) t)" by (rule emits_ws_close)
  then show ?thesis by (rule emits_same) (simp_all add: teardown_sockets [OF Some])
qed

section \<open>Operations that send nothing\<close>

text \<open>The sockets and the waiting calls of a client.\<close>

definition io :: "client \<Rightarrow> socket list \<times> pending_connect list" where
  "io s = (cl_sockets s, cl_connects s)"

lemma emits_io: "emits A Q s t \<Longrightarrow> io u = io t \<Longrightarrow> emits A Q s u"
  by (rule emits_same) (simp_all add: io_def)

lemma io_parts:
  "io (snd (alloc b s)) = io s" "io (snd (draw f s)) = io s" "io (snd (fresh_key P s)) = io s" "io (pushKey k s) = io s"
  "io (upd_session g s) = io s" "io (upd_handshake h hf s) = io s" "io (delete_handshake h s) = io s"
  "io (lobbyError t s) = io s" "io (lobbyStatus t s) = io s" "io (roomNotice t s) = io s" "io (addMessage n x m s) = io s"
  "io (showRoom s) = io s" "io (showLobby s) = io s" "io (renderMembers ms s) = io s" "io (inviteBtn_for r s) = io s"
  "io (failFileMessage tr reason s) = io s" "io (finishFileMessage tr url s) = io s" "io (delete_incoming tr s) = io s"
  "io (trackUrl url s) = io s" "io (wipeKey q s) = io s" "io (clearStaged s) = io s" "io (closeModal s) = io s"
  "io (setFileProgress v a c s) = io s" "io (openModal ti bo bu s) = io s" "io (snd (createObjectURL by s)) = io s"
  "io (snd (startFileMessage tr n meta m s)) = io s"
  by (simp_all add: io_def alloc_def draw_eq fresh_key_eq pushKey_def with_session_def Let_def upd_handshake_def
      roomNotice_def showRoom_def failFileMessage_def finishFileMessage_def closeModal_def openModal_def createObjectURL_def
      startFileMessage_def split: option.split)

lemma io_fields [simp]:
  "io (s\<lparr>cl_heap := x1\<rparr>) = io s" "io (s\<lparr>cl_random := x2\<rparr>) = io s" "io (s\<lparr>cl_pendingJoin := x3\<rparr>) = io s"
  "io (s\<lparr>cl_intentionalClose := x4\<rparr>) = io s" "io (s\<lparr>cl_uploads := x5\<rparr>) = io s" "io (upd_ui f s) = io s"
  "io (s\<lparr>cl_staged := x6\<rparr>) = io s" "io (s\<lparr>cl_session := x7\<rparr>) = io s"
  by (simp_all add: io_def upd_ui_def)

lemma emits_iff: "io u = io t \<Longrightarrow> emits A Q s u = emits A Q s t"
  by (metis emits_io)

lemma emits_updates:
  "emits A Q s (t\<lparr>cl_intentionalClose := b\<rparr>) = emits A Q s t" "emits A Q s (t\<lparr>cl_uploads := us\<rparr>) = emits A Q s t"
  "emits A Q s (lobbyError x t) = emits A Q s t" "emits A Q s (setFileProgress v a c t) = emits A Q s t"
  "emits A Q s (trackUrl url t) = emits A Q s t" "emits A Q s (finishFileMessage tr url t) = emits A Q s t"
  "emits A Q s (snd (createObjectURL by t)) = emits A Q s t" "emits A Q s (addMessage n y m t) = emits A Q s t"
  "emits A Q s (roomNotice x t) = emits A Q s t" "emits A Q s (clearStaged t) = emits A Q s t" "emits A Q s (closeModal t) = emits A Q s t"
  "emits A Q s (lobbyStatus x t) = emits A Q s t" "emits A Q s (t\<lparr>cl_pendingJoin := pj\<rparr>) = emits A Q s t"
  by (rule emits_iff, simp add: io_parts)+

lemma io_set_member_pub: "io (state_of (set_member_pub e s)) = io s"
  using io_parts(1) by (simp add: set_member_pub_def split_beta io_parts split: json.split sum.split)

lemma io_for_each: "(\<And>x t. io (state_of (f x t)) = io t) \<Longrightarrow> io (state_of (for_each f xs s)) = io s"
  by (rule outcome_invariant_for_each [where I = "\<lambda>t. io t = io s"]) simp_all

lemma io_finishIncoming: "io (finishIncoming tr s) = io s"
  by (simp add: finishIncoming_def Let_def split_beta io_parts split: option.split)

lemma io_handlers:
  "io (onWelcome m s) = io s" "io (state_of (onInviteCreated P m s)) = io s" "io (onRekey P m s) = io s"
  "io (applyRoster P d s) = io s" "io (state_of (onFileStart P m s)) = io s" "io (onFileChunk P m s) = io s"
  "io (onFileEnd m s) = io s" "io (onFileAbort m s) = io s" "io (onFileSelected f s) = io s" "io (pollStats s) = io s" "io (stats_reply r s) = io s"
  by (simp_all add: onWelcome_def onInviteCreated_def onRekey_def applyRoster_def onFileStart_def onFileChunk_def onFileEnd_def
      onFileAbort_def onFileSelected_def renderStaged_def pollStats_def stats_reply_def with_session_def with_session_out_def Let_def split_beta
      io_parts io_for_each io_set_member_pub io_finishIncoming split: option.split sum.split)

section \<open>Handshakes\<close>

text \<open>What the event \<open>e\<close> may make \<open>s\<close> send on the way to \<open>t\<close>.\<close>

abbreviation sends :: "'p prims \<Rightarrow> client_event \<Rightarrow> client \<Rightarrow> client \<Rightarrow> bool" where
  "sends P e s t \<equiv> emits (asked e s) (may_send P e s) s t"

interpretation own: session_view s_pub
  by unfold_locales simp_all

lemma sends_io: "io t = io s \<Longrightarrow> sends P e s t"
  by (rule emits_io [OF emits_refl])

text \<open>Outputs of a session that the callbacks may send for the handshake \<open>h\<close>.\<close>

definition may_answer :: "'p prims \<Rightarrow> client_event \<Rightarrow> client \<Rightarrow> jsstr \<Rightarrow> hs_output \<Rightarrow> bool" where
  "may_answer P e s h x \<longleftrightarrow>
     (case x of
        SendPake d \<Rightarrow> may_send P e s (Pake h d)
      | OnConfirmed ke \<Rightarrow> (\<forall>b pos. view s_pub s = Some b \<longrightarrow> may_send P e s (MemberKey h (fst (sealUnderKe P ke b pos))))
      | OnFail _ \<Rightarrow> True)"

definition answers :: "'p prims \<Rightarrow> client_event \<Rightarrow> client \<Rightarrow> client \<Rightarrow> bool" where
  "answers P e s t \<longleftrightarrow> sends P e s t \<and> (cl_session t = None \<or> view s_pub t = view s_pub s)"

lemma sends_closed: "sends P e s t \<Longrightarrow> sends P e s (teardown b (lobbyError x t))"
  by (rule emits_teardown) (simp add: emits_updates)

lemma answers_callback:
  assumes "answers P e s t" and "may_answer P e s h x"
  shows "answers P e s (run_callback P h r x t)"
proof (cases x)
  case (SendPake d)
  with assms show ?thesis
    by (simp add: answers_def run_callback_def may_answer_def emits_send session_kept)
next
  case (OnConfirmed ke)
  have st: "sends P e s t" using assms(1) by (simp add: answers_def)
  have key: "may_send P e s (MemberKey h (fst (sealUnderKe P ke (s_pub tt) pos)))" if "cl_session t = Some tt" for tt pos
  proof -
    have "view s_pub s = Some (s_pub tt)" using assms(1) that by (simp add: answers_def view_def)
    with assms(2) show ?thesis by (simp add: may_answer_def OnConfirmed)
  qed
  have "sends P e s (hs_confirmed P h ke t)"
  proof (cases "cl_session t")
    case (Some tt)
    have "sends P e s (send (MemberKey h (fst (sealUnderKe P ke (s_pub tt) pos))) u)" if "io u = io t" for pos u
      using emits_io [OF st that] key [OF Some] by (rule emits_send)
    then show ?thesis by (simp add: hs_confirmed_def with_session_def Some draw_eq split_beta Let_def io_parts)
  qed (simp add: hs_confirmed_def with_session_def st)
  then show ?thesis
    using assms(1) view_None [of s_pub] by (simp add: OnConfirmed run_callback_def answers_def own.hs_confirmed_kept)
      (metis own.hs_confirmed_kept view_None)
next
  case (OnFail reason)
  have st: "sends P e s t" using assms(1) by (simp add: answers_def)
  have "answers P e s (delete_handshake h t)"
    using assms(1) emits_io [OF st, of "delete_handshake h t"] own.delete_kept(1) [of h t]
    by (simp add: answers_def io_parts) (metis view_None)
  then show ?thesis
    using sends_closed [OF st] by (simp add: OnFail run_callback_def hs_failed_defs answers_def split: hs_role.split)
qed

lemma answers_callbacks:
  assumes "answers P e s t" and "\<forall>x \<in> set xs. may_answer P e s h x"
  shows "answers P e s (run_callbacks P h r xs t)"
  unfolding run_callbacks_def
  by (rule foldl_preserves [where I = "answers P e s", OF assms(1)]) (use assms(2) in \<open>simp add: answers_callback\<close>)

lemma sends_begin_handshake:
  assumes io: "io t = io s" and t: "cl_random t = cl_random s" "view s_pub t = view s_pub s"
    and frame: "delivered e = Some m" "sm_handshake m = Some h" "cl_session s = Some ss" "begins s m ss r code"
  shows "sends P e s (state_of (begin_handshake P r role j code h t))"
proof (cases "new_handshake P r code h (cl_random t)")
  case (Inl x)
  then show ?thesis by (simp add: begin_handshake_def sends_io io)
next
  case (Inr x)
  obtain hs outs pos where x: "x = ((hs, outs), pos)" by (cases x) auto
  obtain d where outs: "outs = [SendPake d]"
    using Inr unfolding x by (auto simp: new_handshake_def Let_def bind_result_def split: sum.splits prod.splits)
  have "may_send P e s (Pake h d)"
    by (rule may_send.pake_point [OF frame(1,3,2,4)]) (use Inr in \<open>simp add: x outs t(1)\<close>)
  moreover have "answers P e s (t\<lparr>cl_random := pos\<rparr>)" using t(2) by (simp add: answers_def sends_io io)
  ultimately have "answers P e s (run_callbacks P h role outs (t\<lparr>cl_random := pos\<rparr>))"
    by (intro answers_callbacks) (simp_all add: outs may_answer_def)
  then have "sends P e s (run_callbacks P h role outs (t\<lparr>cl_random := pos\<rparr>))" by (simp add: answers_def)
  then have "sends P e s (upd_session f (run_callbacks P h role outs (t\<lparr>cl_random := pos\<rparr>)))" for f
    by (rule emits_io) (simp add: io_parts)
  then show ?thesis using Inr by (simp add: begin_handshake_def x Let_def)
qed

lemma sends_onInviteRedeemed:
  assumes "delivered e = Some m"
  shows "sends P e s (state_of (onInviteRedeemed P m s))"
proof (cases "cl_session s")
  case (Some ss)
  have "sends P e s (state_of (begin_handshake P RoleA HsOwner j code h (upd_session (\<lambda>x. x\<lparr>s_pendingInvites := f x\<rparr>) s)))"
    if "map_of (s_pendingInvites ss) token = Some code" "sm_token m = Some token" "sm_handshake m = Some h" for token code h j f
    by (rule sends_begin_handshake [OF _ _ _ assms that(3) Some])
      (use that(1,2) in \<open>simp_all add: io_parts begins_def session_kept\<close>)
  then show ?thesis
    by (auto simp: onInviteRedeemed_def with_session_out_def Some falsy_def or_else_def sends_io io_parts split: option.split)
qed (simp add: onInviteRedeemed_def with_session_out_def)

lemma sends_onRedeemOk:
  assumes "delivered e = Some m"
  shows "sends P e s (state_of (onRedeemOk P m s))"
proof (cases "cl_session s")
  case (Some ss)
  have "sends P e s (state_of (begin_handshake P RoleB HsJoiner None code h
      (lobbyStatus x ((upd_session (\<lambda>x. x\<lparr>s_memberId := i\<rparr>) s)\<lparr>cl_pendingJoin := None\<rparr>))))"
    if "cl_pendingJoin s = Some (token, code)" "sm_handshake m = Some h" for token code h x i
    by (rule sends_begin_handshake [OF _ _ _ assms that(2) Some])
      (use that(1) in \<open>simp_all add: io_parts begins_def session_kept lobbyStatus_def\<close>)
  then show ?thesis
    by (auto simp: onRedeemOk_def with_session_out_def Some falsy_def or_else_def sends_io io_parts split: option.split)
qed (simp add: onRedeemOk_def with_session_out_def)

lemma sends_onPake:
  assumes "delivered e = Some m"
  shows "sends P e s (state_of (onPake P m s))"
proof (cases "cl_session s")
  case (Some ss)
  have "sends P e s (run_callbacks P h role outs (upd_handshake h f s))"
    if "map_of (s_handshakes ss) h = Some rec" "onData P (hr_hs rec) d = Inr (hs, outs)"
      "sm_handshake m = Some h" "sm_data m = Some d" for h rec d hs outs role f
  proof -
    have out: "hs_outputs P m ss h outs" unfolding hs_outputs_def using that by blast
    have "may_answer P e s h x" if "x \<in> set outs" for x
      using may_send.pake_answer [OF assms Some out] may_send.member_key [OF assms Some out] that Some
      by (cases x) (auto simp: may_answer_def view_def)
    moreover have "answers P e s (upd_handshake h f s)"
      by (simp add: answers_def sends_io io_parts own.upd_handshake_kept)
    ultimately have "answers P e s (run_callbacks P h role outs (upd_handshake h f s))" by (intro answers_callbacks) auto
    then show ?thesis by (simp add: answers_def)
  qed
  then show ?thesis
    by (auto simp: onPake_def find_handshake_def Some split: option.split sum.split)
qed (simp add: onPake_def find_handshake_def split: option.split)

lemma sends_handleError: "sends P e s (handleError m s)"
proof -
  have t: "sends P e s t" if "io t = io s" for t by (rule sends_io [OF that])
  then have "sends P e s (teardown b t)" if "io t = io s" for b t using that by (intro emits_teardown)
  then show ?thesis using t by (simp add: handleError_def Let_def io_parts)
qed

section \<open>Room keys on their way\<close>

lemma held_keys_window: "same_window t u \<Longrightarrow> held_keys u = held_keys t"
  using deref_cong [of u t]
  by (cases "cl_session t"; cases "cl_session u") (auto simp: same_window_def held_keys_def view_def)

text \<open>The client \<open>t\<close> has the key pair of \<open>s\<close> and, but for the members of \<open>X\<close>, no public key that \<open>s\<close> had not.\<close>

definition knows_as :: "jsstr set \<Rightarrow> client \<Rightarrow> client \<Rightarrow> bool" where
  "knows_as X s t \<longleftrightarrow> (\<exists>ss ss'. cl_session s = Some ss \<and> cl_session t = Some ss' \<and> s_pub ss' = s_pub ss
     \<and> deref t (s_priv ss') = deref s (s_priv ss)
     \<and> (\<forall>(i, r) \<in> set (s_memberPubs ss'). i \<in> X \<or> pub_on_file s i = Some (deref t r)))"

lemma knows_as_refl:
  assumes "client_ok s" and "cl_session s = Some ss"
  shows "knows_as {} s s"
proof -
  have "distinct (map fst (s_memberPubs ss))" using client_ok_session [OF assms] by (simp add: session_ok_def)
  then show ?thesis using assms(2) by (auto simp: knows_as_def pub_on_file_def)
qed

lemma knows_as_update:
  assumes "knows_as X s t" and "\<And>x. s_pub (f x) = s_pub x \<and> s_priv (f x) = s_priv x \<and> set (s_memberPubs (f x)) \<subseteq> set (s_memberPubs x)"
    and "cl_session u = map_option f (cl_session t)" and "cl_heap u = cl_heap t"
  shows "knows_as X s u"
proof -
  obtain ss ss' where ss: "cl_session s = Some ss" "cl_session t = Some ss'" "s_pub ss' = s_pub ss"
      "deref t (s_priv ss') = deref s (s_priv ss)"
    and pubs: "\<forall>(i, r) \<in> set (s_memberPubs ss'). i \<in> X \<or> pub_on_file s i = Some (deref t r)"
    using assms(1) unfolding knows_as_def by blast
  have "\<forall>(i, r) \<in> set (s_memberPubs (f ss')). i \<in> X \<or> pub_on_file s i = Some (deref t r)"
    using pubs assms(2) [of ss'] by blast
  then show ?thesis
    using ss assms(2) [of ss'] by (simp add: knows_as_def assms(3) deref_cong [OF assms(4)])
qed

lemma knows_as_same: "knows_as X s t \<Longrightarrow> cl_session u = cl_session t \<Longrightarrow> cl_heap u = cl_heap t \<Longrightarrow> knows_as X s u"
  by (rule knows_as_update [where f = "\<lambda>x. x"]) (simp_all add: option.map_ident)

text \<open>A fresh key wipes at most an evicted room key, so the keys of the pairs stay.\<close>

lemma knows_as_push:
  assumes "knows_as X s t" and ok: "client_ok t" and new: "fresh_key P t = (k, u)"
  shows "knows_as X s (pushKey k u)"
proof -
  obtain ss ss' where ss: "cl_session s = Some ss" "cl_session t = Some ss'" "s_pub ss' = s_pub ss"
      "deref t (s_priv ss') = deref s (s_priv ss)"
    and pubs: "\<forall>(i, r) \<in> set (s_memberPubs ss'). i \<in> X \<or> pub_on_file s i = Some (deref t r)"
    using assms(1) unfolding knows_as_def by blast
  have keep: "deref (pushKey k u) q = deref t q" if "other_ref (shape t) (s_keys ss') q" for q
    by (rule fresh_push(3) [OF ok ss(2) new other_ref_in_store [OF that] other_ref_kept [OF that]])
  have "deref (pushKey k u) r = deref t r" if "(i, r) \<in> set (s_memberPubs ss')" for i r
    using session_refs(2) [OF ok ss(2), of i r] client_ok_session [OF ok ss(2)] that
    by (intro keep) (simp add: session_ok_def)
  then have "\<forall>(i, r) \<in> set (s_memberPubs ss'). i \<in> X \<or> pub_on_file s i = Some (deref (pushKey k u) r)"
    using pubs by fastforce
  then show ?thesis
    using ss keep [OF session_refs(1) [OF ok ss(2)]] fresh_push(1) [OF ok ss(2) new] by (simp add: knows_as_def)
qed

text \<open>
  What follows the push of the key \<open>k\<close>: the frames sent, the session and the store of the push, in
  which \<open>k\<close> is the fresh key.
\<close>

definition spreads :: "'p prims \<Rightarrow> client_event \<Rightarrow> client \<Rightarrow> jsstr set \<Rightarrow> ref \<Rightarrow> client \<Rightarrow> bool" where
  "spreads P e s X k t \<longleftrightarrow> sends P e s t \<and> knows_as X s t \<and> deref t k = fresh_room_key P s"

lemma spreads_rekey:
  assumes t: "spreads P e s X k t" and i: "i \<notin> X"
  shows "spreads P e s X k (state_of (rekeyMember P i k t))"
proof -
  let ?u = "state_of (rekeyMember P i k t)"
  have heap: "cl_heap ?u = cl_heap t"
    by (simp add: rekeyMember_def with_session_out_def split: option.split sum.split prod.split)
  have st: "sends P e s t" "knows_as X s t" and k: "deref t k = fresh_room_key P s"
    using t by (simp_all add: spreads_def)
  have "sends P e s (send (Rekey i env) (t\<lparr>cl_random := pos\<rparr>))"
    if tt: "cl_session t = Some tt" "map_of (s_memberPubs tt) i = Some r"
      "sealRoomKey P (deref t (s_priv tt)) (deref t r) (deref t k) q = Inr (env, pos)" for tt r q env pos
  proof (rule emits_send [OF emits_io [OF st(1)]])
    obtain ss where ss: "cl_session s = Some ss" "deref t (s_priv tt) = deref s (s_priv ss)"
      and "\<forall>(i, r) \<in> set (s_memberPubs tt). i \<in> X \<or> pub_on_file s i = Some (deref t r)"
      using st(2) tt(1) unfolding knows_as_def by auto
    then have "pub_on_file s i = Some (deref t r)" using map_of_SomeD [OF tt(2)] i by blast
    with ss(1) show "may_send P e s (Rekey i env)"
      by (rule may_send.rekey) (use tt(3) in \<open>simp only: ss(2) k\<close>)
  qed simp
  then have "sends P e s ?u"
    using st(1) by (auto simp: rekeyMember_def with_session_out_def split: option.split sum.split)
  then show ?thesis
    using knows_as_same [OF st(2) rekeyMember_session heap] k by (simp add: spreads_def deref_cong [OF heap])
qed

lemma spreads_rekeys:
  assumes "spreads P e s X k t"
  shows "X \<inter> set ids = {} \<Longrightarrow> spreads P e s X k (state_of (for_each (\<lambda>i. rekeyMember P i k) ids t))"
    and "X = {} \<Longrightarrow> spreads P e s X k (state_of (for_each (\<lambda>i t. with_session_out t (\<lambda>ss.
       if i \<noteq> s_memberId ss then rekeyMember P i k t else Done t)) ids t))"
proof -
  show "spreads P e s X k (state_of (for_each (\<lambda>i. rekeyMember P i k) ids t))" if "X \<inter> set ids = {}"
    by (rule outcome_invariant_for_each [where I = "spreads P e s X k"]) (use that assms in \<open>auto intro: spreads_rekey\<close>)
  show "spreads P e s X k (state_of (for_each (\<lambda>i t. with_session_out t (\<lambda>ss.
       if i \<noteq> s_memberId ss then rekeyMember P i k t else Done t)) ids t))" if "X = {}"
    by (rule outcome_invariant_for_each [where I = "spreads P e s X k"])
      (use that assms in \<open>auto simp: with_session_out_def intro: spreads_rekey split: option.split\<close>)
qed

lemma spreads_push:
  assumes ok: "client_ok t" and t: "sends P e s t" "knows_as X s t" "fresh_room_key P t = fresh_room_key P s"
    and new: "fresh_key P t = (k, u)"
  shows "spreads P e s X k (pushKey k u)"
proof -
  obtain ss' where "cl_session t = Some ss'" using t(2) by (auto simp: knows_as_def)
  then have "deref (pushKey k u) k = fresh_room_key P s"
    using fresh_push(2) [OF ok _ new] t(3) by (simp add: fresh_room_key_def)
  moreover have "io (pushKey k u) = io t" using io_parts(3) [of P t] by (simp add: new io_parts)
  ultimately show ?thesis
    using emits_io [OF t(1)] knows_as_push [OF t(2) ok new] by (simp add: spreads_def)
qed

lemma find_in_set:
  assumes "find p xs = Some x"
  shows "x \<in> set xs" and "p x"
  using assms by (induction xs) (auto split: if_splits)

lemma sends_rotateForJoin:
  assumes ok: "client_ok t" and ss: "cl_session t = Some tt" and s: "sends P e s t" "knows_as {j} s t"
    "fresh_room_key P t = fresh_room_key P s" and priv: "cl_session s = Some ss" "deref t (s_priv tt) = deref s (s_priv ss)"
    and pub: "other_ref (shape t) (s_keys tt) pub" and frame: "delivered e = Some m" "peer_key P m s ss h rec (deref t pub)"
    "hr_role rec = HsOwner" "or_else (hr_joiner rec) [] = j" "s_handshakes tt = s_handshakes ss"
  shows "sends P e s (state_of (rotateForJoin P j pub t))"
proof -
  obtain k u where new: "fresh_key P t = (k, u)" by (cases "fresh_key P t")
  let ?p = "pushKey k u"
  have p: "spreads P e s {j} k ?p" by (rule spreads_push [OF ok s new])
  have keep: "deref ?p q = deref t q" if "other_ref (shape t) (s_keys tt) q" for q
    by (rule fresh_push(3) [OF ok ss new other_ref_in_store [OF that] other_ref_kept [OF that]])
  have same: "spreads P e s {j} k v" if "spreads P e s {j} k x" "sends P e s v" "cl_session v = cl_session x" "cl_heap v = cl_heap x" for v x
    using that knows_as_same [of "{j}" s x v] by (simp add: spreads_def deref_cong [of v x])
  have deliver: "spreads P e s {j} k (send (KeyDeliver g env) (?p\<lparr>cl_random := pos\<rparr>))"
    if "sealRoomKey P (deref ?p (s_priv tt)) (deref ?p pub) (deref ?p k) r = Inr (env, pos)"
      "find (\<lambda>x. hr_joiner (snd x) = Some j) (s_handshakes tt) = Some (g, rec')" for g rec' env pos r
  proof (rule same [OF p])
    have rec': "(g, rec') \<in> set (s_handshakes ss)" "hr_joiner rec' = Some (or_else (hr_joiner rec) [])"
      using find_in_set [OF that(2)] frame(4,5) by simp_all
    have "sealRoomKey P (deref s (s_priv ss)) (deref t pub) (fresh_room_key P s) r = Inr (env, pos)"
      using that(1) keep [OF pub] keep [OF session_refs(1) [OF ok ss]] priv(2) p by (simp add: spreads_def)
    with frame(1) priv(1) frame(2,3) rec' have "may_send P e s (KeyDeliver g env)" by (rule may_send.key_deliver)
    moreover have "sends P e s (?p\<lparr>cl_random := pos\<rparr>)" by (rule emits_io [of _ _ s ?p]) (use p in \<open>simp_all add: spreads_def\<close>)
    ultimately show "sends P e s (send (KeyDeliver g env) (?p\<lparr>cl_random := pos\<rparr>))" by (intro emits_send)
  qed simp_all
  have last: "sends P e s (upd_session f v)" if "spreads P e s {j} k v" for v f
    by (rule emits_io [of _ _ s v]) (use that in \<open>simp_all add: spreads_def io_parts\<close>)
  have loop: "sends P e s (state_of (and_then (for_each (\<lambda>i. rekeyMember P i k) [i \<leftarrow> ids. i \<noteq> me \<and> i \<noteq> j] v)
      (\<lambda>t2. Done (upd_session f t2))))" if "spreads P e s {j} k v" for v ids me f
  proof -
    have "spreads P e s {j} k (state_of (for_each (\<lambda>i. rekeyMember P i k) [i \<leftarrow> ids. i \<noteq> me \<and> i \<noteq> j] v))"
      by (rule spreads_rekeys(1) [OF that]) simp
    then show ?thesis
      using last by (cases "for_each (\<lambda>i. rekeyMember P i k) [i \<leftarrow> ids. i \<noteq> me \<and> i \<noteq> j] v") (simp_all, simp add: spreads_def)
  qed
  have "sends P e s ?p" using p by (simp add: spreads_def)
  with loop [OF p] loop [OF deliver] show ?thesis
    unfolding rotateForJoin_def with_session_out_def ss option.case new Let_def prod.case
    by (auto split: option.split sum.split)
qed

text \<open>The state is ready for the roster: its newest key is the one of \<open>s\<close> or the fresh one.\<close>

definition ready :: "'p prims \<Rightarrow> client_event \<Rightarrow> client \<Rightarrow> client \<Rightarrow> bool" where
  "ready P e s t \<longleftrightarrow> sends P e s t \<and> knows_as {} s t \<and> (\<forall>k ks. held_keys t = k # ks \<longrightarrow> newest_key P s k)"

lemma ready_same:
  assumes "ready P e s t" and "io u = io t" and "cl_session u = map_option f (cl_session t)" and "cl_heap u = cl_heap t"
    and "\<And>x. s_pub (f x) = s_pub x \<and> s_priv (f x) = s_priv x \<and> s_memberPubs (f x) = s_memberPubs x \<and> s_keys (f x) = s_keys x"
  shows "ready P e s u"
proof -
  have "held_keys u = held_keys t"
    using assms(5) by (cases "cl_session t") (simp_all add: held_keys_def assms(3) deref_cong [OF assms(4)])
  moreover have "knows_as {} s u"
    by (rule knows_as_update [where f = f and t = t]) (use assms in \<open>simp_all add: ready_def\<close>)
  moreover have "sends P e s u" by (rule emits_io [OF _ assms(2)]) (use assms(1) in \<open>simp add: ready_def\<close>)
  ultimately show ?thesis using assms(1) by (simp add: ready_def)
qed

lemma sends_rotate_for_leavers:
  assumes ok: "client_ok t" and t: "ready P e s t" "fresh_room_key P t = fresh_room_key P s"
  shows "ready P e s (state_of (rotate_for_leavers P removed current t))"
proof -
  have st: "sends P e s t" "knows_as {} s t" using t(1) by (simp_all add: ready_def)
  obtain tt where ss: "cl_session t = Some tt" using st(2) by (auto simp: knows_as_def)
  let ?t = "t\<lparr>cl_session := Some (forget removed tt)\<rparr>"
  obtain k u where new: "fresh_key P ?t = (k, u)" by (cases "fresh_key P ?t")
  have okt: "client_ok ?t" by (rule forget_ok [OF ok ss])
  have "set (foldl (\<lambda>m i. map_delete i m) m removed) \<subseteq> set m" for m :: "(jsstr, ref) js_map"
    by (rule foldl_preserves [where I = "\<lambda>m'. set m' \<subseteq> set m"]) (auto simp: map_delete_def)
  then have fewer: "set (s_memberPubs (forget removed x)) \<subseteq> set (s_memberPubs x)" for x
    by (simp add: forget_def)
  have "knows_as {} s ?t"
    by (rule knows_as_update [where f = "forget removed", OF st(2)]) (simp_all add: ss fewer)
  moreover have "fresh_room_key P ?t = fresh_room_key P s" using t(2) by (simp add: fresh_room_key_def)
  moreover have "sends P e s ?t" by (rule emits_io [OF st(1)]) simp
  ultimately have p: "spreads P e s {} k (pushKey k u)" by (intro spreads_push [OF okt _ _ _ new])
  let ?r = "state_of (rotate_for_leavers P removed current t)"
  have r: "spreads P e s {} k ?r"
    unfolding rotate_for_leavers_def forget_all [OF ss] Let_def new prod.case by (rule spreads_rekeys(2) [OF p]) simp
  have "same_window (pushKey k u) ?r"
    unfolding rotate_for_leavers_def forget_all [OF ss] Let_def new prod.case by (rule same_window_rekeys(2))
  moreover have "\<exists>ks. held_keys (pushKey k u) = fresh_room_key P ?t # ks"
    using fresh_push_window [OF okt _ new] by (simp add: window_push_def fresh_room_key_def)
  ultimately have "\<exists>ks. held_keys ?r = fresh_room_key P s # ks"
    using held_keys_window [of "pushKey k u" ?r] t(2) by (simp add: fresh_room_key_def)
  with r show ?thesis by (auto simp: spreads_def ready_def newest_key_def)
qed

section \<open>The roster\<close>

lemma roster_list_entries:
  "(i, b) \<in> set (roster_list s ss) \<Longrightarrow> (i, b) = (s_memberId ss, s_pub ss) \<or> (\<exists>r. (i, r) \<in> set (s_memberPubs ss) \<and> b = deref s r)"
proof -
  have set: "x \<in> set (map_set k v m) \<Longrightarrow> x = (k, v) \<or> x \<in> set m" for x k v and m :: "(jsstr, bytes) js_map"
    by (induction k v m rule: map_set.induct) (auto split: if_splits)
  have "\<forall>(i, b) \<in> set (roster_list s ss). (i, b) = (s_memberId ss, s_pub ss) \<or> (\<exists>r. (i, r) \<in> set (s_memberPubs ss) \<and> b = deref s r)"
    unfolding roster_list_def by (rule foldl_preserves) (auto dest!: set)
  then show "(i, b) \<in> set (roster_list s ss) \<Longrightarrow> ?thesis" by blast
qed

lemma sends_broadcastRoster:
  assumes "ready P e s t"
  shows "sends P e s (broadcastRoster P t)"
proof -
  have st: "sends P e s t" "knows_as {} s t" using assms by (simp_all add: ready_def)
  have "sends P e s (send (Roster (fst (encryptMessage P (deref t k) (stringify (roster_json t tt)) pos))) (t\<lparr>cl_random := r\<rparr>))"
    if tt: "cl_session t = Some tt" "s_keys tt = k # ks" for tt k ks pos r
  proof (rule emits_send [OF emits_io [OF st(1)]])
    obtain ss where ss: "cl_session s = Some ss" "s_pub tt = s_pub ss"
      and pubs: "\<forall>(i, r) \<in> set (s_memberPubs tt). pub_on_file s i = Some (deref t r)"
      using st(2) tt(1) unfolding knows_as_def by auto
    have "newest_key P s (deref t k)" using assms tt by (simp add: ready_def held_keys_def)
    moreover have "\<forall>(i, b) \<in> set (roster_list t tt). b = s_pub ss \<or> pub_on_file s i = Some b"
      using roster_list_entries [of _ _ t tt] pubs ss(2) by fastforce
    ultimately show "may_send P e s (Roster (fst (encryptMessage P (deref t k) (stringify (roster_json t tt)) pos)))"
      using roster_json_eq by (intro may_send.roster [OF ss(1)]) simp_all
  qed simp
  then show ?thesis
    using st(1) by (auto simp: broadcastRoster_def with_session_def draw_eq split: option.split list.split)
qed

lemma sends_owner_duties:
  assumes ok: "client_ok t" and t: "ready P e s t" "fresh_room_key P t = fresh_room_key P s"
  shows "sends P e s (state_of (owner_duties P became ms t))"
proof -
  let ?cur = "set_of_list (map mi_id ms)"
  have known: "ready P e s (upd_session (\<lambda>x. x\<lparr>s_knownMembers := l\<rparr>) v)" if "ready P e s v" for l v
    by (rule ready_same [OF that, where f = "\<lambda>x. x\<lparr>s_knownMembers := l\<rparr>"]) (simp_all add: io_parts)
  have cast: "sends P e s (broadcastRoster P (upd_session (\<lambda>x. x\<lparr>s_knownMembers := l\<rparr>) v))" if "ready P e s v" for v l
    by (rule sends_broadcastRoster [OF known [OF that]])
  let ?u = "if became then upd_session (\<lambda>x. x\<lparr>s_knownMembers := ?cur\<rparr>) t else t"
  have u: "client_ok ?u" "ready P e s ?u" "fresh_room_key P ?u = fresh_room_key P s"
    using ok t known [OF t(1)] by (auto intro!: ok_upd_session simp: session_ok_def fresh_room_key_def)
  have r: "ready P e s (state_of (if removed \<noteq> [] then rotate_for_leavers P removed current ?u else Done ?u))" for removed current
    using sends_rotate_for_leavers [OF u] u(2) by simp
  have "sends P e s (state_of (and_then (if removed \<noteq> [] then rotate_for_leavers P removed current ?u else Done ?u)
      (\<lambda>t. Done (broadcastRoster P (upd_session (\<lambda>x. x\<lparr>s_knownMembers := ?cur\<rparr>) t)))))" for removed current
    using r [of removed current] cast
    by (cases "if removed \<noteq> [] then rotate_for_leavers P removed current ?u else Done ?u") (simp_all, simp add: ready_def)
  then show ?thesis unfolding owner_duties_def Let_def .
qed

lemma sends_onPresence:
  assumes ok: "client_ok s"
  shows "sends P e s (state_of (onPresence P ms s))"
proof (cases "cl_session s")
  case (Some ss)
  let ?t = "\<lambda>r i. renderMembers ms (inviteBtn_for r (upd_session (\<lambda>x. x\<lparr>s_ownerId := i, s_role := r\<rparr>) s))"
  have "ready P e s s"
    using knows_as_refl [OF ok Some] by (auto simp: ready_def newest_key_def)
  then have "ready P e s (upd_session (\<lambda>x. x\<lparr>s_ownerId := i, s_role := r\<rparr>) s)" for r i
    by (rule ready_same [where f = "\<lambda>x. x\<lparr>s_ownerId := i, s_role := r\<rparr>"]) (simp_all add: io_parts)
  then have "ready P e s (?t r i)" for r i
    by (rule ready_same [where f = "\<lambda>x. x\<lparr>s_lastMembers := ms\<rparr>"])
      (simp_all add: io_parts renderMembers_def Let_def inviteBtn_for_def comp_def option.map_comp)
  moreover have "client_ok (?t r i)" for r i
    by (intro ok_renderMembers ok_texts ok_upd_session ok) (simp add: session_ok_def)
  moreover have "fresh_room_key P (?t r i) = fresh_room_key P s" for r i
    by (simp add: fresh_room_key_def)
  ultimately have "sends P e s (state_of (owner_duties P b ms (?t r i)))" for r i b by (intro sends_owner_duties)
  moreover have "sends P e s (?t r i)" for r i by (rule sends_io) (simp add: io_parts)
  ultimately show ?thesis by (simp add: onPresence_def with_session_out_def Some Let_def)
qed (simp add: onPresence_def with_session_out_def)

section \<open>Admission\<close>

lemma sends_finishJoin:
  assumes st: "sends P e s t"
    and opened: "\<And>tt ro k. cl_session t = Some tt \<Longrightarrow> s_firstOwnerPub tt = Some ro \<Longrightarrow>
      openRoomKey P (deref t (s_priv tt)) (deref t ro) d = Inr k \<Longrightarrow> may_send P e s (Enter h)"
  shows "sends P e s (finishJoin P h rec d t)"
proof -
  have "sends P e s (send (Enter h) u)" if "io u = io t" "may_send P e s (Enter h)" for u
    using emits_io [OF st that(1)] that(2) by (rule emits_send)
  then show ?thesis
    using st opened sends_closed [OF st]
    by (simp add: finishJoin_def with_session_def Let_def split_beta io_parts split: option.split sum.split)
qed

lemma sends_accept_peer_key:
  assumes ok: "client_ok s" and ss: "cl_session s = Some ss"
    and frame: "delivered e = Some m" "peer_key P m s ss h rec pub"
  shows "sends P e s (state_of (accept_peer_key P h rec pub s))"
proof -
  obtain r s1 where new: "alloc pub s = (r, s1)" by (cases "alloc pub s")
  note new' = alloc_eq [OF new]
  have "s_priv ss < length (cl_heap s)" by (rule other_ref_in_store [OF session_refs(1) [OF ok ss]])
  then have priv: "deref s1 (s_priv ss) = deref s (s_priv ss)" by (rule new'(4))
  have u: "sends P e s (upd_session f s1)" for f
    by (rule sends_io) (simp add: new'(2) io_parts)
  show ?thesis
  proof (cases "hr_role rec")
    case HsOwner
    let ?j = "or_else (hr_joiner rec) []"
    let ?u = "upd_session (\<lambda>x. x\<lparr>s_memberPubs := map_set ?j r (s_memberPubs x)\<rparr>) s1"
    let ?su = "ss\<lparr>s_memberPubs := map_set ?j r (s_memberPubs ss)\<rparr>"
    have okU: "client_ok ?u"
      using ok_alloc [OF new ok] by (intro ok_upd_session) (simp_all add: session_ok_def distinct_map_set)
    have su: "cl_session ?u = Some ?su" by (simp add: new'(2) ss)
    have pubs: "pub_on_file s i = Some (deref s1 q)" if q: "(i, q) \<in> set (s_memberPubs ss)" for i q
    proof -
      have "map_of (s_memberPubs ss) i = Some q" using q client_ok_session [OF ok ss] by (simp add: session_ok_def)
      then show ?thesis
        using new'(4) [OF other_ref_in_store [OF session_refs(2) [OF ok ss]]] by (simp add: pub_on_file_def ss)
    qed
    have set: "x \<in> set (map_set k v xs) \<Longrightarrow> x = (k, v) \<or> x \<in> set xs" for x k v and xs :: "(jsstr, ref) js_map"
      by (induction k v xs rule: map_set.induct) (auto split: if_splits)
    have "knows_as {?j} s ?u"
      unfolding knows_as_def using ss su priv pubs by (auto dest!: set)
    moreover have "other_ref (shape ?u) (s_keys ss) r"
      using session_refs(2) [OF okU su, of ?j r] by (simp add: map_of_map_set)
    moreover have "fresh_room_key P ?u = fresh_room_key P s" by (simp add: fresh_room_key_def new'(2))
    ultimately have "sends P e s (state_of (rotateForJoin P ?j r ?u))"
      using frame priv new'(3) HsOwner by (intro sends_rotateForJoin [OF okU su u _ _ ss, where m = m and h = h and rec = rec]) simp_all
    then show ?thesis
      by (cases "rotateForJoin P ?j r ?u") (simp_all add: accept_peer_key_def new HsOwner Let_def emits_iff [OF io_parts(7)])
  next
    case HsJoiner
    let ?u = "upd_session (\<lambda>x. x\<lparr>s_firstOwnerPub := Some r\<rparr>) s1"
    have "sends P e s (finishJoin P h rec d ?u)" if d: "hr_pending rec = Some d" for d
    proof (rule sends_finishJoin [OF u])
      show "may_send P e s (Enter h)" if "cl_session ?u = Some tt" "s_firstOwnerPub tt = Some ro"
        "openRoomKey P (deref ?u (s_priv tt)) (deref ?u ro) d = Inr k" for tt ro k
        by (rule may_send.enter_early [OF frame(1) ss frame(2) d, of k]) (use that priv new'(2,3) ss in auto)
    qed
    then show ?thesis using u by (auto simp: accept_peer_key_def new HsJoiner Let_def falsy_def or_else_def split: option.split)
  qed
qed

lemma sends_onMemberKey:
  assumes ok: "client_ok s" and frame: "delivered e = Some m"
  shows "sends P e s (state_of (onMemberKey P m s))"
proof (cases "cl_session s")
  case (Some ss)
  have "sends P e s (state_of (accept_peer_key P h rec pub s))"
    if "sm_handshake m = Some h" "h \<noteq> []" "sm_data m = Some d" "map_of (s_handshakes ss) h = Some rec"
      "hr_ke rec = Some kr" "openUnderKe P (deref s kr) d = Inr pub" for h d rec kr pub
    by (rule sends_accept_peer_key [OF ok Some frame]) (use that in \<open>auto simp: peer_key_def awaits_key_def\<close>)
  then show ?thesis
    by (auto simp: onMemberKey_def with_session_out_def Some falsy_def or_else_def split: option.split sum.split)
qed (simp add: onMemberKey_def with_session_out_def)

lemma sends_onKeyDeliver:
  assumes frame: "delivered e = Some m"
  shows "sends P e s (onKeyDeliver P m s)"
proof (cases "cl_session s")
  case (Some ss)
  have "sends P e s (finishJoin P h rec d s)"
    if "sm_handshake m = Some h" "sm_data m = Some d" "map_of (s_handshakes ss) h = Some rec" for h d rec
    by (rule sends_finishJoin [OF emits_refl])
      (use Some that in \<open>auto intro: may_send.enter_delivered [OF frame Some]\<close>)
  then show ?thesis
    by (auto simp: onKeyDeliver_def with_session_def Some sends_io io_parts split: option.split)
qed (simp add: onKeyDeliver_def with_session_def)

lemma sends_dispatch:
  assumes ok: "client_ok s" and frame: "delivered e = Some m"
  shows "sends P e s (state_of (dispatch P m s))"
proof -
  have closed: "sends P e s (lobbyError x (teardown True (s\<lparr>cl_intentionalClose := True\<rparr>)))" for x
    by (rule emits_io [OF emits_teardown [OF sends_io] io_parts(8)]) simp
  show ?thesis
    by (simp add: dispatch_def Let_def sends_io io_handlers io_parts sends_onInviteRedeemed [OF frame] sends_onRedeemOk [OF frame]
        sends_onPake [OF frame] sends_handleError sends_onMemberKey [OF ok frame] sends_onKeyDeliver [OF frame]
        sends_onPresence [OF ok] closed)
qed

end
