(* ===== verification/OutgoingProperties.thy ===== *)
theory OutgoingProperties
  imports Outgoing FileProperties LifecycleProperties
begin

text \<open>
  Confidentiality as a property of whole runs: whatever happens, every frame a client puts on a
  socket carries its content only inside an envelope, and under which keys.
\<close>

section \<open>Uploads\<close>

lemma sends_send_chunk:
  assumes "sends P e s t" and "\<And>pos. may_send P e s (FileChunk (up_transfer up) (int i)
    (fst (sealBytes P (deref t (up_key up)) (chunk_of (fo_bytes (up_file up)) i) pos)))"
  shows "sends P e s (send_chunk P up i t)"
proof -
  have "sends P e s (send (FileChunk (up_transfer up) (int i)
      (fst (sealBytes P (deref t (up_key up)) (chunk_of (fo_bytes (up_file up)) i) p))) (t\<lparr>cl_random := q\<rparr>))" for p q
    by (rule emits_send [OF emits_io [OF assms(1)] assms(2)]) simp
  then show ?thesis by (simp add: send_chunk_def Let_def draw_eq emits_updates)
qed

lemma sends_resume_nth:
  assumes e: "e = UploadReady n"
  shows "sends P e s (resume_nth P n s)"
proof (cases "n < length (cl_uploads s)")
  case True
  define up where "up = cl_uploads s ! n"
  note nth = e True up_def
  have chunk: "may_send P e s (FileChunk (up_transfer up) (int i)
      (fst (sealBytes P (deref s (up_key up)) (chunk_of (fo_bytes (up_file up)) i) pos)))" if "sends_chunk up i" for i pos
    by (rule may_send.file_chunk [OF nth that])
  have "sends P e s (snd (resume_upload P up s))"
  proof (cases "up_stage up")
    case (AfterChunk i)
    have "sends P e s (send_chunk P (up\<lparr>up_stage := st\<rparr>) (i + 1) s)" for st
      by (rule sends_send_chunk [OF emits_refl]) (use chunk [of "i + 1"] AfterChunk in \<open>simp add: sends_chunk_def\<close>)
    from this [of "up_stage up"] have "sends P e s (send_chunk P up (i + 1) s)" by simp
    moreover have "sends P e s (send (FileEnd (up_transfer up)) s)" if "\<not> i + 1 < chunk_total (fo_bytes (up_file up))"
    proof (rule emits_send [OF emits_refl])
      show "may_send P e s (FileEnd (up_transfer up))" by (rule may_send.file_end [OF nth AfterChunk]) (use that in simp)
    qed
    ultimately show ?thesis by (simp add: resume_upload_def AfterChunk Let_def split_beta emits_updates)
  next
    case ReadingFile
    let ?meta = "file_meta_for (up_file up)"
    obtain h s1 where start: "startFileMessage (up_transfer up) (js ''you'') ?meta True s = (h, s1)"
      by (cases "startFileMessage (up_transfer up) (js ''you'') ?meta True s")
    have s1: "io s1 = io s" "cl_heap s1 = cl_heap s" "cl_random s1 = cl_random s"
      using start io_parts(26) [of "up_transfer up" "js ''you''" ?meta True s] by (auto simp: startFileMessage_def Let_def)
    note key = deref_cong [OF s1(2)]
    let ?head = "FileStart (up_transfer up) (up_kid up)
      (fst (encryptMessage P (deref s1 (up_key up)) (stringify (meta_json ?meta)) (cl_random s1)))"
    have "may_send P e s ?head"
      unfolding key s1(3) by (rule may_send.file_start [OF nth ReadingFile refl])
    moreover have "sends P e s (s1\<lparr>cl_random := q\<rparr>)" for q by (rule sends_io) (simp add: s1(1))
    ultimately have "sends P e s (send ?head (s1\<lparr>cl_random := q\<rparr>))" for q by (intro emits_send)
    then have "sends P e s (send_chunk P (up\<lparr>up_view := h, up_stage := st\<rparr>) 0 (send ?head (s1\<lparr>cl_random := q\<rparr>)))" for st q
      by (rule sends_send_chunk) (use chunk [of 0] ReadingFile in \<open>simp add: sends_chunk_def key\<close>)
    then show ?thesis by (simp add: resume_upload_def ReadingFile start Let_def draw_eq)
  qed
  then show ?thesis using True by (simp add: resume_nth_def up_def Let_def split_beta emits_updates)
qed (simp add: resume_nth_def)

lemma io_sendFile: "io (sendFile P f s) = io s"
  by (simp add: sendFile_def with_session_def draw_eq Let_def split: option.split list.split)

section \<open>Connecting\<close>

definition greets :: "client \<Rightarrow> bool" where
  "greets s \<longleftrightarrow> (\<forall>m \<in> greetings s. greeting m)"

lemma asked_greeting: "asked e s m \<Longrightarrow> greeting m"
  by (cases e) (auto simp: asked_def split: option.splits)

lemma greets_kept: "greets s \<Longrightarrow> sends P e s t \<Longrightarrow> greets t"
  unfolding greets_def emits_def using asked_greeting by blast

text \<open>A socket opened for a greeting that was waiting or is asked for.\<close>

lemma emits_open_session:
  assumes "emits A Q s t" and "hello \<in> greetings s \<or> A hello"
  shows "emits A Q s (open_session P hello c t)"
proof -
  let ?u = "t\<lparr>cl_sockets := cl_sockets t @ [\<lparr>so_state = Connecting, so_hello = hello, so_sent = []\<rparr>]\<rparr>"
  have sent: "sent_on ?u w = sent_on t w" for w
    by (auto simp: sent_on_def nth_append)
  have "greetings ?u = insert hello (greetings t)" by (auto simp: greetings_def)
  with assms have "emits A Q s ?u" by (simp add: emits_def sent)
  then show ?thesis
    by (rule emits_same) (simp_all add: open_session_def Let_def draw_eq alloc_def fresh_key_eq)
qed

lemma emits_connects: "emits A Q s t \<Longrightarrow> set cs \<subseteq> set (cl_connects t) \<Longrightarrow> emits A Q s (t\<lparr>cl_connects := cs\<rparr>)"
proof -
  assume "emits A Q s t" and cs: "set cs \<subseteq> set (cl_connects t)"
  moreover have "greetings (t\<lparr>cl_connects := cs\<rparr>) \<subseteq> greetings t" using cs by (auto simp: greetings_def)
  ultimately show ?thesis unfolding emits_def by (auto simp: sent_on_cong [of "t\<lparr>cl_connects := cs\<rparr>" t])
qed

lemma emits_connect:
  assumes "emits A Q s t" and "A hello"
  shows "emits A Q s (connect P hello c t)"
proof -
  have err: "emits A Q s (lobbyError [] t)" using assms(1) by (simp add: emits_updates)
  then have "emits A Q s (teardown False (lobbyError [] t))" by (rule emits_teardown)
  then have "emits A Q s ((teardown False (lobbyError [] t))\<lparr>cl_connects :=
      cl_connects (teardown False (lobbyError [] t)) @ [\<lparr>pc_ws = w, pc_hello = hello, pc_create = c\<rparr>]\<rparr>)" for w
    using assms(2) unfolding emits_def
    by (auto simp: greetings_def sent_on_cong [of "t\<lparr>cl_connects := cs\<rparr>" t for t cs])
  then show ?thesis
    using emits_open_session [OF err, of hello P c] assms(2) by (auto simp: connect_def Let_def split: option.split)
qed

lemma emits_onClose: "emits A Q s t \<Longrightarrow> emits A Q s (onClose t)"
  by (simp add: onClose_def Let_def emits_updates emits_teardown)

lemma emits_socket_closed: "emits (\<lambda>m. False) (\<lambda>m. False) s (socket_closed P w s)"
proof -
  let ?E = "emits (\<lambda>m. False) (\<lambda>m. False) s"
  let ?s1 = "onClose (upd_socket w (\<lambda>k. k\<lparr>so_state := Closed\<rparr>) s)"
  have s1: "?E ?s1"
    by (intro emits_onClose emits_upd_socket) (auto intro: exI [of _ "[]"])
  then have pc: "pc_hello pc \<in> greetings s" if "pc \<in> set (cl_connects ?s1)" for pc
    using that by (auto simp: greetings_def emits_def)
  have "?E (foldl (\<lambda>t pc. resume_connect P pc t) (?s1\<lparr>cl_connects := [pc \<leftarrow> cl_connects ?s1. pc_ws pc \<noteq> w]\<rparr>)
      [pc \<leftarrow> cl_connects ?s1. pc_ws pc = w])"
    by (rule foldl_preserves [where I = ?E])
      (auto simp: resume_connect_def intro!: emits_open_session pc emits_connects s1)
  then show ?thesis by (simp add: socket_closed_def Let_def)
qed

lemma emits_connect_timeout: "emits (\<lambda>m. False) (\<lambda>m. False) s (connect_timeout P n s)"
proof (cases "n < length (cl_connects s)")
  case True
  then have "pc_hello (cl_connects s ! n) \<in> greetings s" by (auto simp: greetings_def)
  moreover have "emits (\<lambda>m. False) (\<lambda>m. False) s (s\<lparr>cl_connects := take n (cl_connects s) @ drop (Suc n) (cl_connects s)\<rparr>)"
    by (rule emits_connects) (auto dest: in_set_takeD in_set_dropD)
  ultimately show ?thesis using True by (simp add: connect_timeout_def resume_connect_def emits_open_session)
qed (simp add: connect_timeout_def)

lemma emits_weaken:
  assumes "emits A Q s t" and "\<And>m. A m \<Longrightarrow> A' m" and "\<And>m. Q m \<Longrightarrow> Q' m"
  shows "emits A' Q' s t"
  using assms unfolding emits_def by (meson list.pred_mono_strong)

lemma sends_quiet: "emits (\<lambda>m. False) (\<lambda>m. False) s t \<Longrightarrow> sends P e s t"
  by (erule emits_weaken) simp_all

lemma sends_socket_opened:
  assumes "greets s" and e: "e = SocketOpened w"
  shows "sends P e s (socket_opened w s)"
proof (cases "socket_state s w = Connecting")
  case True
  then have w: "w < length (cl_sockets s)" by (auto simp: socket_state_def split: if_splits)
  then have "greeting (so_hello (cl_sockets s ! w))" using assms by (auto simp: greets_def greetings_def)
  from may_send.hello [OF e w this, of P] have "may_send P e s (so_hello (cl_sockets s ! w))" .
  moreover have "sends P e s (upd_socket w (\<lambda>k. k\<lparr>so_state := Open\<rparr>) s)"
    by (rule emits_upd_socket) (auto intro: exI [of _ "[]"])
  ultimately show ?thesis using True by (simp add: socket_opened_def emits_ws_send)
qed (simp add: socket_opened_def)

section \<open>A whole event\<close>

lemma sends_message_submitted:
  assumes e: "e = MessageSubmitted body"
  shows "sends P e s (message_submitted P body s)"
proof -
  have "sends P e s (send (Msg (fst (encryptMessage P (deref s k) body (cl_random s)))) (s\<lparr>cl_random := q\<rparr>))"
    if "cl_session s = Some ss" "s_keys ss = k # ks" for ss k ks q
    by (rule emits_send [OF sends_io may_send.chat [OF e]]) (use that in \<open>simp_all add: held_keys_def\<close>)
  moreover have "sends P e s (sendFile P f t) = sends P e s t" for f t
    by (rule emits_iff) (rule io_sendFile)
  ultimately show ?thesis
    by (auto simp: message_submitted_def with_session_def draw_eq Let_def emits_updates split: option.split list.split)
qed

lemma sends_doLeave: "sends P e s t \<Longrightarrow> sends P e s (doLeave t)"
  unfolding doLeave_def by (intro emits_teardown emits_send may_send.leave) (simp add: emits_updates)

lemma sends_onLeaveClicked: "sends P e s (onLeaveClicked s)"
proof -
  have "sends P e s (openModal ti bo bu s)" for ti bo bu
    by (rule sends_io) (rule io_parts)
  then show ?thesis by (simp add: onLeaveClicked_def with_session_def sends_doLeave Let_def split: option.split)
qed

lemma sends_modal_clicked: "e = ModalClicked a i \<Longrightarrow> sends P e s (modal_clicked a i s)"
  by (cases a) (simp_all add: modal_clicked_def Let_def emits_updates sends_doLeave emits_send may_send.transfer)

lemma sends_event:
  assumes ok: "client_ok s" and greets: "greets s"
  shows "sends P e s (client_step P e s)"
proof (cases e)
  case (SocketMessage w t)
  have "sends P e s (state_of (onMessage P t s))"
  proof (cases "json_parse t")
    case (Inr j)
    show ?thesis
      using sends_dispatch [OF ok, of e "server_msg_of j" P] SocketMessage Inr by (simp add: onMessage_def delivered_def)
  qed (simp add: onMessage_def)
  then show ?thesis using SocketMessage by (simp add: client_step_def handle_event_def)
next
  case (JoinSubmitted link nick)
  then show ?thesis
    by (auto simp: client_step_def handle_event_def join_submitted_def emits_updates asked_def intro!: emits_connect split: option.split)
next
  case (CreateClicked nick)
  then show ?thesis
    by (simp add: client_step_def handle_event_def create_clicked_def emits_connect asked_def)
next
  case (MemberAction mk okay target)
  then show ?thesis
    by (auto simp: client_step_def handle_event_def member_action_def with_session_def
        intro!: emits_send may_send.kick may_send.transfer split: option.split)
next
  case PageVisible
  then show ?thesis
    by (simp add: client_step_def handle_event_def recoverIfSocketDead_def emits_onClose emits_updates split: option.split)
next
  case (SocketOpened w)
  then show ?thesis by (simp add: client_step_def handle_event_def sends_socket_opened [OF greets])
next
  case (UploadReady n)
  then show ?thesis by (simp add: client_step_def handle_event_def sends_resume_nth)
next
  case (MessageSubmitted body)
  then show ?thesis by (simp add: client_step_def handle_event_def sends_message_submitted)
next
  case (ModalClicked a i)
  then show ?thesis by (simp add: client_step_def handle_event_def sends_modal_clicked)
next
  case PageUnload
  then show ?thesis by (simp add: client_step_def handle_event_def emits_send may_send.leave)
next
  case InviteClicked
  then show ?thesis by (simp add: client_step_def handle_event_def emits_send may_send.invite)
qed (auto simp: client_step_def handle_event_def sends_quiet [OF emits_socket_closed]
    sends_quiet [OF emits_connect_timeout] sends_onLeaveClicked socket_error_def emits_updates
    sends_io io_handlers copy_invite_def)

interpretation greeting_system: invariant_system "client_step P" "\<lambda>s. client_ok s \<and> greets s" for P
  by unfold_locales (auto intro: client_step_ok greets_kept sends_event)

text \<open>
  C3: Nothing leaves a client in the clear. In any state that events can lead to from the loaded
  page, whatever the next event, what it adds to each socket are frames that \<open>may_send\<close> allows.
  Chat text is only in an envelope under the newest room key, and the roster, which lists only
  public keys, under the newest one or the one just made. A room key is sent only when it has just
  been made, sealed with the session's private key to the public key on file for the member it
  is addressed to, or to the one just opened under the joiner's confirmed handshake. The
  session's public key is sealed under the secret its handshake has just confirmed, and a
  handshake sends what its session outputs. File names and chunks are in envelopes under what the
  key array of their upload holds at that moment (32 zero bytes once it is evicted), with the
  upload's own transfer id and key tag. Everything else has no content: member ids the user picked,
  handshake ids of frames that opened, and the greetings, which are the ones clicks asked for: a
  nickname with the tab's session id and the token of an invite, never its code.
\<close>

theorem frames_are_sealed:
  "let s = run_steps (client_step P) es (load_page P pg); t = client_step P e s in
    (\<exists>fs. sent_on t w = sent_on s w @ map client_msg_text fs \<and> list_all (may_send P e s) fs)
      \<and> greetings t \<subseteq> greetings s \<union> {m. asked e s m}"
proof -
  let ?s = "run_steps (client_step P) es (load_page P pg)"
  have "client_ok (load_page P pg) \<and> greets (load_page P pg)"
    by (rule conjI [OF load_page_ok])
      (simp add: greets_def greetings_def load_page_def pollStats_def initial_client_def split_beta)
  from greeting_system.run_inv [OF this, of P es] have "client_ok ?s" "greets ?s" by simp_all
  from sends_event [OF this, of e P] show ?thesis by (auto simp: emits_def Let_def)
qed

section \<open>The form of a frame\<close>

text \<open>
  What the text of a frame says to its reader, with the names PROTOCOL.md gives: for a frame the
  relay forwards, the fields of \<open>ServerMsg\<close> in which the other client looks for them; for one the
  relay consumes, the object it gets.
\<close>

fun says :: "client_msg \<Rightarrow> json \<Rightarrow> bool" where
  "says (Create n i) j \<longleftrightarrow> j = JObj [(js ''type'', JStr (js ''create'')), (js ''nick'', JStr n), (js ''session'', JStr i)]"
| "says (Redeem k n i) j \<longleftrightarrow> j = JObj [(js ''type'', JStr (js ''redeem'')), (js ''token'', JStr k), (js ''nick'', JStr n),
     (js ''session'', JStr i)]"
| "says (Msg b) j \<longleftrightarrow> j = JObj [(js ''type'', JStr (js ''msg'')), (js ''body'', JStr b)] \<and> sm_body (server_msg_of j) = Some b"
| "says Leave j \<longleftrightarrow> j = JObj [(js ''type'', JStr (js ''leave''))]"
| "says Invite j \<longleftrightarrow> j = JObj [(js ''type'', JStr (js ''invite''))]"
| "says (Enter h) j \<longleftrightarrow> j = JObj [(js ''type'', JStr (js ''enter'')), (js ''handshake'', JStr h)]"
| "says (Transfer i) j \<longleftrightarrow> j = JObj [(js ''type'', JStr (js ''transfer'')), (js ''target'', JStr i)]"
| "says (Kick i) j \<longleftrightarrow> j = JObj [(js ''type'', JStr (js ''kick'')), (js ''target'', JStr i)]"
| "says (Pake h d) j \<longleftrightarrow> (let r = server_msg_of j in
     sm_type r = js ''pake'' \<and> sm_handshake r = Some h \<and> sm_data r = Some d)"
| "says (KeyDeliver h d) j \<longleftrightarrow> (let r = server_msg_of j in
     sm_type r = js ''key_deliver'' \<and> sm_handshake r = Some h \<and> sm_data r = Some d)"
| "says (MemberKey h d) j \<longleftrightarrow> (let r = server_msg_of j in
     sm_type r = js ''member_key'' \<and> sm_handshake r = Some h \<and> sm_data r = Some d)"
| "says (Rekey i d) j \<longleftrightarrow> (let r = server_msg_of j in
     sm_type r = js ''rekey'' \<and> member (js ''target'') j = Some (JStr i) \<and> sm_data r = Some d)"
| "says (Roster d) j \<longleftrightarrow> (let r = server_msg_of j in sm_type r = js ''roster'' \<and> sm_data r = Some d)"
| "says (FileStart k i d) j \<longleftrightarrow> (let r = server_msg_of j in
     sm_type r = js ''file_start'' \<and> sm_transfer r = Some k \<and> sm_keyId r = Some i \<and> sm_data r = Some d)"
| "says (FileChunk k n d) j \<longleftrightarrow> (let r = server_msg_of j in
     sm_type r = js ''file_chunk'' \<and> sm_transfer r = Some k \<and> sm_index r = Some (JNum n) \<and> sm_data r = Some d)"
| "says (FileEnd k) j \<longleftrightarrow> (let r = server_msg_of j in sm_type r = js ''file_end'' \<and> sm_transfer r = Some k)"
| "says (FileAbort k) j \<longleftrightarrow> (let r = server_msg_of j in sm_type r = js ''file_abort'' \<and> sm_transfer r = Some k)"

text \<open>
  C40: Sending a message on an open socket adds one text to it. That text is JSON, and the client
  to which the relay forwards it finds the type and every field where its handlers look for them;
  the messages for the relay itself are the objects PROTOCOL.md describes.
\<close>

theorem frame_is_understood:
  assumes "connected ss s"
  shows "\<exists>t j. sent_on (send m s) (s_ws ss) = sent_on s (s_ws ss) @ [t] \<and> json_parse t = Inr j \<and> says m j"
proof -
  have "says m (client_msg_json m)"
    by (cases m) (simp_all add: client_msg_json_def server_msg_of_def string_field_def number_field_def Let_def)
  then show ?thesis using sent_send(1) [OF assms] client_msg_text_parse by blast
qed

theorem frame_is_understood_witness:
  "\<exists>t j. sent_on (send (Rekey (js ''b'') (js ''x'')) (example_client (js ''o'') Owner)) 0 = [t] \<and> json_parse t = Inr j
    \<and> sm_type (server_msg_of j) = js ''rekey'' \<and> sm_data (server_msg_of j) = Some (js ''x'')"
proof -
  let ?s = "example_client (js ''o'') Owner" and ?ss = "example_session (js ''o'') Owner"
  have "s_ws ?ss = 0" "sent_on ?s 0 = []"
    by (simp_all add: example_session_def example_client_def open_socket_def sent_on_def)
  then show ?thesis
    using frame_is_understood [OF example_connected, of "Rekey (js ''b'') (js ''x'')" "js ''o''" Owner] by (auto simp: Let_def)
qed

end
