(* ===== verification/Spec2Isabelle.thy ===== *)
theory Spec2Isabelle
  imports HandshakeProperties EncodingProperties SealProperties LifecycleProperties DeliveryProperties
    AdmissionProperties ProvenanceProperties FileProperties OutgoingProperties
begin

text \<open>
  The browser client of AnonChat (web/src): an end-to-end encrypted chat whose relay forwards
  frames it cannot read. This development translates the client from its TypeScript and proves
  what it promises and where it falls short.

  \<^bold>\<open>The program.\<close> A room's owner hands out an invite link holding a token and a ten-letter code.
  Whoever redeems it runs SPAKE2 with the owner over the code (spake2.ts, handshake.ts); both
  then send their X25519 public keys sealed under the secret of that exchange, and the owner
  rotates the room key and seals it to the joiner and to every other member (crypto.ts, main.ts).
  Messages, the roster of public keys and files travel sealed under the room key; each client
  keeps the last five of them and zeroes what falls out. When somebody leaves, the owner rotates
  again. main.ts keeps all of that state, one WebSocket and the page.

  \<^bold>\<open>Data and platform.\<close>
  \<^item> Prelude: bytes and strings as words, results of code that throws (\<open>outcome\<close>, sums), the
    interfaces \<open>codec\<close>, \<open>prefix_code\<close> and \<open>invariant_system\<close>.
  \<^item> JsText, Base64, Json, JsonRoundtrip, JsMap: TextEncoder and TextDecoder, btoa and atob with
    the client's base64url helpers, JSON.stringify and JSON.parse, the insertion-ordered Map and
    Set. Each text format is an interpretation of \<open>codec\<close>, JsMap one of \<open>keyed_store\<close>.
  \<^item> Primitives: the packages @noble/ciphers, hashes and curves, Unicode normalisation and the
    random source as one record of functions, with the laws the client relies on as predicates
    and an instance \<open>toy\<close> in which they hold. A property names the laws it needs.

  \<^bold>\<open>Components.\<close>
  \<^item> Crypto is crypto.ts; Spake2 is spake2.ts; Handshake is the class of handshake.ts, with its
    callbacks as a list of outputs; Protocol is protocol.ts, its unions as a datatype
    (\<open>client_msg\<close>) and a record of optional fields (\<open>server_msg\<close>).
  \<^item> InviteLink is the code generator and the link parser of main.ts.
  \<^item> ClientState to Client are the rest of main.ts. ClientState has the module's variables as the
    record \<open>client\<close> (\<open>session\<close>, sockets, blob URLs, page) and a store: byte arrays that the code
    zeroes in place are references, so that wiping is seen through every alias. ClientView has the
    functions that draw, ClientKeys the window, rotation, roster, presence and teardown,
    ClientJoin invites and admission, ClientFiles uploads and downloads, Client the connection,
    the frame handlers and the listeners. The functions have the names they have in the code; a
    handler that can throw returns an \<open>outcome\<close> with the state it had reached.
  \<^item> The event loop is \<open>client_step\<close>: one socket, timer or user event at a time, everything up to
    the next await in one step. The two functions that wait, \<open>connect\<close> and \<open>sendFile\<close>, leave a
    record of where they are (\<open>pending_connect\<close>, \<open>upload\<close>) and are resumed by events of their own,
    so that any other event can come between. A run is a list of events.

  \<^bold>\<open>Lemmas and properties.\<close>
  \<^item> Spake2Agreement, HandshakeRuns, HandshakeProperties: two sessions with the same code confirm
    the same key, in whatever order a relay delivers (a step relation over two sessions and their
    inboxes); a session confirms only with the key it was vouched for, ends once, and accepting
    under another code, in either role, would be a collision of scrypt or of HMAC.
  \<^item> EncodingProperties, SealProperties: round trips and the exact conditions under which text, key
    strings and envelopes are read back or refused.
  \<^item> ClientInvariant, ClientFacts, KeyProperties, SessionView: the well-formedness every event
    keeps, what each operation leaves alone (the interface \<open>session_view\<close>, with an
    interpretation for each part of a session that matters), rotation and teardown.
  \<^item> Lifecycle, LifecycleProperties: an event that leaves the client without a session has gone
    through a teardown that zeroes the key arrays the session holds; the client refines a
    three-phase life cycle; nothing but a pending greeting is sent after leaving; and three places
    where a late event reaches the wrong session: a close that ends another session's room, a
    timer that replaces a session without that teardown, and a second join whose answer is
    ignored.
  \<^item> Delivery, DeliveryProperties, Admission, AdmissionProperties: what one client sends has its
    effect at the other: messages, rotated keys, the roster, the admission of a joiner; the key
    window against its abstract form, a list of the five newest keys.
  \<^item> Provenance, ProvenanceProperties: where every trusted key comes from, and how anyone who knows
    one of the five kept room keys can redirect a member's messages.
  \<^item> FileTransfer, FileProperties: an upload ends and makes the file appear at every member that
    holds its key, chunks arriving in any order; a transfer that ends early fails; a relay can
    rearrange the chunks; and an upload whose key is evicted goes on under a zeroed key.
  \<^item> Outgoing, OutgoingProperties: over all runs, which frames an event may put on a socket, with
    what is sealed in each and under which key (the relation \<open>may_send\<close> has one rule for each form
    of frame; the interface \<open>invariant_system\<close> carries it from steps to runs), and that the text
    of a frame has its fields where the reader looks for them.
  \<^item> ClientExamples holds the concrete states at which properties are applied.

  \<^bold>\<open>Bounds and fuel.\<close> The JSON parser takes fuel, twice the length of the text and two; lemma
  \<open>parse_value_enough\<close> shows that more changes nothing. Every other loop of the model recurs on its
  data. A download takes at most 100000 chunks, as in the code; an upload of a file of n chunks
  ends after n + 1 resumptions, which \<open>upload_completes\<close> proves for every n.

  \<^bold>\<open>Not modelled.\<close> The relay (Go) is another program: the client trusts it only to forward frames,
  and the model lets any frame arrive at any time. The bundler configuration (vite.config.ts),
  the lookup of page elements by id, their layout, styling, scrolling and focus, and the
  tests have no counterpart. Fields of a frame whose JSON type is not the declared one are read as
  absent. Keys of JSON objects keep their insertion order, also where a JavaScript engine would put
  integer-like keys first, and \<open>__proto__\<close> is a key like any other. Numbers of JSON are exact
  rather than rounded to doubles, and the percentage and the sizes shown are computed in
  integers. The result a \<open>HandshakeSession\<close> keeps is a value and not an array of the store: nothing
  in the code zeroes it, and the properties on zeroing say nothing of it. Copies of secrets inside
  the engine are beyond the model, as they are beyond the code.
\<close>

end
